(* ===== verification/Prelude.thy ===== *)
theory Prelude
  imports Main "HOL-Library.Word"
begin

text \<open>
  What every component shares: the named collections of facts, the result of a C++ call
  (value, exception or undefined behaviour), the integer promotions, and lemmas on lists
  and words that several theories use.
\<close>

unbundle bit_operations_syntax

named_theorems fp_facts \<open>values of floating-point operations on finite operands\<close>
named_theorems byte_facts \<open>extraction and reassembly of bit fields\<close>
named_theorems frame_facts \<open>what an operation leaves unchanged\<close>

section \<open>Results of C++ calls\<close>

text \<open>
  A call returns normally, throws, or its behaviour is undefined (an out-of-range cast from
  floating point, an index past the end of a vector, a buffer overflow).
\<close>

datatype ('e, 'a) outcome = Ok 'a | Throw 'e | UB

fun is_ok :: "('e, 'a) outcome \<Rightarrow> bool" where
  "is_ok (Ok _) = True"
| "is_ok _ = False"

fun is_throw :: "('e, 'a) outcome \<Rightarrow> bool" where
  "is_throw (Throw _) = True"
| "is_throw _ = False"

lemma is_okE: "is_ok r \<Longrightarrow> (\<And>x. r = Ok x \<Longrightarrow> P) \<Longrightarrow> P"
  by (cases r) auto

lemma is_ok_iff: "is_ok r \<longleftrightarrow> (\<exists>x. r = Ok x)"
  by (cases r) auto

section \<open>Integer types\<close>

type_synonym u8 = "8 word"
type_synonym u16 = "16 word"
type_synonym u32 = "32 word"

text \<open>
  The usual arithmetic conversions: operands narrower than \<open>int\<close> are promoted to a 32-bit
  \<open>int\<close> before a shift or a bitwise operation, and an assignment truncates the result to the
  width of its target. Both are \<open>ucast\<close> because every operand here is unsigned.
\<close>

abbreviation promote :: "'a::len word \<Rightarrow> u32" where
  "promote w \<equiv> ucast w"

abbreviation to_u8 :: "u32 \<Rightarrow> u8" where
  "to_u8 w \<equiv> ucast w"

abbreviation to_u16 :: "u32 \<Rightarrow> u16" where
  "to_u16 w \<equiv> ucast w"

section \<open>Lists\<close>

lemma list_update_nth_neq [simp]: "i \<noteq> j \<Longrightarrow> xs[i := x] ! j = xs ! j"
  by simp

lemma less_two_iff: "(j :: nat) < 2 \<longleftrightarrow> j = 0 \<or> j = 1" "j < Suc (Suc 0) \<longleftrightarrow> j = 0 \<or> j = 1"
  by auto

lemma nth_list_update_if:
  "i < length xs \<Longrightarrow> xs[j := x] ! i = (if i = j then x else xs ! i)"
  by (auto simp: nth_list_update)

text \<open>\<open>std::find_if\<close> from the start of a vector: the index of the first match.\<close>

fun find_index :: "('a \<Rightarrow> bool) \<Rightarrow> 'a list \<Rightarrow> nat option" where
  "find_index p [] = None"
| "find_index p (x # xs) = (if p x then Some 0 else map_option Suc (find_index p xs))"

lemma find_index_Some:
  "find_index p xs = Some i \<Longrightarrow> i < length xs \<and> p (xs ! i) \<and> (\<forall>j<i. \<not> p (xs ! j))"
proof (induction xs arbitrary: i)
  case Nil
  then show ?case by simp
next
  case (Cons x xs)
  then show ?case by (cases i) (auto split: if_splits simp: less_Suc_eq_0_disj)
qed

lemma find_index_None: "find_index p xs = None \<longleftrightarrow> (\<forall>x\<in>set xs. \<not> p x)"
  by (induction xs) auto

text \<open>When keys are distinct, the first match of a key is the only one.\<close>

lemma find_index_distinct:
  assumes "distinct (map f xs)" and "i < length xs"
  shows "find_index (\<lambda>x. f x = f (xs ! i)) xs = Some i"
proof (cases "find_index (\<lambda>x. f x = f (xs ! i)) xs")
  case None
  then show ?thesis using assms(2) by (auto simp: find_index_None)
next
  case (Some j)
  from find_index_Some [OF this] have j: "j < length xs" "f (xs ! j) = f (xs ! i)" by auto
  then have "map f xs ! j = map f xs ! i" using assms(2) by simp
  with assms j have "j = i" by (metis length_map nth_eq_iff_index_eq)
  with Some show ?thesis by simp
qed

section \<open>Distances\<close>

lemma abs_diff_chain:
  fixes a b c d :: "'a :: linordered_idom"
  assumes "\<bar>a - b\<bar> \<le> p" and "\<bar>b - c\<bar> \<le> q" and "\<bar>c - d\<bar> \<le> r"
  shows "\<bar>a - d\<bar> \<le> p + q + r"
  using assms by (auto simp: abs_if split: if_splits)

lemma abs_diff_trans:
  fixes a b c :: "'a :: linordered_idom"
  shows "\<bar>a - b\<bar> \<le> p \<Longrightarrow> \<bar>b - c\<bar> \<le> q \<Longrightarrow> \<bar>a - c\<bar> \<le> p + q"
  using abs_diff_chain [of a b p c q c 0] by simp

section \<open>Words\<close>

lemma take_bit_small: "unat w < 2 ^ n \<Longrightarrow> take_bit n w = (w :: 'a::len word)"
  by (metis take_bit_nat_eq_self unsigned_take_bit_eq word_unat_eq_iff)

lemma and_0xF [byte_facts]: "(w :: 'a::len word) AND 0xF = take_bit 4 w"
  by (simp add: take_bit_eq_mask mask_eq_exp_minus_1)

lemma and_0xFF [byte_facts]: "(w :: 'a::len word) AND 0xFF = take_bit 8 w"
  by (simp add: take_bit_eq_mask mask_eq_exp_minus_1)

lemma bit_of_8_bits: "bit (b :: u8) n \<Longrightarrow> n < 8"
  using bit_imp_le_length [of b n] by simp

text \<open>A field of twelve bits in a \<open>uint16_t\<close>.\<close>

lemma bit_of_12_bits:
  assumes "(w :: u16) < 0x1000" and "bit w n"
  shows "n < 12"
proof -
  have "take_bit 12 w = w" using assms(1) by (intro take_bit_small) (simp add: word_less_nat_alt)
  then show ?thesis using assms(2) by (metis bit_take_bit_iff)
qed

end
