(* ===== verification/Ieee.thy ===== *)
theory Ieee
  imports Prelude "HOL-Library.Log_Nat"
begin

text \<open>
  IEEE-754 binary floating point, as the C++ types \<open>float\<close> (binary32) and \<open>double\<close>
  (binary64) compute: round to nearest, ties to even, signed zeros, infinities and NaN (one
  NaN: payloads are not observed). A finite datum is its exact rational value; every operation
  computes the exact result and rounds it once, into the format it names. The code is compiled
  for targets whose \<open>FLT_EVAL_METHOD\<close> is 0, without contraction into fused operations.
\<close>

section \<open>Formats and data\<close>

record fmt =
  prec :: nat     \<comment> \<open>bits of the significand, hidden bit included\<close>
  qmin :: int     \<comment> \<open>exponent of the least positive datum\<close>
  emax :: int     \<comment> \<open>finite data are below \<open>2 ^ emax\<close>\<close>

definition b32 :: fmt where
  "b32 = \<lparr>prec = 24, qmin = - 149, emax = 128\<rparr>"

definition b64 :: fmt where
  "b64 = \<lparr>prec = 53, qmin = - 1074, emax = 1024\<rparr>"

lemma fmt_simps [simp]:
  "prec b32 = 24" "qmin b32 = - 149" "emax b32 = 128"
  "prec b64 = 53" "qmin b64 = - 1074" "emax b64 = 1024"
  by (simp_all add: b32_def b64_def)

datatype fp = NaN | Inf bool | NegZero | Fin rat

text \<open>\<open>Inf True\<close> is minus infinity; \<open>Fin 0\<close> is plus zero.\<close>

fun is_nan :: "fp \<Rightarrow> bool" where
  "is_nan NaN = True"
| "is_nan _ = False"

fun is_fin :: "fp \<Rightarrow> bool" where
  "is_fin NegZero = True"
| "is_fin (Fin _) = True"
| "is_fin _ = False"

fun fval :: "fp \<Rightarrow> rat" where
  "fval (Fin r) = r"
| "fval _ = 0"

fun signb :: "fp \<Rightarrow> bool" where
  "signb (Fin r) = (r < 0)"
| "signb (Inf s) = s"
| "signb NegZero = True"
| "signb NaN = False"

section \<open>Rounding\<close>

definition ilog2 :: "rat \<Rightarrow> int" where
  "ilog2 q =
     (let (a, b) = quotient_of q;
          k = int (floorlog 2 (nat a)) - int (floorlog 2 (nat b))
      in if 2 powi k \<le> q then k else k - 1)"

definition rne :: "rat \<Rightarrow> int" where
  "rne x =
     (let f = \<lfloor>x\<rfloor>; d = x - of_int f
      in if d < 1/2 then f else if 1/2 < d then f + 1 else if even f then f else f + 1)"

definition quantum_exp :: "fmt \<Rightarrow> rat \<Rightarrow> int" where
  "quantum_exp F q = max (ilog2 q - int (prec F) + 1) (qmin F)"

definition rnd_mag :: "fmt \<Rightarrow> rat \<Rightarrow> rat" where
  "rnd_mag F q =
     (if q = 0 then 0
      else let u = 2 powi quantum_exp F q in of_int (rne (q / u)) * u)"

definition rnd :: "fmt \<Rightarrow> rat \<Rightarrow> rat" where
  "rnd F v = (if v < 0 then - rnd_mag F (- v) else rnd_mag F v)"

text \<open>Deliver an exact result \<open>v\<close>; \<open>s\<close> is the sign of the result when \<open>v\<close> is zero.\<close>

definition deliver :: "fmt \<Rightarrow> bool \<Rightarrow> rat \<Rightarrow> fp" where
  "deliver F s v =
     (let r = rnd F v; t = (if v = 0 then s else v < 0)
      in if r = 0 then (if t then NegZero else Fin 0)
         else if \<bar>r\<bar> < 2 powi emax F then Fin r else Inf t)"

section \<open>Rounding to an integer and the binary logarithm\<close>

lemma rne_error: "\<bar>of_int (rne x) - x\<bar> \<le> 1/2"
  unfolding rne_def Let_def using floor_correct [of x] by (auto simp: abs_le_iff)

lemma rne_of_int [simp]: "rne (of_int n) = n"
  by (simp add: rne_def)

lemma rne_mono:
  assumes "x \<le> y"
  shows "rne x \<le> rne y"
proof (rule ccontr)
  assume "\<not> rne x \<le> rne y"
  then have lt: "rne y + 1 \<le> rne x" by simp
  then have "of_int (rne y) + 1 \<le> (of_int (rne x) :: rat)" by (metis of_int_1 of_int_add of_int_le_iff)
  with rne_error [of x] rne_error [of y] assms have "x = y" by (auto simp: abs_le_iff)
  with lt show False by simp
qed

lemma rne_le_of_int: "x \<le> of_int n \<Longrightarrow> rne x \<le> n"
  using rne_mono [of x "of_int n"] by simp

lemma rne_ge_of_int: "of_int n \<le> x \<Longrightarrow> n \<le> rne x"
  using rne_mono [of "of_int n" x] by simp

lemma floorlog_int_bounds:
  assumes "0 < a"
  defines "A \<equiv> int (floorlog 2 (nat a))"
  shows "(2::rat) powi (A - 1) \<le> of_int a" and "of_int a < (2::rat) powi A"
proof -
  define n where "n = nat a"
  have n: "0 < n" "a = int n" using assms(1) by (auto simp: n_def)
  have fl: "0 < floorlog 2 n" using n(1) by (simp add: floorlog_def)
  have b: "2 ^ (floorlog 2 n - 1) \<le> n" "n < 2 ^ floorlog 2 n"
    using floorlog_bounds [of n 2] n(1) by auto
  have "(2::rat) powi (A - 1) = 2 ^ (floorlog 2 n - 1)"
    using fl by (simp add: A_def n_def power_int_def nat_diff_distrib)
  also have "\<dots> \<le> of_nat n" using b(1) by (metis of_nat_le_iff of_nat_numeral of_nat_power)
  finally show "(2::rat) powi (A - 1) \<le> of_int a" by (simp add: n(2))
  have "of_nat n < (2::rat) ^ floorlog 2 n" using b(2) by (metis of_nat_less_iff of_nat_numeral of_nat_power)
  then show "of_int a < (2::rat) powi A" by (simp add: A_def n_def [symmetric] n(2))
qed

lemma ilog2_bounds:
  assumes "0 < q"
  shows "2 powi ilog2 q \<le> q" and "q < 2 powi (ilog2 q + 1)"
proof -
  obtain a b where ab: "quotient_of q = (a, b)" by (cases "quotient_of q")
  have b: "0 < b" using ab by (rule quotient_of_denom_pos)
  have q: "q = of_int a / of_int b" using ab by (rule quotient_of_div)
  have a: "0 < a" using assms b by (simp add: q zero_less_divide_iff)
  define A where "A = int (floorlog 2 (nat a))"
  define B where "B = int (floorlog 2 (nat b))"
  note fa = floorlog_int_bounds [OF a, folded A_def]
  note fb = floorlog_int_bounds [OF b, folded B_def]
  have "q < 2 powi A / of_int b" using fa(2) b by (simp add: q divide_strict_right_mono)
  also have "\<dots> \<le> 2 powi A / 2 powi (B - 1)"
    using fb(1) by (intro divide_left_mono) (auto simp: b)
  also have "\<dots> = 2 powi (A - B + 1)" by (simp add: power_int_diff [symmetric] algebra_simps)
  finally have up: "q < 2 powi (A - B + 1)" .
  have "2 powi (A - B - 1) = 2 powi (A - 1) / (2::rat) powi B"
    by (simp add: power_int_diff [symmetric] algebra_simps)
  also have "\<dots> \<le> of_int a / 2 powi B" using fa(1) by (intro divide_right_mono) auto
  also have "\<dots> \<le> q" unfolding q using fb(2) a b by (intro divide_left_mono) auto
  finally have lo: "2 powi (A - B - 1) \<le> q" .
  have i: "ilog2 q = (if 2 powi (A - B) \<le> q then A - B else A - B - 1)"
    by (simp add: ilog2_def ab A_def B_def Let_def)
  show "2 powi ilog2 q \<le> q" using lo by (simp add: i)
  show "q < 2 powi (ilog2 q + 1)" using up by (auto simp: i)
qed

lemma ilog2_eqI:
  assumes "2 powi e \<le> q" and "q < 2 powi (e + 1)"
  shows "ilog2 q = e"
proof -
  have "(0::rat) < 2 powi e" by simp
  then have q: "0 < q" using assms(1) by (rule less_le_trans)
  have "(2::rat) powi e < 2 powi (ilog2 q + 1)" using assms(1) ilog2_bounds(2) [OF q] by simp
  moreover have "(2::rat) powi (ilog2 q) < 2 powi (e + 1)" using assms(2) ilog2_bounds(1) [OF q] by simp
  ultimately have "e < ilog2 q + 1" "ilog2 q < e + 1"
    by (metis one_less_numeral_iff power_int_increasing semiring_norm(76) linorder_not_le
        less_imp_le)+
  then show ?thesis by simp
qed

lemma ilog2_mono:
  assumes "0 < x" and "x \<le> y"
  shows "ilog2 x \<le> ilog2 y"
proof (rule ccontr)
  assume "\<not> ilog2 x \<le> ilog2 y"
  then have "(2::rat) powi (ilog2 y + 1) \<le> 2 powi ilog2 x"
    by (intro power_int_increasing) auto
  with ilog2_bounds(1) [of x] ilog2_bounds(2) [of y] assms show False by simp
qed

lemma ilog2_powi [simp]: "ilog2 (2 powi e) = e"
  by (rule ilog2_eqI) (simp_all add: power_int_strict_increasing)

section \<open>The laws of a binary format\<close>

text \<open>
  The interface of a binary format: a significand of at least two bits and an exponent range
  that holds more than one binade of normal data. Everything proved about rounding is proved
  once here, from these two laws, and interpreted for \<open>float\<close> and for \<open>double\<close>.
\<close>

definition representable :: "fmt \<Rightarrow> rat \<Rightarrow> bool" where
  "representable F q \<longleftrightarrow>
     (\<exists>m k. q = of_int m * 2 powi k \<and> \<bar>m\<bar> \<le> 2 ^ prec F \<and> qmin F \<le> k)"

lemma representableI:
  "q = of_int m * 2 powi k \<Longrightarrow> \<bar>m\<bar> \<le> 2 ^ prec F \<Longrightarrow> qmin F \<le> k \<Longrightarrow> representable F q"
  unfolding representable_def by blast

locale ieee_format =
  fixes F :: fmt
  assumes prec_gt_1: "1 < prec F"
    and exponent_room: "qmin F + int (prec F) < emax F"
begin

lemma rnd_mag_0 [simp]: "rnd_mag F 0 = 0"
  by (simp add: rnd_mag_def)

lemma rnd_0 [simp]: "rnd F 0 = 0"
  by (simp add: rnd_def)

lemma quantum_lower: "qmin F \<le> quantum_exp F q"
  by (simp add: quantum_exp_def)

lemma scaled_le:
  assumes "0 < q"
  shows "q / 2 powi quantum_exp F q \<le> 2 ^ prec F"
proof -
  have "ilog2 q + 1 \<le> quantum_exp F q + int (prec F)" by (simp add: quantum_exp_def)
  then have "(2::rat) powi (ilog2 q + 1) \<le> 2 powi (quantum_exp F q + int (prec F))"
    by (intro power_int_increasing) auto
  with ilog2_bounds(2) [OF assms] have "q \<le> 2 powi quantum_exp F q * 2 ^ prec F"
    by (simp add: power_int_add)
  then show ?thesis by (simp add: divide_le_eq mult.commute)
qed

lemma rne_scaled_le: "0 < q \<Longrightarrow> rne (q / 2 powi quantum_exp F q) \<le> 2 ^ prec F"
  by (rule rne_le_of_int) (simp add: scaled_le)

lemma rnd_mag_nonneg: "0 \<le> q \<Longrightarrow> 0 \<le> rnd_mag F q"
  by (auto simp: rnd_mag_def Let_def intro!: mult_nonneg_nonneg rne_ge_of_int)

lemma rnd_mag_mono:
  assumes "0 \<le> x" and "x \<le> y"
  shows "rnd_mag F x \<le> rnd_mag F y"
proof (cases "x = 0")
  case True
  then show ?thesis using assms by (simp add: rnd_mag_nonneg)
next
  case False
  with assms have x: "0 < x" and y: "0 < y" by auto
  let ?a = "quantum_exp F x" and ?b = "quantum_exp F y"
  have le: "?a \<le> ?b" using ilog2_mono [OF x assms(2)] by (auto simp: quantum_exp_def)
  show ?thesis
  proof (cases "?a = ?b")
    case True
    have "x / 2 powi ?b \<le> y / 2 powi ?b" using assms(2) by (intro divide_right_mono) auto
    then have "rne (x / 2 powi ?b) \<le> rne (y / 2 powi ?b)" by (rule rne_mono)
    with True x y show ?thesis by (simp add: rnd_mag_def Let_def)
  next
    case False
    with le have ab: "?a + 1 \<le> ?b" by simp
    with quantum_lower [of x] have "ilog2 y = ?b + int (prec F) - 1" by (auto simp: quantum_exp_def)
    then have "2 powi (?b + int (prec F) - 1) \<le> y" using ilog2_bounds(1) [OF y] by simp
    then have "2 powi (int (prec F) - 1) \<le> y / 2 powi ?b"
      by (simp add: le_divide_eq power_int_add [symmetric] algebra_simps)
    then have "of_int (2 ^ (prec F - 1)) \<le> y / 2 powi ?b"
      using prec_gt_1 by (simp add: power_int_def nat_diff_distrib)
    then have "2 ^ (prec F - 1) \<le> rne (y / 2 powi ?b)" by (rule rne_ge_of_int)
    then have "of_int (2 ^ (prec F - 1)) \<le> (of_int (rne (y / 2 powi ?b)) :: rat)"
      by (simp only: of_int_le_iff)
    then have hi: "2 ^ (prec F - 1) * 2 powi ?b \<le> rnd_mag F y"
      using y by (simp add: rnd_mag_def Let_def)
    have "of_int (rne (x / 2 powi ?a)) \<le> (of_int (2 ^ prec F) :: rat)"
      by (simp only: of_int_le_iff rne_scaled_le [OF x])
    then have "rnd_mag F x \<le> 2 ^ prec F * 2 powi ?a"
      using x by (simp add: rnd_mag_def Let_def)
    also have "\<dots> = 2 ^ (prec F - 1) * 2 powi (?a + 1)"
      using prec_gt_1 by (cases "prec F") (auto simp: power_int_add)
    also have "\<dots> \<le> 2 ^ (prec F - 1) * 2 powi ?b"
      using ab by (intro mult_left_mono power_int_increasing) auto
    also note hi
    finally show ?thesis .
  qed
qed

lemma representable_rnd_mag:
  assumes "0 \<le> q"
  shows "representable F (rnd_mag F q)"
proof (cases "q = 0")
  case True
  then show ?thesis by (intro representableI [of _ 0 "qmin F"]) simp_all
next
  case False
  with assms have q: "0 < q" by simp
  let ?n = "rne (q / 2 powi quantum_exp F q)"
  have "0 \<le> ?n" using q by (intro rne_ge_of_int) simp
  then have "\<bar>?n\<bar> \<le> 2 ^ prec F" using rne_scaled_le [OF q] by simp
  then show ?thesis
    by (intro representableI [of _ ?n "quantum_exp F q"])
      (simp_all add: rnd_mag_def Let_def False quantum_lower)
qed

lemma rnd_mag_exact:
  assumes "representable F q" and "0 \<le> q"
  shows "rnd_mag F q = q"
proof (cases "q = 0")
  case False
  with assms(2) have q: "0 < q" by simp
  from assms(1) obtain m k
    where m: "q = of_int m * 2 powi k" "\<bar>m\<bar> \<le> 2 ^ prec F" "qmin F \<le> k"
    by (auto simp: representable_def)
  let ?e = "quantum_exp F q"
  have "(0::rat) < 2 powi k" by simp
  with q have mpos: "0 < m" unfolding m(1) using zero_less_mult_pos2 of_int_0_less_iff by blast
  have "of_int m \<le> (of_int (2 ^ prec F) :: rat)" using m(2) mpos by (simp only: of_int_le_iff)
  then have ub: "q \<le> 2 powi (k + int (prec F))" by (simp add: m(1) power_int_add mult.commute)
  have "\<exists>n. q / 2 powi ?e = of_int n"
  proof (cases "?e \<le> k")
    case True
    then have "(2::rat) powi (k - ?e) = 2 ^ nat (k - ?e)" by (simp add: power_int_nonneg_exp)
    moreover have "q / 2 powi ?e = of_int m * 2 powi (k - ?e)"
      by (subst m(1)) (simp add: power_int_diff)
    ultimately have "q / 2 powi ?e = of_int (m * 2 ^ nat (k - ?e))" by simp
    then show ?thesis by blast
  next
    case False
    then have e: "?e = ilog2 q - int (prec F) + 1" using m(3) by (auto simp: quantum_exp_def)
    with False have "k + int (prec F) \<le> ilog2 q" by simp
    then have "(2::rat) powi (k + int (prec F)) \<le> 2 powi ilog2 q" by (intro power_int_increasing) auto
    with ub ilog2_bounds(1) [OF q] have qe: "q = 2 powi (k + int (prec F))" by linarith
    then have "?e = k + 1" using e by simp
    then have "2 powi ?e = (2::rat) powi (k + 1)" by (rule arg_cong)
    with qe have "q / 2 powi ?e = 2 powi (k + int (prec F)) / 2 powi (k + 1)"
      by (rule arg_cong2 [where f = "(/)"])
    also have "\<dots> = 2 powi (k + int (prec F) - (k + 1))"
      by (rule power_int_diff [symmetric]) simp
    also have "k + int (prec F) - (k + 1) = int (prec F - 1)" using prec_gt_1 by simp
    finally have "q / 2 powi ?e = of_int (2 ^ (prec F - 1))" by (simp only: power_int_of_nat) simp
    then show ?thesis by blast
  qed
  then obtain n where n: "q / 2 powi ?e = of_int n" by blast
  then have "q = of_int n * 2 powi ?e" by (simp add: divide_eq_eq)
  with n False show ?thesis by (simp add: rnd_mag_def Let_def)
qed simp

lemma rnd_mag_error:
  assumes "0 \<le> q"
  shows "\<bar>rnd_mag F q - q\<bar> \<le> q / 2 ^ prec F + 2 powi (qmin F - 1)"
proof (cases "q = 0")
  case False
  with assms have q: "0 < q" by simp
  let ?e = "quantum_exp F q" and ?u = "2 powi quantum_exp F q :: rat"
  have "\<bar>rnd_mag F q - q\<bar> = \<bar>of_int (rne (q / ?u)) - q / ?u\<bar> * ?u"
    using False by (simp add: rnd_mag_def Let_def abs_mult_pos left_diff_distrib)
  also have "\<dots> \<le> 1/2 * ?u" by (intro mult_right_mono rne_error) simp
  also have "\<dots> = 2 powi (?e - 1)" by (simp add: power_int_diff)
  also have "\<dots> \<le> q / 2 ^ prec F + 2 powi (qmin F - 1)"
  proof (cases "?e = qmin F")
    case True
    then show ?thesis using q by simp
  next
    case False
    then have "?e - 1 = ilog2 q - int (prec F)" by (auto simp: quantum_exp_def)
    then have "2 powi (?e - 1) = 2 powi ilog2 q / (2::rat) ^ prec F" by (simp add: power_int_diff)
    also have "\<dots> \<le> q / 2 ^ prec F" using ilog2_bounds(1) [OF q] by (intro divide_right_mono) auto
    finally have "2 powi (?e - 1) \<le> q / 2 ^ prec F" .
    moreover have "(0::rat) \<le> 2 powi (qmin F - 1)" by simp
    ultimately show ?thesis by linarith
  qed
  finally show ?thesis .
qed simp

text \<open>The same for signed values.\<close>

lemma rnd_uminus: "rnd F (- v) = - rnd F v"
  by (auto simp: rnd_def)

lemma rnd_nonneg: "0 \<le> v \<Longrightarrow> 0 \<le> rnd F v"
  by (simp add: rnd_def rnd_mag_nonneg)

lemma rnd_mono:
  assumes "x \<le> y"
  shows "rnd F x \<le> rnd F y"
proof (cases "x < 0 \<and> \<not> y < 0")
  case True
  then have "0 \<le> rnd_mag F (- x)" "0 \<le> rnd_mag F y" by (auto intro: rnd_mag_nonneg)
  with True show ?thesis by (simp add: rnd_def)
next
  case False
  with assms show ?thesis
    using rnd_mag_mono [of x y] rnd_mag_mono [of "- y" "- x"] by (simp add: rnd_def)
qed

lemma representable_uminusI: "representable F q \<Longrightarrow> representable F (- q)"
  unfolding representable_def by (metis abs_minus_cancel minus_mult_left of_int_minus)

lemma representable_uminus: "representable F (- q) = representable F q"
  using representable_uminusI [of q] representable_uminusI [of "- q"] by auto

lemma representable_rnd: "representable F (rnd F v)"
  using representable_rnd_mag [of v] representable_rnd_mag [of "- v"]
  by (auto simp: rnd_def representable_uminus)

lemma rnd_exact: "representable F v \<Longrightarrow> rnd F v = v"
  using rnd_mag_exact [of v] rnd_mag_exact [of "- v"] by (auto simp: rnd_def representable_uminus)

lemma rnd_idem: "rnd F (rnd F v) = rnd F v"
  by (rule rnd_exact) (rule representable_rnd)

lemma rnd_error: "\<bar>rnd F v - v\<bar> \<le> \<bar>v\<bar> / 2 ^ prec F + 2 powi (qmin F - 1)"
  using rnd_mag_error [of v] rnd_mag_error [of "- v"] by (auto simp: rnd_def)

lemma representable_of_int:
  assumes "\<bar>n\<bar> \<le> 2 ^ prec F" and "qmin F \<le> 0"
  shows "representable F (of_int n)"
  using assms by (intro representableI [of _ n 0]) simp_all

lemma representable_powi: "qmin F \<le> k \<Longrightarrow> representable F (2 powi k)"
  by (intro representableI [of _ 1 k]) simp_all

lemma rnd_eval:
  assumes "2 powi e \<le> q" and "q < 2 powi (e + 1)"
  shows "rnd F q = (let u = 2 powi max (e - int (prec F) + 1) (qmin F) in of_int (rne (q / u)) * u)"
proof -
  have "(0::rat) < 2 powi e" by simp
  with assms(1) have "0 < q" by linarith
  then show ?thesis
    using ilog2_eqI [OF assms] by (auto simp: rnd_def rnd_mag_def quantum_exp_def)
qed

end

section \<open>Operations\<close>

fun is_inf :: "fp \<Rightarrow> bool" where
  "is_inf (Inf _) = True"
| "is_inf _ = False"

fun fp_neg :: "fp \<Rightarrow> fp" where
  "fp_neg NaN = NaN"
| "fp_neg (Inf s) = Inf (\<not> s)"
| "fp_neg NegZero = Fin 0"
| "fp_neg (Fin r) = (if r = 0 then NegZero else Fin (- r))"

definition fp_add :: "fmt \<Rightarrow> fp \<Rightarrow> fp \<Rightarrow> fp" where
  "fp_add F x y =
     (if is_nan x \<or> is_nan y then NaN
      else if is_inf x \<and> is_inf y then (if signb x = signb y then x else NaN)
      else if is_inf x then x
      else if is_inf y then y
      else deliver F (signb x \<and> signb y) (fval x + fval y))"

definition fp_sub :: "fmt \<Rightarrow> fp \<Rightarrow> fp \<Rightarrow> fp" where
  "fp_sub F x y = fp_add F x (fp_neg y)"

definition fp_mul :: "fmt \<Rightarrow> fp \<Rightarrow> fp \<Rightarrow> fp" where
  "fp_mul F x y =
     (if is_nan x \<or> is_nan y then NaN
      else if is_inf x \<or> is_inf y then
        (if (is_fin x \<and> fval x = 0) \<or> (is_fin y \<and> fval y = 0) then NaN
         else Inf (signb x \<noteq> signb y))
      else deliver F (signb x \<noteq> signb y) (fval x * fval y))"

definition fp_div :: "fmt \<Rightarrow> fp \<Rightarrow> fp \<Rightarrow> fp" where
  "fp_div F x y =
     (if is_nan x \<or> is_nan y then NaN
      else if is_inf x then (if is_inf y then NaN else Inf (signb x \<noteq> signb y))
      else if is_inf y then deliver F (signb x \<noteq> signb y) 0
      else if fval y = 0 then (if fval x = 0 then NaN else Inf (signb x \<noteq> signb y))
      else deliver F (signb x \<noteq> signb y) (fval x / fval y))"

text \<open>Comparisons: every comparison with NaN is false, and the two zeros are equal.\<close>

definition fp_lt :: "fp \<Rightarrow> fp \<Rightarrow> bool" where
  "fp_lt x y \<longleftrightarrow> \<not> is_nan x \<and> \<not> is_nan y \<and>
     (if is_inf x then signb x \<and> \<not> (is_inf y \<and> signb y)
      else if is_inf y then \<not> signb y
      else fval x < fval y)"

definition fp_le :: "fp \<Rightarrow> fp \<Rightarrow> bool" where
  "fp_le x y \<longleftrightarrow> \<not> is_nan x \<and> \<not> is_nan y \<and> \<not> fp_lt y x"

text \<open>
  \<open>fmaxf\<close> and \<open>fminf\<close> ignore a NaN operand. Of two zeros of different sign either may be
  returned; here it is the first.
\<close>

definition fp_max :: "fp \<Rightarrow> fp \<Rightarrow> fp" where
  "fp_max x y = (if is_nan x then y else if is_nan y then x else if fp_lt x y then y else x)"

definition fp_min :: "fp \<Rightarrow> fp \<Rightarrow> fp" where
  "fp_min x y = (if is_nan x then y else if is_nan y then x else if fp_lt y x then y else x)"

text \<open>Conversions: from integers, from decimal literals and between the formats.\<close>

definition fp_of_int :: "fmt \<Rightarrow> int \<Rightarrow> fp" where
  "fp_of_int F i = deliver F False (of_int i)"

definition fp_lit :: "fmt \<Rightarrow> rat \<Rightarrow> fp" where
  "fp_lit F r = deliver F False r"

fun fp_conv :: "fmt \<Rightarrow> fp \<Rightarrow> fp" where
  "fp_conv F NaN = NaN"
| "fp_conv F (Inf s) = Inf s"
| "fp_conv F NegZero = NegZero"
| "fp_conv F (Fin r) = deliver F False r"

text \<open>
  A cast to an integer type truncates towards zero; when the truncated value is not a value of
  the type (NaN and infinities included) the behaviour is undefined, which is \<open>None\<close>.
\<close>

definition fp_trunc :: "fp \<Rightarrow> int option" where
  "fp_trunc x =
     (if is_fin x then Some (if fval x < 0 then - \<lfloor>- fval x\<rfloor> else \<lfloor>fval x\<rfloor>) else None)"

definition cast_u32 :: "fp \<Rightarrow> u32 option" where
  "cast_u32 x =
     (case fp_trunc x of
        None \<Rightarrow> None
      | Some i \<Rightarrow> if 0 \<le> i \<and> i < 2 ^ 32 then Some (word_of_int i) else None)"

definition cast_i32 :: "fp \<Rightarrow> u32 option" where
  "cast_i32 x =
     (case fp_trunc x of
        None \<Rightarrow> None
      | Some i \<Rightarrow> if - (2 ^ 31) \<le> i \<and> i < 2 ^ 31 then Some (word_of_int i) else None)"

text \<open>A value that a variable of the format can hold.\<close>

definition datum :: "fmt \<Rightarrow> fp \<Rightarrow> bool" where
  "datum F x = (case x of Fin r \<Rightarrow> rnd F r = r \<and> \<bar>r\<bar> < 2 powi emax F | _ \<Rightarrow> True)"

section \<open>Values of the operations\<close>

lemma is_fin_cases: "is_fin x \<longleftrightarrow> \<not> is_nan x \<and> \<not> is_inf x"
  by (cases x) auto

lemma fval_neg [simp]: "fval (fp_neg x) = - fval x"
  by (cases x) auto

lemma is_fin_neg [simp]: "is_fin (fp_neg x) = is_fin x"
  by (cases x) auto

lemma is_nan_neg [simp]: "is_nan (fp_neg x) = is_nan x"
  by (cases x) auto

lemma fp_neg_neg [simp]: "fp_neg (fp_neg x) = x"
  by (cases x) auto

lemma fp_lt_fin: "is_fin x \<Longrightarrow> is_fin y \<Longrightarrow> fp_lt x y \<longleftrightarrow> fval x < fval y"
  by (simp add: fp_lt_def is_fin_cases)

lemma fp_le_fin: "is_fin x \<Longrightarrow> is_fin y \<Longrightarrow> fp_le x y \<longleftrightarrow> fval x \<le> fval y"
  by (auto simp: fp_le_def fp_lt_def is_fin_cases)

text \<open>
  Clamping as the code does it, \<open>fminf(fmaxf(lo, x), hi)\<close>: whatever \<open>x\<close> is, the result is a
  number of the range.
\<close>

definition clampf :: "fp \<Rightarrow> fp \<Rightarrow> fp \<Rightarrow> fp" where
  "clampf lo x hi = fp_min (fp_max lo x) hi"

lemma clampf_range:
  assumes "is_fin lo" and "is_fin hi" and "fval lo \<le> fval hi"
  shows "is_fin (clampf lo x hi)" and "fval lo \<le> fval (clampf lo x hi)"
    and "fval (clampf lo x hi) \<le> fval hi"
  using assms by (cases x; auto simp: clampf_def fp_max_def fp_min_def fp_lt_def is_fin_cases)+

lemma clampf_id:
  assumes "is_fin lo" and "is_fin hi" and "is_fin x" and "fval lo \<le> fval x" and "fval x \<le> fval hi"
  shows "fval (clampf lo x hi) = fval x"
  using assms by (auto simp: clampf_def fp_max_def fp_min_def fp_lt_def is_fin_cases)

lemma clampf_nan: "is_fin lo \<Longrightarrow> is_fin hi \<Longrightarrow> fval lo \<le> fval hi \<Longrightarrow> clampf lo NaN hi = lo"
  by (auto simp: clampf_def fp_max_def fp_min_def fp_lt_def is_fin_cases)

lemma clampf_mono:
  assumes "is_fin lo" and "is_fin hi" and "fval lo \<le> fval hi" and "fp_le x y"
  shows "fval (clampf lo x hi) \<le> fval (clampf lo y hi)"
  using assms
  by (cases x; cases y) (auto simp: clampf_def fp_max_def fp_min_def fp_lt_def fp_le_def is_fin_cases)

context ieee_format
begin

lemma deliver_fin:
  assumes "\<bar>rnd F v\<bar> < 2 powi emax F"
  shows "is_fin (deliver F s v)" and "fval (deliver F s v) = rnd F v"
  using assms by (auto simp: deliver_def Let_def)

lemma datum_deliver: "datum F (deliver F s v)"
  by (auto simp: deliver_def Let_def datum_def rnd_idem split: fp.splits if_splits)

lemma rnd_abs_le:
  assumes "\<bar>v\<bar> \<le> b" and "rnd F b = b"
  shows "\<bar>rnd F v\<bar> \<le> b"
proof -
  from assms(1) have "rnd F v \<le> rnd F b" and "rnd F (- b) \<le> rnd F v"
    by (auto intro: rnd_mono)
  then show ?thesis by (simp add: assms(2) rnd_uminus)
qed

lemma rnd_below:
  assumes "\<bar>v\<bar> \<le> 2 powi k" and "qmin F \<le> k" and "k < emax F"
  shows "\<bar>rnd F v\<bar> < 2 powi emax F"
proof -
  have "\<bar>rnd F v\<bar> \<le> 2 powi k"
    by (rule rnd_abs_le [OF assms(1)]) (rule rnd_exact [OF representable_powi [OF assms(2)]])
  also have "\<dots> < 2 powi emax F" using assms(3) by (intro power_int_strict_increasing) auto
  finally show ?thesis .
qed

lemma fp_add_fin:
  assumes "is_fin x" and "is_fin y" and "\<bar>rnd F (fval x + fval y)\<bar> < 2 powi emax F"
  shows "is_fin (fp_add F x y)" and "fval (fp_add F x y) = rnd F (fval x + fval y)"
  using assms by (auto simp: fp_add_def is_fin_cases [of x] is_fin_cases [of y] deliver_fin)

lemma fp_sub_fin:
  assumes "is_fin x" and "is_fin y" and "\<bar>rnd F (fval x - fval y)\<bar> < 2 powi emax F"
  shows "is_fin (fp_sub F x y)" and "fval (fp_sub F x y) = rnd F (fval x - fval y)"
  using fp_add_fin [of x "fp_neg y"] assms by (auto simp: fp_sub_def)

lemma fp_mul_fin:
  assumes "is_fin x" and "is_fin y" and "\<bar>rnd F (fval x * fval y)\<bar> < 2 powi emax F"
  shows "is_fin (fp_mul F x y)" and "fval (fp_mul F x y) = rnd F (fval x * fval y)"
  using assms by (auto simp: fp_mul_def is_fin_cases [of x] is_fin_cases [of y] deliver_fin)

lemma fp_div_fin:
  assumes "is_fin x" and "is_fin y" and "fval y \<noteq> 0" and "\<bar>rnd F (fval x / fval y)\<bar> < 2 powi emax F"
  shows "is_fin (fp_div F x y)" and "fval (fp_div F x y) = rnd F (fval x / fval y)"
  using assms by (auto simp: fp_div_def is_fin_cases [of x] is_fin_cases [of y] deliver_fin)

lemma fp_of_int_fin:
  assumes "\<bar>i\<bar> \<le> 2 ^ prec F" and "qmin F \<le> 0" and "int (prec F) < emax F"
  shows "is_fin (fp_of_int F i)" and "fval (fp_of_int F i) = of_int i"
proof -
  have r: "rnd F (of_int i) = of_int i" by (rule rnd_exact [OF representable_of_int [OF assms(1,2)]])
  have "\<bar>of_int i\<bar> \<le> (of_int (2 ^ prec F) :: rat)" using assms(1) by (metis of_int_abs of_int_le_iff)
  then have "\<bar>rnd F (of_int i)\<bar> \<le> 2 powi int (prec F)" by (simp add: r)
  also have "\<dots> < 2 powi emax F" using assms(3) by (intro power_int_strict_increasing) auto
  finally have b: "\<bar>rnd F (of_int i)\<bar> < 2 powi emax F" .
  show "is_fin (fp_of_int F i)" "fval (fp_of_int F i) = of_int i"
    using deliver_fin [OF b] by (auto simp: fp_of_int_def r)
qed

lemma fp_lit_exact:
  assumes "representable F r" and "\<bar>r\<bar> < 2 powi emax F"
  shows "fp_lit F r = Fin r"
  using assms by (auto simp: fp_lit_def deliver_def Let_def rnd_exact)

lemma datum_fin: "datum F x \<Longrightarrow> is_fin x \<Longrightarrow> rnd F (fval x) = fval x"
  by (cases x) (auto simp: datum_def)

end

interpretation f32: ieee_format b32
  by unfold_locales simp_all

interpretation f64: ieee_format b64
  by unfold_locales simp_all

end
