(* ===== verification/Com.thy ===== *)
theory Com
  imports Ieee
begin

text \<open>
  The data of \<open>cubemars_com.hpp\<close>: joint modes, error and communication codes, packet ids, the
  configuration, command and state of a joint, the table of motor types and the control
  sequences of the MIT mode; and \<open>struct can_frame\<close> with the constants of \<open>linux/can.h\<close>.
\<close>

section \<open>CAN frames\<close>

text \<open>The eight data bytes \<open>data[0]\<close> to \<open>data[7]\<close> of a classic CAN frame.\<close>

datatype can_data =
  Data (d0: u8) (d1: u8) (d2: u8) (d3: u8) (d4: u8) (d5: u8) (d6: u8) (d7: u8)

record can_frame =
  frame_id :: u32
  frame_len :: u8
  frame_data :: can_data

definition zero_data :: can_data where
  "zero_data = Data 0 0 0 0 0 0 0 0"

definition zero_frame :: can_frame where
  "zero_frame = \<lparr>frame_id = 0, frame_len = 0, frame_data = zero_data\<rparr>"

text \<open>The flags and masks of an identifier, fixed by the kernel's user interface.\<close>

definition CAN_EFF_FLAG :: u32 where "CAN_EFF_FLAG = 0x80000000"
definition CAN_ERR_FLAG :: u32 where "CAN_ERR_FLAG = 0x20000000"
definition CAN_SFF_MASK :: u32 where "CAN_SFF_MASK = 0x7FF"
definition CAN_EFF_MASK :: u32 where "CAN_EFF_MASK = 0x1FFFFFFF"
definition CAN_ERR_MASK :: u32 where "CAN_ERR_MASK = 0x1FFFFFFF"
definition CAN_MAX_DLEN :: u8 where "CAN_MAX_DLEN = 8"

lemmas can_const_defs =
  CAN_EFF_FLAG_def CAN_ERR_FLAG_def CAN_SFF_MASK_def CAN_EFF_MASK_def CAN_ERR_MASK_def
  CAN_MAX_DLEN_def

section \<open>Enumerations\<close>

datatype JointMode = UNDEFINED | POSITION | VELOCITY | EFFORT | ERROR

text \<open>
  A status byte is cast to \<open>ErrorCode\<close> unchecked, so a value outside the enumeration is kept:
  \<open>UNLISTED\<close>, which \<open>errorFlagToString\<close> prints as an unknown code.
\<close>

datatype ErrorCode =
  NO_FAULT | MOTOR_OVER_TEMP | OVER_CURRENT | OVER_VOLTAGE | UNDER_VOLTAGE
  | ENCODER_FAULT | MOSFET_OVER_TEMP | MOTOR_STALL | UNLISTED u8

definition error_code_of_byte :: "u8 \<Rightarrow> ErrorCode" where
  "error_code_of_byte b =
     (if b = 0 then NO_FAULT else if b = 1 then MOTOR_OVER_TEMP else if b = 2 then OVER_CURRENT
      else if b = 3 then OVER_VOLTAGE else if b = 4 then UNDER_VOLTAGE
      else if b = 5 then ENCODER_FAULT else if b = 6 then MOSFET_OVER_TEMP
      else if b = 7 then MOTOR_STALL else UNLISTED b)"

fun errorFlagToString :: "ErrorCode \<Rightarrow> string" where
  "errorFlagToString NO_FAULT = ''NO_FAULT''"
| "errorFlagToString MOTOR_OVER_TEMP = ''MOTOR_OVER_TEMP''"
| "errorFlagToString OVER_CURRENT = ''OVER_CURRENT''"
| "errorFlagToString OVER_VOLTAGE = ''OVER_VOLTAGE''"
| "errorFlagToString UNDER_VOLTAGE = ''UNDER_VOLTAGE''"
| "errorFlagToString ENCODER_FAULT = ''ENCODER_FAULT''"
| "errorFlagToString MOSFET_OVER_TEMP = ''MOSFET_OVER_TEMP''"
| "errorFlagToString MOTOR_STALL = ''MOTOR_STALL''"
| "errorFlagToString (UNLISTED _) = ''UNKNOWN_ERROR_CODE''"

datatype ComStatus =
  SUCCESS | CAN_WRITE_FAILED | CAN_READ_FAILED | CAN_NO_RESPONSE
  | CAN_WRITE_FAILED_BUT_RESPONSE_RECEIVED

fun comStatusToString :: "ComStatus \<Rightarrow> string" where
  "comStatusToString SUCCESS = ''SUCCESS''"
| "comStatusToString CAN_WRITE_FAILED = ''CAN_WRITE_FAILED''"
| "comStatusToString CAN_READ_FAILED = ''CAN_READ_FAILED''"
| "comStatusToString CAN_NO_RESPONSE = ''CAN_NO_RESPONSE''"
| "comStatusToString CAN_WRITE_FAILED_BUT_RESPONSE_RECEIVED =
     ''CAN_WRITE_FAILED_BUT_RESPONSE_RECEIVED''"

datatype CAN_PACKET_ID =
  CAN_PACKET_SET_DUTY | CAN_PACKET_SET_CURRENT | CAN_PACKET_SET_CURRENT_BRAKE
  | CAN_PACKET_SET_RPM | CAN_PACKET_SET_POS | CAN_PACKET_SET_ORIGIN_HERE
  | CAN_PACKET_SET_POS_SPD | CAN_PACKET_SET_MIT | CAN_PACKET_RESPONSE

fun packet_id :: "CAN_PACKET_ID \<Rightarrow> u32" where
  "packet_id CAN_PACKET_SET_DUTY = 0"
| "packet_id CAN_PACKET_SET_CURRENT = 1"
| "packet_id CAN_PACKET_SET_CURRENT_BRAKE = 2"
| "packet_id CAN_PACKET_SET_RPM = 3"
| "packet_id CAN_PACKET_SET_POS = 4"
| "packet_id CAN_PACKET_SET_ORIGIN_HERE = 5"
| "packet_id CAN_PACKET_SET_POS_SPD = 6"
| "packet_id CAN_PACKET_SET_MIT = 8"
| "packet_id CAN_PACKET_RESPONSE = 0x29"

datatype SERIES_TYPE = V2 | V3

section \<open>Joints\<close>

text \<open>The limits are \<open>double\<close>s; their default is NaN.\<close>

record joint_config =
  can_id :: u32
  joint_name :: string
  P_MIN :: fp
  P_MAX :: fp
  V_MIN :: fp
  V_MAX :: fp
  I_MIN :: fp
  I_MAX :: fp
  KP_MIN :: fp
  KP_MAX :: fp
  KD_MIN :: fp
  KD_MAX :: fp
  invert :: bool
  reply_on_own_id :: bool
  series_type :: SERIES_TYPE
  numer_of_pole_pairs :: u8
  gear_ratio :: u8
  torque_constant :: fp
  current_mesurement_has_sign :: bool

definition default_joint_config :: joint_config where
  "default_joint_config =
     \<lparr>can_id = 0, joint_name = [], P_MIN = NaN, P_MAX = NaN, V_MIN = NaN, V_MAX = NaN,
      I_MIN = NaN, I_MAX = NaN, KP_MIN = NaN, KP_MAX = NaN, KD_MIN = NaN, KD_MAX = NaN,
      invert = False, reply_on_own_id = False, series_type = V2,
      numer_of_pole_pairs = 21, gear_ratio = 9, torque_constant = Fin 1,
      current_mesurement_has_sign = True\<rparr>"

record joint_cmd =
  cmd_pos :: fp
  cmd_vel :: fp
  cmd_torque :: fp
  cmd_kp :: fp
  cmd_kd :: fp

text \<open>
  Time stamps are \<open>int64_t\<close> nanoseconds. They are sums and differences of the kernel's clock
  readings, far inside 64 bits, so they are \<open>int\<close>.
\<close>

record joint_state =
  st_pos :: fp
  st_vel :: fp
  st_torque :: fp
  st_temp :: fp
  device_status :: ErrorCode
  communication_status :: ComStatus
  com_errno :: int
  rx_timestamp_ns :: int
  send_timestamp_ns :: int
  dequeue_timestamp_ns :: int
  enqueue_timestamp_ns :: int
  rx_hw_timestamp_ns :: int

section \<open>The table of motor types\<close>

text \<open>The ten limits of an entry, in the order of the initialiser list.\<close>

definition motor_limits ::
  "rat \<Rightarrow> rat \<Rightarrow> rat \<Rightarrow> rat \<Rightarrow> rat \<Rightarrow> rat \<Rightarrow> rat \<Rightarrow> rat \<Rightarrow> rat \<Rightarrow> rat \<Rightarrow> joint_config" where
  "motor_limits p0 p1 v0 v1 i0 i1 kp0 kp1 kd0 kd1 =
     default_joint_config
       \<lparr>P_MIN := fp_lit b64 p0, P_MAX := fp_lit b64 p1, V_MIN := fp_lit b64 v0,
        V_MAX := fp_lit b64 v1, I_MIN := fp_lit b64 i0, I_MAX := fp_lit b64 i1,
        KP_MIN := fp_lit b64 kp0, KP_MAX := fp_lit b64 kp1, KD_MIN := fp_lit b64 kd0,
        KD_MAX := fp_lit b64 kd1\<rparr>"

definition joint_config_per_motor_type :: "(string \<times> joint_config) list" where
  "joint_config_per_motor_type =
    [(''AK10-9'',
      (motor_limits (-12.5) 12.5 (-50) 50 (-65) 65 0 500 0 5)
        \<lparr>invert := False, reply_on_own_id := True, series_type := V2\<rparr>),
     (''AK10-9_plastic_screw'',
      (motor_limits (-12.5) 12.5 (-50) 50 (-65) 65 0 500 0 5)
        \<lparr>invert := False, reply_on_own_id := False, series_type := V2\<rparr>),
     (''AK80-6'',
      (motor_limits (-12.5) 12.5 (-76) 76 (-12) 12 0 500 0 5)
        \<lparr>invert := False, reply_on_own_id := True, series_type := V2\<rparr>),
     (''AK80-6_V1p1'',
      (motor_limits (-12.5) 12.5 (-22.5) 22.5 (-12) 12 0 500 0 5)
        \<lparr>invert := True, reply_on_own_id := True, series_type := V2\<rparr>),
     (''AK10-9v3'',
      (motor_limits (-12.56) 12.56 (-28) 28 (-54) 54 0 500 0 5)
        \<lparr>invert := False, reply_on_own_id := False, series_type := V3,
         numer_of_pole_pairs := 21, gear_ratio := 9, torque_constant := fp_lit b64 1.1314,
         current_mesurement_has_sign := False\<rparr>),
     (''AK80-8v3'',
      (motor_limits (-12.5) 12.5 (-37.5) 37.5 (-32) 32 0 500 0 5)
        \<lparr>invert := False, reply_on_own_id := False, series_type := V3,
         numer_of_pole_pairs := 21, gear_ratio := 8, torque_constant := fp_lit b64 1.0566,
         current_mesurement_has_sign := True\<rparr>)]"

section \<open>Control sequences of the MIT mode\<close>

definition START_MOTOR_CONTROL_MODE :: can_data where
  "START_MOTOR_CONTROL_MODE = Data 0xFF 0xFF 0xFF 0xFF 0xFF 0xFF 0xFF 0xFC"

definition EXIT_MOTOR_CONTROL_MODE :: can_data where
  "EXIT_MOTOR_CONTROL_MODE = Data 0xFF 0xFF 0xFF 0xFF 0xFF 0xFF 0xFF 0xFD"

definition SET_ZERO_POSITION :: can_data where
  "SET_ZERO_POSITION = Data 0xFF 0xFF 0xFF 0xFF 0xFF 0xFF 0xFF 0xFE"

section \<open>Facts\<close>

lemma error_code_of_byte_no_fault [simp]: "error_code_of_byte b = NO_FAULT \<longleftrightarrow> b = 0"
  by (simp add: error_code_of_byte_def)

lemma error_code_of_byte_inj: "error_code_of_byte a = error_code_of_byte b \<longleftrightarrow> a = b"
  by (auto simp: error_code_of_byte_def split: if_splits)

end
