(* ===== verification/Socket.thy ===== *)
theory Socket
  imports Com
begin

text \<open>
  The raw CAN socket as the driver sees it, and the driver object. The kernel is an oracle: the
  outcome of every system call is a parameter, so a theorem holds for every behaviour of the
  bus. Calls that succeed are recorded, so that theorems can say what was put on the bus.
\<close>

section \<open>Exceptions\<close>

text \<open>The classes thrown; their messages carry no information the driver reads.\<close>

datatype exn =
  can_interface_error | can_device_error | motor_error ErrorCode | out_of_range | range_error

section \<open>Outcomes of system calls\<close>

type_synonym timespec = "int \<times> int"

definition ns_of :: "timespec \<Rightarrow> int" where
  "ns_of ts = fst ts * 1000000000 + snd ts"

text \<open>The control messages beside a received frame.\<close>

datatype cmsg = TimestampNs timespec | Timestamping timespec timespec timespec | OtherCmsg

text \<open>
  A receive call fails with an \<open>errno\<close>, or delivers a number of bytes and leaves the frame
  buffer with the given contents.
\<close>

datatype rx_outcome = Rx_Fail int | Rx_Msg nat can_frame "cmsg list"

text \<open>
  The state of the socket: the result of the \<open>n\<close>-th \<open>write\<close> (its \<open>errno\<close>, or zero) and of the
  \<open>n\<close>-th change of a socket option, the outcomes of the coming receive calls, the error queue
  with the time stamps of transmitted frames, the readings of the clock, the frames written and
  the receive timeout in force. A receive call with no outcome left runs into that timeout; a
  read of the empty error queue does not block. Both return \<open>EAGAIN\<close>.
\<close>

record sock =
  wr_errno :: "nat \<Rightarrow> int"
  wr_calls :: nat
  opt_ok :: "nat \<Rightarrow> bool"
  opt_calls :: nat
  rx_queue :: "rx_outcome list"
  err_queue :: "(can_frame \<times> cmsg list) list"
  clock_at :: "nat \<Rightarrow> timespec"
  clock_calls :: nat
  sent :: "can_frame list"
  rcvtimeo :: "int \<times> int"
  errno :: int

definition EAGAIN :: int where "EAGAIN = 11"

text \<open>\<open>true\<close> if the frame was written.\<close>

definition sys_write :: "can_frame \<Rightarrow> sock \<Rightarrow> bool \<times> sock" where
  "sys_write f s =
     (let e = wr_errno s (wr_calls s); s = s\<lparr>wr_calls := Suc (wr_calls s)\<rparr>
      in if e \<noteq> 0 then (False, s\<lparr>errno := e\<rparr>) else (True, s\<lparr>sent := sent s @ [f]\<rparr>))"

definition sys_recv :: "sock \<Rightarrow> rx_outcome \<times> sock" where
  "sys_recv s =
     (case rx_queue s of
        [] \<Rightarrow> (Rx_Fail EAGAIN, s\<lparr>errno := EAGAIN\<rparr>)
      | r # rs \<Rightarrow>
          (r, (case r of Rx_Fail e \<Rightarrow> s\<lparr>rx_queue := rs, errno := e\<rparr>
                       | Rx_Msg _ _ _ \<Rightarrow> s\<lparr>rx_queue := rs\<rparr>)))"

definition sys_clock :: "sock \<Rightarrow> int \<times> sock" where
  "sys_clock s = (ns_of (clock_at s (clock_calls s)), s\<lparr>clock_calls := Suc (clock_calls s)\<rparr>)"

definition sys_set_rcvtimeo :: "int \<times> int \<Rightarrow> sock \<Rightarrow> bool \<times> sock" where
  "sys_set_rcvtimeo tv s =
     (let ok = opt_ok s (opt_calls s); s = s\<lparr>opt_calls := Suc (opt_calls s)\<rparr>
      in (ok, if ok then s\<lparr>rcvtimeo := tv\<rparr> else s))"

section \<open>The driver object (class CubemarsCan)\<close>

record driver =
  can_interface :: string
  enable_loopback :: int
  enable_tx_timestamping :: bool
  enable_can_error_frames :: bool
  joint_configs :: "joint_config list"
  socket_timeout :: "int \<times> int"
  max_initial_connection_trials :: u32
  send_ok :: "bool list"
  recv_ok :: "bool list"
  tx_fill_duration_ns :: int
  rx_duration_ns :: int
  tx_fill_end_ns :: int
  last_tx_errq_count :: u32
  last_error_count :: u32
  last_error_canid :: u32
  socket :: sock
  send_frame :: can_frame
  recv_frame :: can_frame

section \<open>Receiving with time stamps (recv_frame_with_timestamp)\<close>

text \<open>Each control message is looked at in turn; a later one of the same kind wins.\<close>

fun scan_cmsgs :: "cmsg list \<Rightarrow> int \<times> int \<Rightarrow> int \<times> int" where
  "scan_cmsgs [] acc = acc"
| "scan_cmsgs (c # cs) (rx, hw) =
     scan_cmsgs cs
       (case c of
          TimestampNs ts \<Rightarrow> (ns_of ts, hw)
        | Timestamping t0 t1 t2 \<Rightarrow> (rx, ns_of t2)
        | OtherCmsg \<Rightarrow> (rx, hw))"

text \<open>The result: whether a frame arrived, and its two time stamps.\<close>

definition recv_frame_with_timestamp :: "driver \<Rightarrow> bool \<times> int \<times> int \<times> driver" where
  "recv_frame_with_timestamp d =
     (let (r, s) = sys_recv (socket d)
      in case r of
           Rx_Fail e \<Rightarrow> (False, 0, 0, d\<lparr>socket := s\<rparr>)
         | Rx_Msg n f cs \<Rightarrow>
             (let (rx, hw) = scan_cmsgs cs (0, 0)
              in (True, rx, hw, d\<lparr>socket := s, recv_frame := f\<rparr>)))"

section \<open>Frame facts\<close>

lemma sys_recv_simps:
  "rx_queue s = [] \<Longrightarrow> sys_recv s = (Rx_Fail EAGAIN, s\<lparr>errno := EAGAIN\<rparr>)"
  "rx_queue s = Rx_Fail e # rs \<Longrightarrow> sys_recv s = (Rx_Fail e, s\<lparr>rx_queue := rs, errno := e\<rparr>)"
  "rx_queue s = Rx_Msg n f cs # rs \<Longrightarrow> sys_recv s = (Rx_Msg n f cs, s\<lparr>rx_queue := rs\<rparr>)"
  by (simp_all add: sys_recv_def)

lemma sys_recv_frame [frame_facts]:
  "sent (snd (sys_recv s)) = sent s" "wr_calls (snd (sys_recv s)) = wr_calls s"
  "wr_errno (snd (sys_recv s)) = wr_errno s" "rcvtimeo (snd (sys_recv s)) = rcvtimeo s"
  "opt_ok (snd (sys_recv s)) = opt_ok s" "opt_calls (snd (sys_recv s)) = opt_calls s"
  "err_queue (snd (sys_recv s)) = err_queue s"
  by (auto simp: sys_recv_def split: list.splits rx_outcome.splits)

lemma sys_clock_frame [frame_facts]:
  "sent (snd (sys_clock s)) = sent s" "wr_calls (snd (sys_clock s)) = wr_calls s"
  "wr_errno (snd (sys_clock s)) = wr_errno s" "rx_queue (snd (sys_clock s)) = rx_queue s"
  "err_queue (snd (sys_clock s)) = err_queue s" "rcvtimeo (snd (sys_clock s)) = rcvtimeo s"
  by (simp_all add: sys_clock_def)

lemma sys_write_frame [frame_facts]:
  "rx_queue (snd (sys_write f s)) = rx_queue s" "err_queue (snd (sys_write f s)) = err_queue s"
  "wr_errno (snd (sys_write f s)) = wr_errno s" "wr_calls (snd (sys_write f s)) = Suc (wr_calls s)"
  "rcvtimeo (snd (sys_write f s)) = rcvtimeo s" "opt_ok (snd (sys_write f s)) = opt_ok s"
  "opt_calls (snd (sys_write f s)) = opt_calls s"
  by (auto simp: sys_write_def Let_def)

lemma sys_write_sent:
  "fst (sys_write f s) \<longleftrightarrow> wr_errno s (wr_calls s) = 0"
  "sent (snd (sys_write f s)) = (if wr_errno s (wr_calls s) = 0 then sent s @ [f] else sent s)"
  by (auto simp: sys_write_def Let_def)

end
