(* ===== verification/CanSetup.thy ===== *)
theory CanSetup
  imports Socket
begin

text \<open>
  The constructor of \<open>CubemarsCan\<close>: which receive filters it installs, the order of the system
  calls that configure the socket, and what happens when one of them fails.
\<close>

section \<open>Receive filters\<close>

type_synonym can_filter = "u32 \<times> u32"   \<comment> \<open>identifier and mask\<close>

text \<open>\<open>zero_added\<close> is never assigned in the loop, so it stays \<open>false\<close>.\<close>

fun rfilter_entries :: "bool \<Rightarrow> joint_config \<Rightarrow> can_filter list" where
  "rfilter_entries zero_added cfg =
     (case series_type cfg of
        V2 \<Rightarrow>
          (if reply_on_own_id cfg then [(can_id cfg, CAN_SFF_MASK OR CAN_EFF_FLAG)]
           else if \<not> zero_added then [(0, CAN_SFF_MASK OR CAN_EFF_FLAG)]
           else [])
      | V3 \<Rightarrow>
          [(can_id cfg OR push_bit 8 (packet_id CAN_PACKET_RESPONSE) OR CAN_EFF_FLAG,
            CAN_EFF_MASK OR CAN_EFF_FLAG)])"

definition rfilter :: "joint_config list \<Rightarrow> can_filter list" where
  "rfilter cfgs = concat (map (rfilter_entries False) cfgs)"

section \<open>Configuring the socket\<close>

datatype ts_flag = TS_RX_HARDWARE | TS_RAW_HARDWARE | TS_TX_SOFTWARE | TS_SOFTWARE

datatype syscall =
  Sys_socket
  | Sys_loopback int
  | Sys_filter "can_filter list"
  | Sys_ifindex string
  | Sys_bind
  | Sys_rcvtimeo "int \<times> int"
  | Sys_timestampns
  | Sys_timestamping "ts_flag list"
  | Sys_err_filter u32
  | Sys_close

text \<open>\<open>ioctl\<close> is tested for a value other than zero, every other call for a negative value.\<close>

fun failed :: "(syscall \<Rightarrow> int) \<Rightarrow> syscall \<Rightarrow> bool" where
  "failed ret (Sys_ifindex n) = (ret (Sys_ifindex n) \<noteq> 0)"
| "failed ret c = (ret c < 0)"

text \<open>The calls made until the first failure, which closes the socket.\<close>

fun run_setup :: "(syscall \<Rightarrow> int) \<Rightarrow> syscall list \<Rightarrow> syscall list \<times> bool" where
  "run_setup ret [] = ([], True)"
| "run_setup ret (c # cs) =
     (if failed ret c then ([c, Sys_close], False)
      else let (tr, ok) = run_setup ret cs in (c # tr, ok))"

definition IFNAMSIZ :: nat where "IFNAMSIZ = 16"

definition ts_flags :: "bool \<Rightarrow> ts_flag list" where
  "ts_flags tx = [TS_RX_HARDWARE, TS_RAW_HARDWARE] @ (if tx then [TS_TX_SOFTWARE, TS_SOFTWARE] else [])"

definition initial_driver ::
  "sock \<Rightarrow> string \<Rightarrow> int \<Rightarrow> joint_config list \<Rightarrow> int \<Rightarrow> int \<Rightarrow> u32 \<Rightarrow> bool \<Rightarrow> bool \<Rightarrow> driver" where
  "initial_driver s ifname loopback cfgs sec usec trials tx errf =
     \<lparr>can_interface = ifname, enable_loopback = loopback, enable_tx_timestamping = tx,
      enable_can_error_frames = errf, joint_configs = cfgs, socket_timeout = (sec, usec),
      max_initial_connection_trials = trials,
      send_ok = replicate (length cfgs) False, recv_ok = replicate (length cfgs) False,
      tx_fill_duration_ns = 0, rx_duration_ns = 0, tx_fill_end_ns = 0,
      last_tx_errq_count = 0, last_error_count = 0, last_error_canid = 0,
      socket = s\<lparr>rcvtimeo := (sec, usec)\<rparr>,
      send_frame = zero_frame\<lparr>frame_len := CAN_MAX_DLEN\<rparr>, recv_frame = zero_frame\<rparr>"

text \<open>
  The constructor, with the system calls it made. \<open>strcpy\<close> writes the interface name and its
  terminator into the \<open>IFNAMSIZ\<close> bytes of \<open>ifr_name\<close>: a longer name overruns them.
\<close>

definition CubemarsCan ::
  "(syscall \<Rightarrow> int) \<Rightarrow> sock \<Rightarrow> string \<Rightarrow> int \<Rightarrow> joint_config list \<Rightarrow> int \<Rightarrow> int \<Rightarrow> u32 \<Rightarrow> bool \<Rightarrow> bool
     \<Rightarrow> (exn, driver) outcome \<times> syscall list" where
  "CubemarsCan ret s ifname loopback cfgs sec usec trials tx errf =
     (if failed ret Sys_socket then (Throw can_interface_error, [Sys_socket])
      else case run_setup ret [Sys_loopback loopback, Sys_filter (rfilter cfgs)] of
        (tr, False) \<Rightarrow> (Throw can_interface_error, Sys_socket # tr)
      | (tr, True) \<Rightarrow>
          if IFNAMSIZ \<le> length ifname then (UB, Sys_socket # tr)
          else case run_setup ret
                 ([Sys_ifindex ifname, Sys_bind, Sys_rcvtimeo (sec, usec), Sys_timestampns,
                   Sys_timestamping (ts_flags tx)]
                  @ (if errf then [Sys_err_filter CAN_ERR_MASK] else [])) of
            (tr', False) \<Rightarrow> (Throw can_interface_error, Sys_socket # tr @ tr')
          | (tr', True) \<Rightarrow>
              (Ok (initial_driver s ifname loopback cfgs sec usec trials tx errf),
               Sys_socket # tr @ tr'))"

section \<open>Facts\<close>

lemma run_setup_ok: "run_setup ret cs = (tr, True) \<Longrightarrow> tr = cs \<and> (\<forall>c\<in>set cs. \<not> failed ret c)"
  by (induction cs arbitrary: tr) (auto split: if_splits prod.splits)

lemma run_setup_fail:
  "run_setup ret cs = (tr, False) \<Longrightarrow>
   \<exists>pre c post. cs = pre @ c # post \<and> tr = pre @ [c, Sys_close] \<and> failed ret c \<and>
     (\<forall>x\<in>set pre. \<not> failed ret x)"
proof (induction cs arbitrary: tr)
  case (Cons c cs)
  show ?case
  proof (cases "failed ret c")
    case True
    with Cons.prems show ?thesis by (intro exI [of _ "[]"]) auto
  next
    case False
    with Cons.prems obtain tr' where tr: "run_setup ret cs = (tr', False)" "tr = c # tr'"
      by (auto split: prod.splits)
    from Cons.IH [OF tr(1)] obtain pre x post
      where "cs = pre @ x # post" "tr' = pre @ [x, Sys_close]" "failed ret x"
        "\<forall>y\<in>set pre. \<not> failed ret y" by blast
    with tr(2) False show ?thesis by (intro exI [of _ "c # pre"]) auto
  qed
qed simp

lemma run_setup_close:
  assumes "run_setup ret cs = (tr, ok)" and "Sys_close \<notin> set cs"
  shows "count_list tr Sys_close = (if ok then 0 else 1)" and "\<not> ok \<Longrightarrow> last tr = Sys_close"
proof -
  show "count_list tr Sys_close = (if ok then 0 else 1)"
    using assms by (induction cs arbitrary: tr ok) (auto split: if_splits prod.splits)
  show "\<not> ok \<Longrightarrow> last tr = Sys_close" using assms(1) by (auto dest: run_setup_fail)
qed

section \<open>Examples\<close>

text \<open>A bus on which every call succeeds, and the frames it delivers.\<close>

definition working_bus :: "rx_outcome list \<Rightarrow> sock" where
  "working_bus q =
     \<lparr>wr_errno = (\<lambda>_. 0), wr_calls = 0, opt_ok = (\<lambda>_. True), opt_calls = 0, rx_queue = q,
      err_queue = [], clock_at = (\<lambda>_. (0, 0)), clock_calls = 0, sent = [], rcvtimeo = (0, 0),
      errno = 0\<rparr>"

definition demo_joint :: "u32 \<Rightarrow> SERIES_TYPE \<Rightarrow> joint_config" where
  "demo_joint cid s = default_joint_config\<lparr>can_id := cid, series_type := s\<rparr>"

definition demo_driver :: "joint_config list \<Rightarrow> rx_outcome list \<Rightarrow> driver" where
  "demo_driver cfgs q = initial_driver (working_bus q) ''can0'' 0 cfgs 0 4000 3 True False"

definition reply_v2 :: "u8 \<Rightarrow> u8 \<Rightarrow> rx_outcome" where
  "reply_v2 cid err = Rx_Msg 16 \<lparr>frame_id = 0, frame_len = 8, frame_data = Data cid 0x80 0 0x80 8 0 65 err\<rparr> []"

definition reply_v3 :: "u8 \<Rightarrow> u8 \<Rightarrow> rx_outcome" where
  "reply_v3 cid err =
     Rx_Msg 16 \<lparr>frame_id = 0x80002900 OR ucast cid, frame_len = 8,
                frame_data = Data 0 100 0 0 0 0 25 err\<rparr> []"

section \<open>Properties\<close>

lemma constructor_cases:
  fixes ret s ifname loopback cfgs sec usec trials tx errf
  defines "pre \<equiv> [Sys_loopback loopback, Sys_filter (rfilter cfgs)]"
    and "post \<equiv> [Sys_ifindex ifname, Sys_bind, Sys_rcvtimeo (sec, usec), Sys_timestampns,
          Sys_timestamping (ts_flags tx)] @ (if errf then [Sys_err_filter CAN_ERR_MASK] else [])"
  assumes "0 \<le> ret Sys_socket"
  obtains (early) tr where "run_setup ret pre = (tr, False)"
      and "CubemarsCan ret s ifname loopback cfgs sec usec trials tx errf =
        (Throw can_interface_error, Sys_socket # tr)"
  | (overrun) tr where "run_setup ret pre = (tr, True)" and "IFNAMSIZ \<le> length ifname"
      and "CubemarsCan ret s ifname loopback cfgs sec usec trials tx errf = (UB, Sys_socket # tr)"
  | (late) tr tr' where "run_setup ret pre = (tr, True)" and "run_setup ret post = (tr', False)"
      and "CubemarsCan ret s ifname loopback cfgs sec usec trials tx errf =
        (Throw can_interface_error, Sys_socket # tr @ tr')"
  | (success) tr tr' where "run_setup ret pre = (tr, True)" and "run_setup ret post = (tr', True)"
      and "length ifname < IFNAMSIZ"
      and "CubemarsCan ret s ifname loopback cfgs sec usec trials tx errf =
        (Ok (initial_driver s ifname loopback cfgs sec usec trials tx errf), Sys_socket # tr @ tr')"
proof -
  obtain tr ok where a: "run_setup ret pre = (tr, ok)" by force
  obtain tr' ok' where b: "run_setup ret post = (tr', ok')" by force
  have n: "\<not> failed ret Sys_socket" using assms(3) by simp
  show thesis
  proof (cases ok)
    case False
    then show thesis using a n by (intro early) (simp_all add: CubemarsCan_def pre_def del: run_setup.simps)
  next
    case True
    show thesis
    proof (cases "IFNAMSIZ \<le> length ifname")
      case True
      then show thesis using a n \<open>ok\<close> by (intro overrun) (simp_all add: CubemarsCan_def pre_def del: run_setup.simps)
    next
      case False
      note c = a b n \<open>ok\<close> False
      show thesis
      proof (cases ok')
        case True
        then show thesis using c
          by (intro success) (simp_all add: CubemarsCan_def pre_def post_def del: run_setup.simps)
      next
        case False
        then show thesis using c
          by (intro late) (simp_all add: CubemarsCan_def pre_def post_def del: run_setup.simps)
      qed
    qed
  qed
qed

text \<open>
  C29. A constructor that throws leaks no socket: when the socket was created, whichever later
  call fails, it is closed exactly once, as the last call; a constructor that succeeds has not
  closed it.
\<close>

theorem constructor_closes_on_failure:
  assumes "CubemarsCan ret s ifname loopback cfgs sec usec trials tx errf = (r, tr)"
    and "0 \<le> ret Sys_socket"
  shows "case r of
      Throw e \<Rightarrow> count_list tr Sys_close = 1 \<and> last tr = Sys_close
    | Ok d \<Rightarrow> count_list tr Sys_close = 0
    | UB \<Rightarrow> IFNAMSIZ \<le> length ifname"
  using assms(2)
proof (cases rule: constructor_cases [where ret = ret and loopback = loopback and cfgs = cfgs and
      ifname = ifname and sec = sec and usec = usec and tx = tx and errf = errf and s = s and trials = trials])
  case (early tr)
  then show ?thesis using assms(1) run_setup_close [OF early(1)] run_setup_fail [OF early(1)] by auto
next
  case (overrun tr)
  then show ?thesis using assms(1) by simp
next
  case (late tr tr')
  then show ?thesis
    using assms(1) run_setup_close [OF late(1)] run_setup_close [OF late(2)] run_setup_fail [OF late(2)]
    by auto
next
  case (success tr tr')
  then show ?thesis using assms(1) run_setup_close [OF success(1)] run_setup_close [OF success(2)] by auto
qed

theorem constructor_closes_on_failure_witness:
  "snd (CubemarsCan (\<lambda>c. if c = Sys_bind then -1 else 0) (working_bus []) ''can0'' 0 [demo_joint 1 V2] 0 4000 3 True False) =
    [Sys_socket, Sys_loopback 0, Sys_filter [(0, 0x800007FF)], Sys_ifindex ''can0'', Sys_bind, Sys_close] \<and>
   last (snd (CubemarsCan (\<lambda>c. if c = Sys_bind then -1 else 0) (working_bus []) ''can0'' 0 [demo_joint 1 V2] 0 4000 3 True False)) = Sys_close"
proof -
  let ?c = "CubemarsCan (\<lambda>c. if c = Sys_bind then -1 else 0) (working_bus []) ''can0'' 0 [demo_joint 1 V2] 0 4000 3 True False"
  have "is_throw (fst ?c)" by code_simp
  then obtain e where f: "fst ?c = Throw e" by (cases "fst ?c") auto
  have t: "snd ?c = [Sys_socket, Sys_loopback 0, Sys_filter [(0, 0x800007FF)], Sys_ifindex ''can0'', Sys_bind, Sys_close]"
    by code_simp
  have "?c = (Throw e, snd ?c)" using f by (simp add: prod_eq_iff)
  from constructor_closes_on_failure [OF this] t show ?thesis by simp
qed

text \<open>
  C30. The receive filters let a motor's replies in and, for extended frames, nothing else: with
  the kernel's rule for a filter, the reply identifier of every V3 joint passes, the standard
  identifier of every V2 joint that replies on its own id passes, identifier zero passes as soon
  as some V2 joint does not, and an extended frame that passes is the reply of a configured V3
  joint. Joint ids have to fit in eleven bits.
\<close>

theorem filters_admit_replies:
  assumes rule: "\<forall>i m f. accepts (i, m) f \<longleftrightarrow> f AND m = i AND m"
    and ids: "\<forall>c\<in>set cfgs. can_id c < 0x800"
  defines "passes \<equiv> \<lambda>f. \<exists>flt\<in>set (rfilter cfgs). accepts flt f"
    and "response \<equiv> \<lambda>c. can_id c OR push_bit 8 (packet_id CAN_PACKET_RESPONSE) OR CAN_EFF_FLAG"
  shows "(\<forall>c\<in>set cfgs. series_type c = V3 \<longrightarrow> passes (response c)) \<and>
    (\<forall>c\<in>set cfgs. series_type c = V2 \<longrightarrow> passes (if reply_on_own_id c then can_id c else 0)) \<and>
    (\<forall>f. f AND CAN_EFF_FLAG \<noteq> 0 \<longrightarrow> passes f \<longrightarrow>
       (\<exists>c\<in>set cfgs. series_type c = V3 \<and> f AND (CAN_EFF_MASK OR CAN_EFF_FLAG) = response c AND (CAN_EFF_MASK OR CAN_EFF_FLAG)))"
proof (intro conjI ballI allI impI)
  have mem: "flt \<in> set (rfilter cfgs)" if "c \<in> set cfgs" "flt \<in> set (rfilter_entries False c)" for flt c
    using that unfolding rfilter_def set_concat set_map by blast
  show "passes (response c)" if "c \<in> set cfgs" "series_type c = V3" for c
    using mem [OF that(1)] that(2) rule by (auto simp: passes_def response_def intro!: bexI)
  show "passes (if reply_on_own_id c then can_id c else 0)" if "c \<in> set cfgs" "series_type c = V2" for c
    using mem [OF that(1)] that(2) rule by (cases "reply_on_own_id c") (auto simp: passes_def intro!: bexI)
  fix f assume f: "f AND CAN_EFF_FLAG \<noteq> 0" and "passes f"
  then obtain c flt where c: "c \<in> set cfgs" "flt \<in> set (rfilter_entries False c)" "accepts flt f"
    by (auto simp: passes_def rfilter_def simp del: rfilter_entries.simps)
  have v2: False if "f AND (CAN_SFF_MASK OR CAN_EFF_FLAG) = i AND (CAN_SFF_MASK OR CAN_EFF_FLAG)" "i < 0x800" for i
  proof -
    have "take_bit 11 i = i" using that(2) by (intro take_bit_small) (simp add: word_less_nat_alt)
    then have e: "i AND 0x7FF = i" by (simp add: take_bit_eq_mask mask_eq_exp_minus_1)
    have "i AND CAN_EFF_FLAG = (i AND 0x7FF) AND CAN_EFF_FLAG" by (simp only: e)
    also have "\<dots> = 0" by (simp add: and.assoc can_const_defs)
    finally have z: "i AND CAN_EFF_FLAG = 0" .
    have "f AND CAN_EFF_FLAG = (f AND (CAN_SFF_MASK OR CAN_EFF_FLAG)) AND CAN_EFF_FLAG"
      by (simp add: and.assoc can_const_defs)
    also have "\<dots> = i AND CAN_EFF_FLAG" unfolding that(1) by (simp add: and.assoc can_const_defs)
    finally show False using f z by simp
  qed
  show "\<exists>c\<in>set cfgs. series_type c = V3 \<and>
      f AND (CAN_EFF_MASK OR CAN_EFF_FLAG) = response c AND (CAN_EFF_MASK OR CAN_EFF_FLAG)"
  proof (cases "series_type c")
    case V2
    then obtain i where "flt = (i, CAN_SFF_MASK OR CAN_EFF_FLAG)" "i < 0x800"
      using c ids by (auto split: if_splits)
    then show ?thesis using v2 [of i] c(3) rule by simp
  next
    case V3
    then have "flt = (response c, CAN_EFF_MASK OR CAN_EFF_FLAG)" using c(2) by (simp add: response_def)
    then have "f AND (CAN_EFF_MASK OR CAN_EFF_FLAG) = response c AND (CAN_EFF_MASK OR CAN_EFF_FLAG)"
      using c(3) rule by blast
    then show ?thesis using c(1) V3 by blast
  qed
qed

theorem filters_admit_replies_witness:
  defines "accepts \<equiv> \<lambda>(i, m) f. f AND m = i AND (m :: u32)"
  shows "(\<exists>flt\<in>set (rfilter [demo_joint 1 V2, demo_joint 2 V3]). accepts flt 0x80002902) \<and>
    \<not> (\<exists>flt\<in>set (rfilter [demo_joint 1 V2, demo_joint 2 V3]). accepts flt 0x80002903)"
proof -
  have "\<forall>i m f. accepts (i, m) f \<longleftrightarrow> f AND m = i AND m" by (simp add: accepts_def)
  moreover have "\<forall>c\<in>set [demo_joint 1 V2, demo_joint 2 V3]. can_id c < 0x800" by (simp add: demo_joint_def)
  ultimately have "(\<forall>c\<in>set [demo_joint 1 V2, demo_joint 2 V3]. series_type c = V3 \<longrightarrow>
      (\<exists>flt\<in>set (rfilter [demo_joint 1 V2, demo_joint 2 V3]).
        accepts flt (can_id c OR push_bit 8 (packet_id CAN_PACKET_RESPONSE) OR CAN_EFF_FLAG))) \<and>
    (\<forall>f. f AND CAN_EFF_FLAG \<noteq> 0 \<longrightarrow> (\<exists>flt\<in>set (rfilter [demo_joint 1 V2, demo_joint 2 V3]). accepts flt f) \<longrightarrow>
      (\<exists>c\<in>set [demo_joint 1 V2, demo_joint 2 V3]. series_type c = V3 \<and>
        f AND (CAN_EFF_MASK OR CAN_EFF_FLAG) =
          (can_id c OR push_bit 8 (packet_id CAN_PACKET_RESPONSE) OR CAN_EFF_FLAG) AND (CAN_EFF_MASK OR CAN_EFF_FLAG)))"
    using filters_admit_replies [of accepts "[demo_joint 1 V2, demo_joint 2 V3]"] by blast
  then show ?thesis by (auto simp: demo_joint_def can_const_defs dest!: spec [of _ "0x80002903"])
qed

end
