(* ===== verification/Codec.thy ===== *)
theory Codec
  imports Com
begin

text \<open>
  Numbers on the wire: the scaling between a physical range and an unsigned field, the two bit
  layouts of a MIT command (series V2 and V3) and the two layouts of a reply.
\<close>

section \<open>Scaling (cubemars_can.hpp)\<close>

text \<open>\<open>(1 << bits) - 1\<close> is an \<open>int\<close> converted to \<open>float\<close>; the cast back may be undefined.\<close>

definition float_to_uint :: "fp \<Rightarrow> fp \<Rightarrow> fp \<Rightarrow> nat \<Rightarrow> u32 option" where
  "float_to_uint x x_min x_max bits =
     (let span = fp_sub b32 x_max x_min;
          x = (if fp_lt x x_min then x_min else if fp_lt x_max x then x_max else x)
      in cast_u32
           (fp_div b32 (fp_mul b32 (fp_sub b32 x x_min) (fp_of_int b32 (2 ^ bits - 1))) span))"

definition uint_to_float :: "int \<Rightarrow> fp \<Rightarrow> fp \<Rightarrow> nat \<Rightarrow> fp" where
  "uint_to_float x_int x_min x_max bits =
     (let span = fp_sub b32 x_max x_min; offset = x_min
      in fp_add b32
           (fp_div b32 (fp_mul b32 (fp_of_int b32 x_int) span) (fp_of_int b32 (2 ^ bits - 1)))
           offset)"

text \<open>
  A command field as \<open>send_and_receive\<close> computes it: the limits are narrowed to \<open>float\<close>, the
  value is clamped and scaled, and the \<open>unsigned int\<close> is stored in a \<open>uint16_t\<close>.
\<close>

definition command_field :: "fp \<Rightarrow> fp \<Rightarrow> fp \<Rightarrow> nat \<Rightarrow> u16 option" where
  "command_field lo x hi bits =
     map_option to_u16
       (float_to_uint (clampf (fp_conv b32 lo) x (fp_conv b32 hi))
          (fp_conv b32 lo) (fp_conv b32 hi) bits)"

section \<open>Bit layouts of a command\<close>

definition pack_v2 :: "u16 \<Rightarrow> u16 \<Rightarrow> u16 \<Rightarrow> u16 \<Rightarrow> u16 \<Rightarrow> can_data" where
  "pack_v2 p_des v_des kp kd t_ff =
     Data
       (to_u8 (drop_bit 8 (promote p_des)))
       (to_u8 (promote p_des AND 0xFF))
       (to_u8 (drop_bit 4 (promote v_des)))
       (to_u8 (push_bit 4 (promote v_des AND 0xF) OR drop_bit 8 (promote kp)))
       (to_u8 (promote kp AND 0xFF))
       (to_u8 (drop_bit 4 (promote kd)))
       (to_u8 (push_bit 4 (promote kd AND 0xF) OR drop_bit 8 (promote t_ff)))
       (to_u8 (promote t_ff AND 0xFF))"

definition pack_v3 :: "u16 \<Rightarrow> u16 \<Rightarrow> u16 \<Rightarrow> u16 \<Rightarrow> u16 \<Rightarrow> can_data" where
  "pack_v3 p_des v_des kp kd t_ff =
     Data
       (to_u8 (drop_bit 4 (promote kp)))
       (to_u8 (push_bit 4 (promote kp AND 0xF) OR drop_bit 8 (promote kd)))
       (to_u8 (promote kd AND 0xFF))
       (to_u8 (drop_bit 8 (promote p_des)))
       (to_u8 (promote p_des AND 0xFF))
       (to_u8 (drop_bit 4 (promote v_des)))
       (to_u8 (push_bit 4 (promote v_des AND 0xF) OR drop_bit 8 (promote t_ff)))
       (to_u8 (promote t_ff AND 0xFF))"

text \<open>
  What the comments beside the two layouts specify, read from the receiver's side: the sixteen
  bits of the position and the twelve bits of the other fields, each from its high and its low
  part.
\<close>

definition join :: "nat \<Rightarrow> u8 \<Rightarrow> u8 \<Rightarrow> u16" where
  "join k hi lo = push_bit k (ucast hi) OR ucast lo"

definition hi_nibble :: "u8 \<Rightarrow> u8" where "hi_nibble b = drop_bit 4 b"
definition lo_nibble :: "u8 \<Rightarrow> u8" where "lo_nibble b = b AND 0xF"

fun fields_v2 :: "can_data \<Rightarrow> u16 \<times> u16 \<times> u16 \<times> u16 \<times> u16" where
  "fields_v2 (Data a b c d e f g h) =
     (join 8 a b, join 4 c (hi_nibble d), join 8 (lo_nibble d) e, join 4 f (hi_nibble g),
      join 8 (lo_nibble g) h)"

fun fields_v3 :: "can_data \<Rightarrow> u16 \<times> u16 \<times> u16 \<times> u16 \<times> u16" where
  "fields_v3 (Data a b c d e f g h) =
     (join 8 d e, join 4 f (hi_nibble g), join 4 a (hi_nibble b), join 8 (lo_nibble b) c,
      join 8 (lo_nibble g) h)"

text \<open>
  The interface of a layout: packing five fields that fit and reading them back are inverse to
  each other, so the 64 bits of a frame are exactly the five fields.
\<close>

definition fits12 :: "u16 \<times> u16 \<times> u16 \<times> u16 \<times> u16 \<Rightarrow> bool" where
  "fits12 = (\<lambda>(p, v, kp, kd, t). v < 0x1000 \<and> kp < 0x1000 \<and> kd < 0x1000 \<and> t < 0x1000)"

locale mit_layout =
  fixes pack :: "u16 \<Rightarrow> u16 \<Rightarrow> u16 \<Rightarrow> u16 \<Rightarrow> u16 \<Rightarrow> can_data"
    and fields :: "can_data \<Rightarrow> u16 \<times> u16 \<times> u16 \<times> u16 \<times> u16"
  assumes fields_pack:
      "fits12 (p, v, kp, kd, t) \<Longrightarrow> fields (pack p v kp kd t) = (p, v, kp, kd, t)"
    and pack_fields: "fields d = (p, v, kp, kd, t) \<Longrightarrow> pack p v kp kd t = d"
    and fields_fit: "fits12 (fields d)"
begin

lemma pack_eq_iff:
  assumes "fits12 (p, v, kp, kd, t)"
  shows "pack p v kp kd t = d \<longleftrightarrow> fields d = (p, v, kp, kd, t)"
  using assms fields_pack pack_fields by metis

lemma pack_inj:
  assumes "fits12 (p, v, kp, kd, t)" and "fits12 (p', v', kp', kd', t')"
    and "pack p v kp kd t = pack p' v' kp' kd' t'"
  shows "(p, v, kp, kd, t) = (p', v', kp', kd', t')"
  using assms fields_pack by metis

lemma pack_surj: "\<exists>p v kp kd t. fits12 (p, v, kp, kd, t) \<and> pack p v kp kd t = d"
  using fields_fit [of d] pack_fields [of d] by (cases "fields d") metis

end

lemma join_bits_facts [byte_facts]:
  "join k hi lo = push_bit k (ucast hi) OR ucast lo"
  "hi_nibble b = drop_bit 4 b" "lo_nibble b = b AND 0xF"
  by (simp_all add: join_def hi_nibble_def lo_nibble_def)

lemma join_8_halves: "join 8 (to_u8 (drop_bit 8 (promote p))) (to_u8 (promote p AND 0xFF)) = p"
  for p :: u16
  unfolding byte_facts by (rule bit_word_eqI) (auto simp: bit_simps)

lemma join_4_split:
  fixes v kp :: u16
  assumes "v < 0x1000" and "kp < 0x1000"
  shows "join 4 (to_u8 (drop_bit 4 (promote v)))
           (hi_nibble (to_u8 (push_bit 4 (promote v AND 0xF) OR drop_bit 8 (promote kp)))) = v"
  unfolding byte_facts using assms
  by (intro bit_word_eqI) (auto simp: bit_simps dest: bit_of_12_bits)

lemma join_8_split:
  fixes v kp :: u16
  assumes "kp < 0x1000"
  shows "join 8 (lo_nibble (to_u8 (push_bit 4 (promote v AND 0xF) OR drop_bit 8 (promote kp))))
           (to_u8 (promote kp AND 0xFF)) = kp"
  unfolding byte_facts using assms
  by (intro bit_word_eqI) (auto simp: bit_simps dest: bit_of_12_bits)

lemma take_bit_12_less: "take_bit 12 (w :: u16) < 0x1000"
proof -
  have "unat (take_bit 12 w) < 2 ^ 12" unfolding unsigned_take_bit_eq by (rule take_bit_nat_less_exp)
  then show ?thesis by (simp add: word_less_nat_alt)
qed

lemma join_12_fit [simp]: "join 4 a (hi_nibble b) < 0x1000" "join 8 (lo_nibble a) b < 0x1000"
proof -
  have "take_bit 12 (join 4 a (hi_nibble b)) = join 4 a (hi_nibble b)"
    unfolding byte_facts by (rule bit_word_eqI) (auto simp: bit_simps dest: bit_of_8_bits)
  moreover have "take_bit 12 (join 8 (lo_nibble a) b) = join 8 (lo_nibble a) b"
    unfolding byte_facts by (rule bit_word_eqI) (auto simp: bit_simps dest: bit_of_8_bits)
  ultimately show "join 4 a (hi_nibble b) < 0x1000" "join 8 (lo_nibble a) b < 0x1000"
    by (metis take_bit_12_less)+
qed

lemma byte_of_join:
  fixes a b c :: u8
  shows "to_u8 (drop_bit 8 (promote (join 8 a b))) = a"
    and "to_u8 (promote (join 8 a b) AND 0xFF) = b"
    and "to_u8 (drop_bit 4 (promote (join 4 a (hi_nibble b)))) = a"
    and "to_u8 (push_bit 4 (promote (join 4 a (hi_nibble b)) AND 0xF)
           OR drop_bit 8 (promote (join 8 (lo_nibble b) c))) = b"
    and "to_u8 (promote (join 8 (lo_nibble b) c) AND 0xFF) = c"
  unfolding byte_facts
  by (rule bit_word_eqI, auto simp: bit_simps dest: bit_of_8_bits)+

interpretation v2: mit_layout pack_v2 fields_v2
proof
  fix p v kp kd t :: u16
  assume "fits12 (p, v, kp, kd, t)"
  then have fit: "v < 0x1000" "kp < 0x1000" "kd < 0x1000" "t < 0x1000" by (simp_all add: fits12_def)
  show "fields_v2 (pack_v2 p v kp kd t) = (p, v, kp, kd, t)"
    by (simp only: pack_v2_def fields_v2.simps join_8_halves join_4_split join_8_split fit)
next
  fix d and p v kp kd t :: u16
  assume "fields_v2 d = (p, v, kp, kd, t)"
  then show "pack_v2 p v kp kd t = d"
    by (cases d; simp only: fields_v2.simps prod.inject) (auto simp only: pack_v2_def byte_of_join)
next
  fix d
  show "fits12 (fields_v2 d)" by (cases d) (simp add: fits12_def)
qed

interpretation v3: mit_layout pack_v3 fields_v3
proof
  fix p v kp kd t :: u16
  assume "fits12 (p, v, kp, kd, t)"
  then have fit: "v < 0x1000" "kp < 0x1000" "kd < 0x1000" "t < 0x1000" by (simp_all add: fits12_def)
  show "fields_v3 (pack_v3 p v kp kd t) = (p, v, kp, kd, t)"
    by (simp only: pack_v3_def fields_v3.simps join_8_halves join_4_split join_8_split fit)
next
  fix d and p v kp kd t :: u16
  assume "fields_v3 d = (p, v, kp, kd, t)"
  then show "pack_v3 p v kp kd t = d"
    by (cases d; simp only: fields_v3.simps prod.inject) (auto simp only: pack_v3_def byte_of_join)
next
  fix d
  show "fits12 (fields_v3 d)" by (cases d) (simp add: fits12_def)
qed

section \<open>Correctness of the scaling\<close>

text \<open>The value \<open>float_to_uint\<close> truncates, on exact rationals.\<close>

definition scaled :: "rat \<Rightarrow> rat \<Rightarrow> rat \<Rightarrow> rat \<Rightarrow> rat" where
  "scaled L H X C = rnd b32 (rnd b32 (rnd b32 (X - L) * C) / rnd b32 (H - L))"

definition range_ok :: "fp \<Rightarrow> fp \<Rightarrow> bool" where
  "range_ok lo hi \<longleftrightarrow>
     is_fin lo \<and> is_fin hi \<and> \<bar>fval lo\<bar> \<le> 2 ^ 60 \<and> \<bar>fval hi\<bar> \<le> 2 ^ 60 \<and>
     1 / 2 ^ 60 \<le> fval hi - fval lo"

lemma f32_error: "\<bar>rnd b32 v - v\<bar> \<le> \<bar>v\<bar> / 2 ^ 24 + 1 / 2 ^ 150"
  using f32.rnd_error [of v] by (simp add: power_int_def power_one_over)

lemma f32_pow [simp]: "rnd b32 (2 ^ n) = 2 ^ n"
  using f32.rnd_exact [OF f32.representable_powi [of "int n"]] by simp

lemma f32_pow_inverse: "n \<le> 149 \<Longrightarrow> rnd b32 (1 / 2 ^ n) = 1 / 2 ^ n"
  using f32.rnd_exact [OF f32.representable_powi [of "- int n"]] by (simp add: power_int_minus_divide)

lemma f32_le_pow: "v \<le> 2 ^ n \<Longrightarrow> rnd b32 v \<le> 2 ^ n"
  using f32.rnd_mono [of v "2 ^ n"] by simp

lemma f32_finite: "\<bar>v\<bar> \<le> 2 ^ 127 \<Longrightarrow> \<bar>rnd b32 v\<bar> < 2 powi emax b32"
  using f32.rnd_below [of v 127] by simp

lemma f32_add:
  assumes "is_fin x" and "is_fin y" and "\<bar>fval x + fval y\<bar> \<le> 2 ^ 127"
  shows "is_fin (fp_add b32 x y)" and "fval (fp_add b32 x y) = rnd b32 (fval x + fval y)"
  using f32.fp_add_fin [OF assms(1,2) f32_finite [OF assms(3)]] by auto

lemma f32_sub:
  assumes "is_fin x" and "is_fin y" and "\<bar>fval x - fval y\<bar> \<le> 2 ^ 127"
  shows "is_fin (fp_sub b32 x y)" and "fval (fp_sub b32 x y) = rnd b32 (fval x - fval y)"
  using f32.fp_sub_fin [OF assms(1,2) f32_finite [OF assms(3)]] by auto

lemma f32_mul:
  assumes "is_fin x" and "is_fin y" and "\<bar>fval x * fval y\<bar> \<le> 2 ^ 127"
  shows "is_fin (fp_mul b32 x y)" and "fval (fp_mul b32 x y) = rnd b32 (fval x * fval y)"
  using f32.fp_mul_fin [OF assms(1,2) f32_finite [OF assms(3)]] by auto

lemma f32_div:
  assumes "is_fin x" and "is_fin y" and "fval y \<noteq> 0" and "\<bar>fval x / fval y\<bar> \<le> 2 ^ 127"
  shows "is_fin (fp_div b32 x y)" and "fval (fp_div b32 x y) = rnd b32 (fval x / fval y)"
  using f32.fp_div_fin [OF assms(1-3) f32_finite [OF assms(4)]] by auto

lemma f32_of_int:
  assumes "\<bar>i\<bar> \<le> 2 ^ 24"
  shows "is_fin (fp_of_int b32 i)" and "fval (fp_of_int b32 i) = of_int i"
  using f32.fp_of_int_fin [of i] assms by auto

lemma span_bounds:
  assumes "1 / 2 ^ 60 \<le> H - L" and "H - L \<le> 2 ^ 61"
  shows "1 / 2 ^ 60 \<le> rnd b32 (H - L)" and "rnd b32 (H - L) \<le> 2 ^ 61"
proof -
  show "1 / 2 ^ 60 \<le> rnd b32 (H - L)"
    using f32.rnd_mono [OF assms(1)] f32_pow_inverse [of 60] by simp
  show "rnd b32 (H - L) \<le> 2 ^ 61" using assms(2) by (rule f32_le_pow)
qed

lemma scaled_steps:
  assumes "1 / 2 ^ 60 \<le> H - L" and "H - L \<le> 2 ^ 61" and "L \<le> X" and "X \<le> H"
    and "1 \<le> C" and "C \<le> 65535"
  defines "S \<equiv> rnd b32 (H - L)" and "D \<equiv> rnd b32 (X - L)"
  defines "M \<equiv> rnd b32 (D * C)"
  shows "0 \<le> D" and "D \<le> S" and "0 \<le> M" and "M \<le> 2 ^ 78" and "D * C \<le> 2 ^ 78"
    and "0 \<le> M / S" and "M / S \<le> C + 1 / 64"
proof -
  note S = span_bounds [OF assms(1,2), folded S_def]
  show D0: "0 \<le> D" using assms(3) by (simp add: D_def f32.rnd_nonneg)
  show DS: "D \<le> S" using assms(4) by (simp add: D_def S_def f32.rnd_mono)
  show M0: "0 \<le> M" using D0 assms(5) by (simp add: M_def f32.rnd_nonneg)
  have "D * C \<le> 2 ^ 61 * 65535" using D0 DS S(2) assms(5,6) by (intro mult_mono) auto
  then show DC: "D * C \<le> 2 ^ 78" by simp
  show "M \<le> 2 ^ 78" using DC unfolding M_def by (rule f32_le_pow)
  have S0: "0 < S" using S(1) by (rule less_le_trans [rotated]) simp
  then show "0 \<le> M / S" using M0 by simp
  have "D * C \<le> S * C" using DS assms(5) by (intro mult_right_mono) auto
  then have "M \<le> rnd b32 (S * C)" unfolding M_def by (rule f32.rnd_mono)
  also have "\<dots> \<le> S * C + S * C / 2 ^ 24 + 1 / 2 ^ 150"
  proof -
    have "\<bar>S * C\<bar> = S * C" using S0 assms(5) by simp
    then show ?thesis using f32_error [of "S * C"] by linarith
  qed
  finally have mp: "M \<le> S * C + S * C / 2 ^ 24 + 1 / 2 ^ 150" .
  define P where "P = S * C"
  have "P \<le> S * 65535" using S0 assms(6) by (simp add: P_def)
  moreover have "1 / 2 ^ 150 \<le> S / 2 ^ 24" using S(1) by simp
  ultimately have "M \<le> S * C + S * (1 / 64)" using mp S0 by (simp add: P_def [symmetric])
  also have "\<dots> = (C + 1 / 64) * S" by (simp add: algebra_simps)
  finally have "M \<le> (C + 1 / 64) * S" .
  then show "M / S \<le> C + 1 / 64" using S0 by (simp add: divide_le_eq)
qed

lemma scaled_range:
  assumes "1 / 2 ^ 60 \<le> H - L" and "H - L \<le> 2 ^ 61" and "L \<le> X" and "X \<le> H"
    and "1 \<le> C" and "C \<le> 65535"
  shows "0 \<le> scaled L H X C" and "scaled L H X C < C + 1"
proof -
  note st = scaled_steps [OF assms]
  let ?q = "rnd b32 (rnd b32 (X - L) * C) / rnd b32 (H - L)"
  show "0 \<le> scaled L H X C" unfolding scaled_def by (rule f32.rnd_nonneg) (rule st(6))
  have "\<bar>?q\<bar> \<le> 65536" using st(6,7) assms(6) by simp
  then have "\<bar>rnd b32 ?q - ?q\<bar> \<le> 1 / 64"
    using f32_error [of ?q] by (simp add: field_simps)
  then show "scaled L H X C < C + 1" using st(7) unfolding scaled_def by linarith
qed

lemma scaled_mono:
  assumes "1 / 2 ^ 60 \<le> H - L" and "0 \<le> C" and "X \<le> Y"
  shows "scaled L H X C \<le> scaled L H Y C"
proof -
  have "0 < rnd b32 (H - L)"
    using f32.rnd_mono [OF assms(1)] f32_pow_inverse [of 60] by (simp add: less_le_trans [rotated])
  with assms(2,3) show ?thesis
    unfolding scaled_def
    by (intro f32.rnd_mono divide_right_mono mult_right_mono) auto
qed

lemma fp_trunc_nonneg: "is_fin x \<Longrightarrow> 0 \<le> fval x \<Longrightarrow> fp_trunc x = Some \<lfloor>fval x\<rfloor>"
  by (simp add: fp_trunc_def)

lemma float_to_uint_in_range:
  assumes r: "range_ok lo hi" and x: "is_fin x" "fval lo \<le> fval x" "fval x \<le> fval hi"
    and b: "1 \<le> bits" "bits \<le> 16"
  defines "T \<equiv> scaled (fval lo) (fval hi) (fval x) (2 ^ bits - 1)"
  shows "float_to_uint x lo hi bits = Some (word_of_int \<lfloor>T\<rfloor>)" and "0 \<le> \<lfloor>T\<rfloor>" and "\<lfloor>T\<rfloor> < 2 ^ bits"
proof -
  let ?L = "fval lo" and ?H = "fval hi" and ?X = "fval x" and ?C = "2 ^ bits - 1 :: rat"
  have pw: "(2::rat) ^ 1 \<le> 2 ^ bits" "(2::rat) ^ bits \<le> 2 ^ 16"
    by (rule power_increasing [OF b(1)], simp) (rule power_increasing [OF b(2)], simp)
  then have C: "1 \<le> ?C" "?C \<le> 65535" by simp_all
  have sp: "1 / 2 ^ 60 \<le> ?H - ?L" "?H - ?L \<le> 2 ^ 61"
    using r by (auto simp: range_ok_def abs_le_iff)
  note S = span_bounds [OF sp]
  note st = scaled_steps [OF sp x(2,3) C]
  note rg = scaled_range [OF sp x(2,3) C, folded T_def]
  have span: "is_fin (fp_sub b32 hi lo)" "fval (fp_sub b32 hi lo) = rnd b32 (?H - ?L)"
    using f32_sub [of hi lo] r sp by (simp_all add: range_ok_def abs_le_iff)
  have diff: "is_fin (fp_sub b32 x lo)" "fval (fp_sub b32 x lo) = rnd b32 (?X - ?L)"
    using f32_sub [of x lo] r sp x by (simp_all add: range_ok_def abs_le_iff)
  have "(2::int) ^ bits \<le> 2 ^ 16" using b(2) by (intro power_increasing) simp_all
  then have c: "is_fin (fp_of_int b32 (2 ^ bits - 1))" "fval (fp_of_int b32 (2 ^ bits - 1)) = ?C"
    using f32_of_int [of "2 ^ bits - 1"] by simp_all
  have prod: "is_fin (fp_mul b32 (fp_sub b32 x lo) (fp_of_int b32 (2 ^ bits - 1)))"
    "fval (fp_mul b32 (fp_sub b32 x lo) (fp_of_int b32 (2 ^ bits - 1))) = rnd b32 (rnd b32 (?X - ?L) * ?C)"
    using f32_mul [OF diff(1) c(1)] st(1,5) C by (simp_all add: diff(2) c(2))
  have S0: "rnd b32 (?H - ?L) \<noteq> 0" using S(1) by auto
  have quot: "is_fin (fp_div b32 (fp_mul b32 (fp_sub b32 x lo) (fp_of_int b32 (2 ^ bits - 1))) (fp_sub b32 hi lo))"
    "fval (fp_div b32 (fp_mul b32 (fp_sub b32 x lo) (fp_of_int b32 (2 ^ bits - 1))) (fp_sub b32 hi lo)) = T"
    using f32_div [OF prod(1) span(1)] st(6,7) C S0
    by (simp_all add: prod(2) span(2) T_def scaled_def)
  show fl: "0 \<le> \<lfloor>T\<rfloor>" using rg(1) by simp
  have "T < of_int (2 ^ bits)" using rg(2) by simp
  then show up: "\<lfloor>T\<rfloor> < 2 ^ bits" by (simp only: floor_less_iff)
  have "(2::int) ^ bits \<le> 2 ^ 32" using b(2) by (intro power_increasing) simp_all
  with up have "\<lfloor>T\<rfloor> < 2 ^ 32" by linarith
  moreover have "\<not> fp_lt x lo" "\<not> fp_lt hi x" using r x by (simp_all add: fp_lt_fin range_ok_def)
  ultimately show "float_to_uint x lo hi bits = Some (word_of_int \<lfloor>T\<rfloor>)"
    using fl quot rg(1) by (simp add: float_to_uint_def Let_def cast_u32_def fp_trunc_nonneg)
qed

lemma f32_error_le:
  assumes "\<bar>v\<bar> \<le> b" and "1 / 2 ^ 126 \<le> b"
  shows "\<bar>rnd b32 v - v\<bar> \<le> b / 8388608"
proof -
  have "1 / 2 ^ 150 \<le> b / 2 ^ 24" using assms(2) by simp
  then show ?thesis using f32_error [of v] assms(1) by simp
qed

lemma scaled_accuracy:
  assumes "1 / 2 ^ 60 \<le> H - L" and "H - L \<le> 2 ^ 61" and "L \<le> X" and "X \<le> H"
    and "1 \<le> C" and "C \<le> 65535"
  shows "\<bar>scaled L H X C - (X - L) * C / (H - L)\<bar> \<le> 1 / 16"
proof -
  define G where "G = H - L"
  define S where "S = rnd b32 G"
  define D where "D = rnd b32 (X - L)"
  define M where "M = rnd b32 (D * C)"
  define y where "y = (X - L) * C / G"
  have G: "1 / 2 ^ 60 \<le> G" using assms(1) by (simp add: G_def)
  have G0: "0 < G" using G by (rule less_le_trans [rotated]) simp
  have XL: "0 \<le> X - L" "X - L \<le> G" using assms(3,4) by (simp_all add: G_def)
  have tiny: "1 / 2 ^ 150 \<le> G / 2 ^ 30" using G by simp
  have eS: "\<bar>S - G\<bar> \<le> G / 8388608" using f32_error_le [of G G] G G0 by (simp add: S_def)
  have SG: "G \<le> 2 * S" "S \<le> 2 * G" using eS G0 by (auto simp: abs_if split: if_splits)
  have S0: "0 < S" using SG G0 by linarith
  have eD: "\<bar>D - (X - L)\<bar> \<le> G / 8388608" using f32_error_le [of "X - L" G] G XL by (simp add: D_def)
  note st = scaled_steps [OF assms, folded G_def, folded S_def D_def, folded M_def]
  have DC: "0 \<le> D * C" "D * C \<le> S * C" using st(1,2) assms(5) by (simp_all add: mult_right_mono)
  have SC: "S \<le> S * C" using S0 assms(5) by simp
  have "1 / 2 ^ 126 \<le> S" using G SG by simp
  then have SC': "1 / 2 ^ 126 \<le> S * C" using SC by (rule order_trans)
  have eM: "\<bar>M - D * C\<bar> \<le> S * C / 8388608"
    using f32_error_le [of "D * C" "S * C"] DC SC' unfolding M_def by simp
  have y: "0 \<le> y" "y \<le> C" "y * G = (X - L) * C"
    using XL G0 assms(5) by (simp_all add: y_def divide_le_eq mult.commute mult_left_mono)
  have "\<bar>C * (D - (X - L))\<bar> \<le> C * (G / 8388608)"
    using eD assms(5) by (simp only: abs_mult) (intro mult_mono, simp_all)
  moreover have "D * C - y * G = C * (D - (X - L))" using y(3) by (simp add: algebra_simps)
  ultimately have "\<bar>D * C - y * G\<bar> \<le> C * (G / 8388608)" by simp
  moreover have "\<bar>y * (G - S)\<bar> \<le> C * (G / 8388608)"
    using eS y assms(5) by (simp only: abs_mult) (intro mult_mono, simp_all add: abs_minus_commute)
  then have "\<bar>y * G - y * S\<bar> \<le> C * (G / 8388608)" by (simp add: right_diff_distrib)
  ultimately have "\<bar>M - y * S\<bar> \<le> S * C / 8388608 + C * (G / 8388608) + C * (G / 8388608)"
    by (rule abs_diff_chain [OF eM])
  moreover have "C * G \<le> C * (2 * S)" using SG(1) assms(5) by (intro mult_left_mono) simp_all
  ultimately have "\<bar>M - y * S\<bar> \<le> 5 * (S * C) / 8388608" by (simp add: algebra_simps)
  also have "\<dots> \<le> S * (1 / 24)" using S0 assms(6) by (simp add: algebra_simps)
  finally have "\<bar>M - y * S\<bar> \<le> S * (1 / 24)" .
  moreover have "M / S - y = (M - y * S) / S" using S0 by (simp add: diff_divide_distrib)
  ultimately have q: "\<bar>M / S - y\<bar> \<le> 1 / 24" using S0 by (simp add: divide_le_eq mult.commute)
  have "\<bar>M / S\<bar> \<le> 65536" using st(6,7) assms(6) by simp
  then have "\<bar>rnd b32 (M / S) - M / S\<bar> \<le> 1 / 64"
    using f32_error_le [of "M / S" 65536] by simp
  then have "\<bar>rnd b32 (M / S) - y\<bar> \<le> 1 / 64 + 1 / 24" using q by (rule abs_diff_trans)
  then show ?thesis
    by (simp add: scaled_def G_def [symmetric] S_def [symmetric] D_def [symmetric] M_def [symmetric]
        y_def [symmetric])
qed

text \<open>The value \<open>uint_to_float\<close> returns, on exact rationals.\<close>

definition unscaled :: "rat \<Rightarrow> rat \<Rightarrow> rat \<Rightarrow> rat \<Rightarrow> rat" where
  "unscaled L H n C = rnd b32 (rnd b32 (rnd b32 (n * rnd b32 (H - L)) / C) + L)"

lemma unscaled_steps:
  assumes "1 / 2 ^ 60 \<le> H - L" and "H - L \<le> 2 ^ 61" and "0 \<le> n" and "n \<le> C"
    and "1 \<le> C" and "C \<le> 65535"
  defines "S \<equiv> rnd b32 (H - L)"
  defines "W \<equiv> rnd b32 (n * S)"
  shows "0 \<le> n * S" and "n * S \<le> 2 ^ 78" and "0 \<le> W / C" and "W / C \<le> 2 * S"
    and "\<bar>W / C - n * S / C\<bar> \<le> S / 8388608"
proof -
  note S = span_bounds [OF assms(1,2), folded S_def]
  have S0: "0 < S" using S(1) by (rule less_le_trans [rotated]) simp
  show nS: "0 \<le> n * S" using assms(3) S0 by simp
  have nC: "n * S \<le> C * S" using assms(4) S0 by (intro mult_right_mono) auto
  also have "\<dots> \<le> 65535 * 2 ^ 61" using assms(5,6) S0 S(2) by (intro mult_mono) auto
  finally show "n * S \<le> 2 ^ 78" by simp
  define P where "P = n * S"
  define R where "R = C * S"
  have CS: "S \<le> R" using assms(5) S0 by (simp add: R_def)
  have nC': "P \<le> R" using assms(4) S0 by (simp add: P_def R_def)
  have "\<bar>W - n * S\<bar> \<le> n * S / 2 ^ 24 + 1 / 2 ^ 150" using f32_error [of "n * S"] nS by (simp add: W_def)
  moreover have "1 / 2 ^ 150 \<le> S / 2 ^ 24" using S(1) by simp
  ultimately have e: "\<bar>W - P\<bar> \<le> R / 8388608"
    using nC' CS by (simp add: P_def [symmetric])
  have "W / C - n * S / C = (W - n * S) / C" by (simp add: diff_divide_distrib)
  then show d: "\<bar>W / C - n * S / C\<bar> \<le> S / 8388608"
    using e assms(5) by (simp add: P_def R_def divide_le_eq mult_ac)
  show "0 \<le> W / C" using nS assms(5) by (simp add: W_def f32.rnd_nonneg)
  have "n * S / C \<le> S" using nC assms(5) by (simp add: divide_le_eq mult.commute)
  with d S0 show "W / C \<le> 2 * S" by linarith
qed

lemma unscaled_accuracy:
  assumes "1 / 2 ^ 60 \<le> H - L" and "H - L \<le> 2 ^ 61" and "0 \<le> n" and "n \<le> C"
    and "1 \<le> C" and "C \<le> 65535" and "\<bar>L\<bar> \<le> H - L"
  shows "\<bar>unscaled L H n C - (L + n * (H - L) / C)\<bar> \<le> 1 / 8 * ((H - L) / C)"
proof -
  define G where "G = H - L"
  define S where "S = rnd b32 G"
  define W where "W = rnd b32 (n * S) / C"
  have G: "1 / 2 ^ 60 \<le> G" using assms(1) by (simp add: G_def)
  have G0: "0 < G" using G by (rule less_le_trans [rotated]) simp
  have tiny: "1 / 2 ^ 150 \<le> G / 2 ^ 30" using G by simp
  have eS: "\<bar>S - G\<bar> \<le> G / 8388608" using f32_error_le [of G G] G G0 by (simp add: S_def)
  have SG: "S \<le> 2 * G" using eS G0 by (auto simp: abs_if split: if_splits)
  note st = unscaled_steps [OF assms(1-6), folded G_def, folded S_def, folded W_def]
  have "\<bar>rnd b32 W - W\<bar> \<le> G / 2097152" using f32_error [of W] st(3,4) SG tiny G0 by simp
  moreover have "\<bar>W - n * S / C\<bar> \<le> 2 * G / 8388608" using st(5) SG by simp
  moreover have "\<bar>n * S / C - n * G / C\<bar> \<le> G / 8388608"
  proof -
    have "n * S / C - n * G / C = n / C * (S - G)" by (simp add: diff_divide_distrib algebra_simps)
    moreover have "\<bar>n / C * (S - G)\<bar> \<le> 1 * (G / 8388608)"
      unfolding abs_mult using assms(3-5) eS by (intro mult_mono) simp_all
    ultimately show ?thesis by simp
  qed
  ultimately have "\<bar>rnd b32 W - n * G / C\<bar> \<le> G / 2097152 + 2 * G / 8388608 + G / 8388608"
    by (rule abs_diff_chain)
  then have r: "\<bar>rnd b32 W - n * G / C\<bar> \<le> 7 * G / 8388608" by simp
  have nG: "0 \<le> n * G / C" "n * G / C \<le> G"
    using assms(3-5) G0 by (simp_all add: divide_le_eq mult.commute mult_left_mono)
  have "\<bar>rnd b32 W + L\<bar> \<le> 3 * G" using r nG G0 assms(7) [folded G_def] by linarith
  then have "\<bar>rnd b32 (rnd b32 W + L) - (rnd b32 W + L)\<bar> \<le> 3 * G / 8388608"
    using f32_error [of "rnd b32 W + L"] tiny G0 by simp
  moreover have "\<bar>(rnd b32 W + L) - (L + n * G / C)\<bar> \<le> 7 * G / 8388608" using r by simp
  ultimately have "\<bar>rnd b32 (rnd b32 W + L) - (L + n * G / C)\<bar> \<le> 3 * G / 8388608 + 7 * G / 8388608"
    by (rule abs_diff_trans)
  then have "\<bar>rnd b32 (rnd b32 W + L) - (L + n * G / C)\<bar> \<le> 10 * G / 8388608" by simp
  also have "10 * G / 8388608 \<le> 1 / 8 * (G / C)"
  proof -
    have "10 * C \<le> 2 ^ 20" using assms(6) by simp
    then have "10 * C * G \<le> 2 ^ 20 * G" using G0 by (intro mult_right_mono) simp_all
    then show ?thesis using assms(5) by (simp add: field_simps)
  qed
  finally show ?thesis
    by (simp add: unscaled_def G_def [symmetric] S_def [symmetric] W_def [symmetric])
qed

lemma uint_to_float_in_range:
  assumes r: "range_ok lo hi" and n: "0 \<le> n" "n < 2 ^ bits" and b: "1 \<le> bits" "bits \<le> 16"
  shows "is_fin (uint_to_float n lo hi bits)"
    and "fval (uint_to_float n lo hi bits)
           = unscaled (fval lo) (fval hi) (of_int n) (2 ^ bits - 1)"
proof -
  let ?L = "fval lo" and ?H = "fval hi" and ?C = "2 ^ bits - 1 :: rat" and ?n = "of_int n :: rat"
  have pw: "(2::rat) ^ 1 \<le> 2 ^ bits" "(2::rat) ^ bits \<le> 2 ^ 16"
    by (rule power_increasing [OF b(1)], simp) (rule power_increasing [OF b(2)], simp)
  then have C: "1 \<le> ?C" "?C \<le> 65535" by simp_all
  have "of_int n \<le> (of_int (2 ^ bits - 1) :: rat)" using n(2) by (simp only: of_int_le_iff)
  then have nr: "0 \<le> ?n" "?n \<le> ?C" using n(1) by simp_all
  have sp: "1 / 2 ^ 60 \<le> ?H - ?L" "?H - ?L \<le> 2 ^ 61"
    using r by (auto simp: range_ok_def abs_le_iff)
  note S = span_bounds [OF sp]
  note st = unscaled_steps [OF sp nr C]
  have fl: "is_fin lo" "is_fin hi" "\<bar>?L\<bar> \<le> 2 ^ 60" using r by (simp_all add: range_ok_def)
  have span: "is_fin (fp_sub b32 hi lo)" "fval (fp_sub b32 hi lo) = rnd b32 (?H - ?L)"
    using f32_sub [of hi lo] r sp by (simp_all add: range_ok_def abs_le_iff)
  have ib: "(2::int) ^ bits \<le> 2 ^ 16" using b(2) by (intro power_increasing) simp_all
  have i: "is_fin (fp_of_int b32 n)" "fval (fp_of_int b32 n) = ?n"
    using f32_of_int [of n] n ib by simp_all
  have c: "is_fin (fp_of_int b32 (2 ^ bits - 1))" "fval (fp_of_int b32 (2 ^ bits - 1)) = ?C"
    using f32_of_int [of "2 ^ bits - 1"] ib by simp_all
  let ?p = "fp_mul b32 (fp_of_int b32 n) (fp_sub b32 hi lo)"
  have prod: "is_fin ?p" "fval ?p = rnd b32 (?n * rnd b32 (?H - ?L))"
    using f32_mul [OF i(1) span(1)] st(1,2) by (simp_all add: i(2) span(2))
  let ?q = "fp_div b32 ?p (fp_of_int b32 (2 ^ bits - 1))"
  have quot: "is_fin ?q" "fval ?q = rnd b32 (rnd b32 (?n * rnd b32 (?H - ?L)) / ?C)"
    using f32_div [OF prod(1) c(1)] st(3,4) S(2) C by (simp_all add: prod(2) c(2))
  have "rnd b32 (rnd b32 (?n * rnd b32 (?H - ?L)) / ?C) \<le> 2 ^ 62"
    by (rule f32_le_pow) (use st(4) S(2) in simp)
  moreover have "0 \<le> rnd b32 (rnd b32 (?n * rnd b32 (?H - ?L)) / ?C)"
    using st(3) by (rule f32.rnd_nonneg)
  ultimately have "\<bar>fval ?q + ?L\<bar> \<le> 2 ^ 127" using fl(3) by (simp add: quot(2) abs_le_iff)
  from f32_add [OF quot(1) fl(1) this]
  show "is_fin (uint_to_float n lo hi bits)"
    "fval (uint_to_float n lo hi bits) = unscaled ?L ?H ?n ?C"
    by (simp_all add: uint_to_float_def Let_def unscaled_def quot(2))
qed

text \<open>Encoding and decoding again loses at most one and a quarter steps.\<close>

lemma scaling_roundtrip:
  assumes r: "range_ok lo hi" and x: "is_fin x" "fval lo \<le> fval x" "fval x \<le> fval hi"
    and b: "1 \<le> bits" "bits \<le> 16" and z: "\<bar>fval lo\<bar> \<le> fval hi - fval lo"
  obtains n where "float_to_uint x lo hi bits = Some n" and "uint n < 2 ^ bits"
    and "\<bar>fval (uint_to_float (uint n) lo hi bits) - fval x\<bar>
           \<le> 5 / 4 * ((fval hi - fval lo) / (2 ^ bits - 1))"
proof -
  let ?L = "fval lo" and ?H = "fval hi" and ?X = "fval x" and ?C = "2 ^ bits - 1 :: rat"
  define T where "T = scaled ?L ?H ?X ?C"
  define Q where "Q = (?H - ?L) / ?C"
  define y where "y = (?X - ?L) * ?C / (?H - ?L)"
  note enc = float_to_uint_in_range [OF r x b, folded T_def]
  have pw: "(2::rat) ^ 1 \<le> 2 ^ bits" "(2::rat) ^ bits \<le> 2 ^ 16"
    by (rule power_increasing [OF b(1)], simp) (rule power_increasing [OF b(2)], simp)
  then have C: "1 \<le> ?C" "?C \<le> 65535" by simp_all
  have sp: "1 / 2 ^ 60 \<le> ?H - ?L" "?H - ?L \<le> 2 ^ 61"
    using r by (auto simp: range_ok_def abs_le_iff)
  have G0: "0 < ?H - ?L" using sp(1) by (rule less_le_trans [rotated]) simp
  have Q0: "0 < Q" using G0 C by (simp add: Q_def)
  have "of_int \<lfloor>T\<rfloor> \<le> (of_int (2 ^ bits - 1) :: rat)" using enc(3) by (simp only: of_int_le_iff)
  then have nr: "0 \<le> (of_int \<lfloor>T\<rfloor> :: rat)" "of_int \<lfloor>T\<rfloor> \<le> ?C" using enc(2) by simp_all
  have "of_int \<lfloor>T\<rfloor> \<le> T" "T < of_int \<lfloor>T\<rfloor> + 1" using floor_correct [of T] by simp_all
  then have "\<bar>of_int \<lfloor>T\<rfloor> - T\<bar> \<le> 1" by (simp add: abs_le_iff)
  moreover have "\<bar>T - y\<bar> \<le> 1 / 16" unfolding T_def y_def by (rule scaled_accuracy [OF sp x(2,3) C])
  ultimately have "\<bar>of_int \<lfloor>T\<rfloor> - y\<bar> \<le> 1 + 1 / 16" by (rule abs_diff_trans)
  then have "\<bar>of_int \<lfloor>T\<rfloor> - y\<bar> * Q \<le> (1 + 1 / 16) * Q" using Q0 by (intro mult_right_mono) simp_all
  moreover have yQ: "y * Q = ?X - ?L"
  proof -
    have "?C \<noteq> 0" "?H - ?L \<noteq> 0" using C G0 by linarith+
    then show ?thesis by (simp add: y_def Q_def del: right_minus_eq)
  qed
  have "(of_int \<lfloor>T\<rfloor> - y) * Q = (?L + of_int \<lfloor>T\<rfloor> * (?H - ?L) / ?C) - ?X"
    unfolding left_diff_distrib yQ by (simp add: Q_def)
  ultimately have e1: "\<bar>(?L + of_int \<lfloor>T\<rfloor> * (?H - ?L) / ?C) - ?X\<bar> \<le> (1 + 1 / 16) * Q"
    using Q0 by (metis abs_mult abs_of_pos)
  have e2: "\<bar>unscaled ?L ?H (of_int \<lfloor>T\<rfloor>) ?C - (?L + of_int \<lfloor>T\<rfloor> * (?H - ?L) / ?C)\<bar> \<le> 1 / 8 * Q"
    unfolding Q_def by (rule unscaled_accuracy [OF sp nr C z])
  have "\<bar>unscaled ?L ?H (of_int \<lfloor>T\<rfloor>) ?C - ?X\<bar> \<le> 1 / 8 * Q + (1 + 1 / 16) * Q"
    by (rule abs_diff_trans [OF e2 e1])
  also have "\<dots> \<le> 5 / 4 * Q" using Q0 by simp
  finally have acc: "\<bar>unscaled ?L ?H (of_int \<lfloor>T\<rfloor>) ?C - ?X\<bar> \<le> 5 / 4 * Q" .
  have "(2::int) ^ bits \<le> 2 ^ 32" using b(2) by (intro power_increasing) simp_all
  with enc(3) have "\<lfloor>T\<rfloor> < 2 ^ 32" by (rule less_le_trans)
  then have u: "uint (word_of_int \<lfloor>T\<rfloor> :: u32) = \<lfloor>T\<rfloor>"
    using enc(2) by (simp add: uint_word_of_int)
  show thesis
  proof
    show "float_to_uint x lo hi bits = Some (word_of_int \<lfloor>T\<rfloor>)" by (rule enc(1))
    show "uint (word_of_int \<lfloor>T\<rfloor> :: u32) < 2 ^ bits" using enc(3) by (simp add: u)
    show "\<bar>fval (uint_to_float (uint (word_of_int \<lfloor>T\<rfloor> :: u32)) lo hi bits) - ?X\<bar>
            \<le> 5 / 4 * ((?H - ?L) / ?C)"
      using uint_to_float_in_range(2) [OF r enc(2,3) b] acc by (simp add: u Q_def)
  qed
qed

section \<open>Command fields\<close>

definition limits_ok :: "fp \<Rightarrow> fp \<Rightarrow> bool" where
  "limits_ok lo hi \<longleftrightarrow> range_ok (fp_conv b32 lo) (fp_conv b32 hi)"

lemma range_okD:
  "range_ok lo hi \<Longrightarrow> is_fin lo" "range_ok lo hi \<Longrightarrow> is_fin hi" "range_ok lo hi \<Longrightarrow> fval lo \<le> fval hi"
proof -
  assume r: "range_ok lo hi"
  then show "is_fin lo" "is_fin hi" by (simp_all add: range_ok_def)
  have "(0::rat) \<le> 1 / 2 ^ 60" by simp
  then show "fval lo \<le> fval hi" using r unfolding range_ok_def by linarith
qed

text \<open>The exact value a field is the integer part of.\<close>

definition field_value :: "fp \<Rightarrow> fp \<Rightarrow> fp \<Rightarrow> nat \<Rightarrow> rat" where
  "field_value lo x hi bits =
     scaled (fval (fp_conv b32 lo)) (fval (fp_conv b32 hi))
       (fval (clampf (fp_conv b32 lo) x (fp_conv b32 hi))) (2 ^ bits - 1)"

text \<open>Every command, NaN and infinities included, has a field, and the field fits.\<close>

lemma command_field_eq:
  assumes "limits_ok lo hi" and b: "1 \<le> bits" "bits \<le> 16"
  shows "command_field lo x hi bits = Some (word_of_int \<lfloor>field_value lo x hi bits\<rfloor>)"
    and "uint (word_of_int \<lfloor>field_value lo x hi bits\<rfloor> :: u16) = \<lfloor>field_value lo x hi bits\<rfloor>"
    and "0 \<le> \<lfloor>field_value lo x hi bits\<rfloor>" and "\<lfloor>field_value lo x hi bits\<rfloor> < 2 ^ bits"
proof -
  let ?l = "fp_conv b32 lo" and ?h = "fp_conv b32 hi"
  have r: "range_ok ?l ?h" using assms(1) by (simp add: limits_ok_def)
  note cl = clampf_range [OF range_okD [OF r], of x]
  define T where "T = field_value lo x hi bits"
  note enc = float_to_uint_in_range [OF r cl b, folded field_value_def, folded T_def]
  show "0 \<le> \<lfloor>T\<rfloor>" "\<lfloor>T\<rfloor> < 2 ^ bits" by (rule enc(2), rule enc(3))
  have "(2::int) ^ bits \<le> 2 ^ 16" using b(2) by (intro power_increasing) simp_all
  with enc(3) have up: "\<lfloor>T\<rfloor> < 2 ^ 16" by (rule less_le_trans)
  then show "uint (word_of_int \<lfloor>T\<rfloor> :: u16) = \<lfloor>T\<rfloor>" using enc(2) by (simp add: uint_word_of_int)
  have "uint (word_of_int \<lfloor>T\<rfloor> :: u32) = \<lfloor>T\<rfloor>" using enc(2) up by (simp add: uint_word_of_int)
  then have c: "to_u16 (word_of_int \<lfloor>T\<rfloor>) = word_of_int \<lfloor>T\<rfloor>" by (subst ucast_eq) (rule arg_cong)
  show "command_field lo x hi bits = Some (word_of_int \<lfloor>T\<rfloor>)"
    unfolding command_field_def enc(1) by (simp only: option.map c)
qed

lemma command_field_total:
  assumes "limits_ok lo hi" and "1 \<le> bits" and "bits \<le> 16"
  obtains n where "command_field lo x hi bits = Some n" and "uint n < 2 ^ bits"
  using command_field_eq [OF assms] by metis

text \<open>A larger command never has a smaller field.\<close>

lemma command_field_mono:
  assumes ok: "limits_ok lo hi" and b: "1 \<le> bits" "bits \<le> 16" and le: "fp_le x y"
    and m: "command_field lo x hi bits = Some m" and n: "command_field lo y hi bits = Some n"
  shows "m \<le> n"
proof -
  have r: "range_ok (fp_conv b32 lo) (fp_conv b32 hi)" using ok by (simp add: limits_ok_def)
  have "(0::rat) \<le> 2 ^ bits - 1" by simp
  then have "field_value lo x hi bits \<le> field_value lo y hi bits"
    unfolding field_value_def
    using r clampf_mono [OF range_okD [OF r] le] by (intro scaled_mono) (simp_all add: range_ok_def)
  then have "\<lfloor>field_value lo x hi bits\<rfloor> \<le> \<lfloor>field_value lo y hi bits\<rfloor>" by (rule floor_mono)
  moreover have "uint m = \<lfloor>field_value lo x hi bits\<rfloor>" "uint n = \<lfloor>field_value lo y hi bits\<rfloor>"
    using m n command_field_eq(1,2) [OF ok b] by auto
  ultimately show ?thesis by (simp add: word_le_def)
qed

lemma command_field_roundtrip:
  assumes ok: "limits_ok lo hi" and b: "1 \<le> bits" "bits \<le> 16"
    and x: "is_fin x" "fval (fp_conv b32 lo) \<le> fval x" "fval x \<le> fval (fp_conv b32 hi)"
    and z: "\<bar>fval (fp_conv b32 lo)\<bar> \<le> fval (fp_conv b32 hi) - fval (fp_conv b32 lo)"
  obtains n where "command_field lo x hi bits = Some n"
    and "\<bar>fval (uint_to_float (uint n) (fp_conv b32 lo) (fp_conv b32 hi) bits) - fval x\<bar>
           \<le> 5 / 4 * ((fval (fp_conv b32 hi) - fval (fp_conv b32 lo)) / (2 ^ bits - 1))"
proof -
  let ?l = "fp_conv b32 lo" and ?h = "fp_conv b32 hi"
  have r: "range_ok ?l ?h" using ok by (simp add: limits_ok_def)
  note cl = clampf_range [OF range_okD [OF r], of x]
  have cx: "fval (clampf ?l x ?h) = fval x"
    by (rule clampf_id [OF range_okD(1,2) [OF r] x])
  obtain m where m: "float_to_uint (clampf ?l x ?h) ?l ?h bits = Some m" "uint m < 2 ^ bits"
      "\<bar>fval (uint_to_float (uint m) ?l ?h bits) - fval x\<bar>
         \<le> 5 / 4 * ((fval ?h - fval ?l) / (2 ^ bits - 1))"
    using scaling_roundtrip [OF r cl b z] cx by metis
  have "(2::int) ^ bits \<le> 2 ^ 16" using b(2) by (intro power_increasing) simp_all
  with m(2) have "uint m < 2 ^ 16" by (rule less_le_trans)
  then have "uint (to_u16 m) = uint m" by (simp add: unsigned_ucast_eq take_bit_int_eq_self)
  with m show thesis using that [of "to_u16 m"] by (simp add: command_field_def)
qed

lemma range_ok_literals:
  assumes "r0 \<le> 0" and "1 \<le> r1" and "- (2 ^ 16) \<le> r0" and "r1 \<le> 2 ^ 16"
  shows "limits_ok (fp_lit b64 r0) (fp_lit b64 r1)"
proof -
  have conv: "is_fin (fp_conv b32 (fp_lit b64 r))" "fval (fp_conv b32 (fp_lit b64 r)) = rnd b32 (rnd b64 r)"
    if "\<bar>r\<bar> \<le> 2 ^ 16" for r
  proof -
    have "\<bar>rnd b64 r\<bar> \<le> 2 ^ 16"
      using f64.rnd_abs_le [OF that] f64.rnd_exact [OF f64.representable_powi [of 16]] by simp
    moreover have "\<bar>rnd b64 r\<bar> < 2 powi emax b64" using f64.rnd_below [of r 16] that by simp
    ultimately show "is_fin (fp_conv b32 (fp_lit b64 r))"
      "fval (fp_conv b32 (fp_lit b64 r)) = rnd b32 (rnd b64 r)"
      using f64.deliver_fin [of r False] f32.deliver_fin [of "rnd b64 r" False] f32_finite [of "rnd b64 r"]
      by (cases "deliver b64 False r"; simp add: fp_lit_def)+
  qed
  have "rnd b32 (rnd b64 r0) \<le> 0"
    using f32.rnd_mono [OF f64.rnd_mono [OF assms(1)]] by simp
  moreover have one: "rnd b32 (rnd b64 1) = 1"
    using f64.rnd_exact [OF f64.representable_powi [of 0]] f32_pow [of 0] by simp
  then have "1 \<le> rnd b32 (rnd b64 r1)"
    using f32.rnd_mono [OF f64.rnd_mono [OF assms(2)]] by simp
  moreover have big: "rnd b32 (rnd b64 (2 ^ 16)) = 2 ^ 16"
    using f64.rnd_exact [OF f64.representable_powi [of 16]] f32_pow [of 16] by simp
  then have "rnd b32 (rnd b64 r1) \<le> 2 ^ 16"
    using f32.rnd_mono [OF f64.rnd_mono [OF assms(4)]] by simp
  moreover have "- (2 ^ 16) \<le> rnd b32 (rnd b64 r0)"
    using f32.rnd_mono [OF f64.rnd_mono [OF assms(3)]] big by (simp add: f64.rnd_uminus f32.rnd_uminus)
  ultimately show ?thesis
    using conv [of r0] conv [of r1] assms by (simp add: limits_ok_def range_ok_def abs_le_iff)
qed

section \<open>A whole command (send_and_receive, cubemars_can.cpp)\<close>

text \<open>
  The data of the command frame of one joint: inversion, five clamped and scaled fields, the
  layout of the series. \<open>None\<close> is an undefined cast.
\<close>

definition command_data :: "joint_config \<Rightarrow> joint_cmd \<Rightarrow> can_data option" where
  "command_data cfg cmd =
     (let p_des_f = (if invert cfg then fp_neg (cmd_pos cmd) else cmd_pos cmd);
          v_des_f = (if invert cfg then fp_neg (cmd_vel cmd) else cmd_vel cmd);
          t_ff_f = (if invert cfg then fp_neg (cmd_torque cmd) else cmd_torque cmd)
      in case command_field (P_MIN cfg) p_des_f (P_MAX cfg) 16 of None \<Rightarrow> None | Some p_des \<Rightarrow>
         case command_field (V_MIN cfg) v_des_f (V_MAX cfg) 12 of None \<Rightarrow> None | Some v_des \<Rightarrow>
         case command_field (I_MIN cfg) t_ff_f (I_MAX cfg) 12 of None \<Rightarrow> None | Some t_ff \<Rightarrow>
         case command_field (KP_MIN cfg) (cmd_kp cmd) (KP_MAX cfg) 12 of None \<Rightarrow> None | Some kp \<Rightarrow>
         case command_field (KD_MIN cfg) (cmd_kd cmd) (KD_MAX cfg) 12 of None \<Rightarrow> None | Some kd \<Rightarrow>
           Some (case series_type cfg of
                   V2 \<Rightarrow> pack_v2 p_des v_des kp kd t_ff
                 | V3 \<Rightarrow> pack_v3 p_des v_des kp kd t_ff))"

text \<open>The identifier of a V3 frame: an extended identifier with the packet id above the node id.\<close>

definition v3_frame_id :: "u32 \<Rightarrow> CAN_PACKET_ID \<Rightarrow> u32" where
  "v3_frame_id cid pkt = ((cid OR push_bit 8 (packet_id pkt)) AND CAN_EFF_MASK) OR CAN_EFF_FLAG"

definition command_id :: "joint_config \<Rightarrow> u32" where
  "command_id cfg =
     (case series_type cfg of V2 \<Rightarrow> can_id cfg | V3 \<Rightarrow> v3_frame_id (can_id cfg) CAN_PACKET_SET_MIT)"

section \<open>Replies (send_and_receive, cubemars_can.cpp)\<close>

definition M_PI :: fp where
  "M_PI = fp_lit b64 3.14159265358979323846"

text \<open>A two's complement value of 16 or 8 bits.\<close>

definition i16_of_bytes :: "u8 \<Rightarrow> u8 \<Rightarrow> int" where
  "i16_of_bytes hi lo = sint (to_u16 (push_bit 8 (promote hi) OR promote lo))"

definition decode_v3 :: "joint_config \<Rightarrow> can_data \<Rightarrow> joint_state \<Rightarrow> joint_state" where
  "decode_v3 cfg d st =
     (let p_int = i16_of_bytes (d0 d) (d1 d);
          v_int = i16_of_bytes (d2 d) (d3 d);
          i_int = i16_of_bytes (d4 d) (d5 d);
          temp_int = sint (d6 d);
          error_code = error_code_of_byte (d7 d)
      in st\<lparr>st_pos := fp_conv b32 (fp_mul b64
               (fp_mul b32 (fp_of_int b32 p_int) (fp_lit b32 0.1))
               (fp_div b64 M_PI (fp_lit b64 180))),
           st_vel := fp_conv b32 (fp_mul b64
               (fp_mul b32 (fp_of_int b32 v_int) (fp_of_int b32 10))
               (fp_div b64 (fp_mul b64 (fp_of_int b64 2) M_PI)
                  (fp_mul b64
                     (fp_of_int b64 (uint (numer_of_pole_pairs cfg) * uint (gear_ratio cfg)))
                     (fp_lit b64 60)))),
           st_torque := fp_conv b32 (fp_mul b64
               (fp_mul b32 (fp_of_int b32 i_int) (fp_lit b32 0.01))
               (torque_constant cfg)),
           st_temp := fp_of_int b32 temp_int,
           device_status := error_code\<rparr>)"

definition decode_v2 :: "joint_config \<Rightarrow> can_data \<Rightarrow> joint_state \<Rightarrow> joint_state" where
  "decode_v2 cfg d st =
     (let p_int = to_u16 (push_bit 8 (promote (d1 d)) OR promote (d2 d));
          v_int = to_u16 (push_bit 4 (promote (d3 d)) OR drop_bit 4 (promote (d4 d)));
          i_int = to_u16 (push_bit 8 (promote (d4 d) AND 0xF) OR promote (d5 d));
          temp_int = d6 d;
          error_code = error_code_of_byte (d7 d)
      in st\<lparr>st_pos :=
             uint_to_float (uint p_int) (fp_conv b32 (P_MIN cfg)) (fp_conv b32 (P_MAX cfg)) 16,
           st_vel :=
             uint_to_float (uint v_int) (fp_conv b32 (V_MIN cfg)) (fp_conv b32 (V_MAX cfg)) 12,
           st_torque :=
             uint_to_float (uint i_int) (fp_conv b32 (I_MIN cfg)) (fp_conv b32 (I_MAX cfg)) 12,
           st_temp := fp_of_int b32 (uint temp_int - 40),
           device_status := error_code\<rparr>)"

text \<open>The sign convention of an inverted joint, applied after decoding.\<close>

definition apply_invert :: "joint_config \<Rightarrow> joint_state \<Rightarrow> joint_state" where
  "apply_invert cfg st =
     (if invert cfg
      then st\<lparr>st_pos := fp_neg (st_pos st), st_vel := fp_neg (st_vel st),
              st_torque := fp_neg (st_torque st)\<rparr>
      else st)"

section \<open>Facts on commands\<close>

text \<open>A configuration whose five ranges are proper.\<close>

definition config_ok :: "joint_config \<Rightarrow> bool" where
  "config_ok cfg \<longleftrightarrow>
     limits_ok (P_MIN cfg) (P_MAX cfg) \<and> limits_ok (V_MIN cfg) (V_MAX cfg) \<and>
     limits_ok (I_MIN cfg) (I_MAX cfg) \<and> limits_ok (KP_MIN cfg) (KP_MAX cfg) \<and>
     limits_ok (KD_MIN cfg) (KD_MAX cfg)"

lemma uint_12_bits: "uint (w :: u16) < 2 ^ 12 \<Longrightarrow> w < 0x1000"
  by (simp add: word_less_def)

lemma motor_table_ok:
  "(nm, cfg) \<in> set joint_config_per_motor_type \<Longrightarrow> config_ok cfg"
  unfolding joint_config_per_motor_type_def
  by (auto simp: config_ok_def motor_limits_def intro!: range_ok_literals)

section \<open>Properties\<close>

text \<open>
  C19. Every command of a joint with proper limits is encoded, and the frame says what was asked
  for: read back with the bit layout of the joint's series, the five fields are the clamped and
  scaled position, velocity, gains and torque, sign-corrected when the joint is inverted.
\<close>

theorem command_data_fields:
  assumes "config_ok cfg"
  defines "s \<equiv> (\<lambda>x. if invert cfg then fp_neg x else x)"
    and "field \<equiv> (\<lambda>lo x hi bits. word_of_int \<lfloor>field_value lo x hi bits\<rfloor> :: u16)"
  shows "\<exists>x. command_data cfg cmd = Some x \<and>
    (case series_type cfg of V2 \<Rightarrow> fields_v2 | V3 \<Rightarrow> fields_v3) x =
      (field (P_MIN cfg) (s (cmd_pos cmd)) (P_MAX cfg) 16, field (V_MIN cfg) (s (cmd_vel cmd)) (V_MAX cfg) 12,
       field (KP_MIN cfg) (cmd_kp cmd) (KP_MAX cfg) 12, field (KD_MIN cfg) (cmd_kd cmd) (KD_MAX cfg) 12,
       field (I_MIN cfg) (s (cmd_torque cmd)) (I_MAX cfg) 12)"
proof -
  have c: "command_field lo x hi b = Some (field lo x hi b)" "b = 12 \<Longrightarrow> field lo x hi b < 0x1000"
    if "limits_ok lo hi" "b = 12 \<or> b = 16" for lo x hi b
    using command_field_eq [OF that(1), of b x] that(2) by (auto simp: field_def uint_12_bits)
  note l = assms(1) [unfolded config_ok_def]
  have "fits12 (p, field (V_MIN cfg) v (V_MAX cfg) 12, field (KP_MIN cfg) k (KP_MAX cfg) 12,
      field (KD_MIN cfg) d (KD_MAX cfg) 12, field (I_MIN cfg) i (I_MAX cfg) 12)" for p v k d i
    using l by (simp add: fits12_def c)
  then show ?thesis
    using l c(1) by (auto simp: command_data_def Let_def s_def v2.fields_pack v3.fields_pack split: SERIES_TYPE.split)
qed

theorem command_data_fields_witness:
  "\<exists>x. command_data (snd (joint_config_per_motor_type ! 0))
      \<lparr>cmd_pos = NaN, cmd_vel = Inf False, cmd_torque = NegZero, cmd_kp = Fin 1, cmd_kd = Fin 1\<rparr> = Some x"
proof -
  have "config_ok (snd (joint_config_per_motor_type ! 0))"
    by (rule motor_table_ok [of "fst (joint_config_per_motor_type ! 0)"])
      (simp add: joint_config_per_motor_type_def)
  from command_data_fields [OF this] show ?thesis by blast
qed

lemma limits_25_2 [simp]:
  "fp_conv b32 (fp_lit b64 (25 / 2)) = Fin (25 / 2)" "fp_conv b32 (fp_lit b64 (- (25 / 2))) = Fin (- (25 / 2))"
proof -
  have r: "representable F (25 / 2)" "representable F (- (25 / 2))" if "F = b32 \<or> F = b64" for F
    using that by (auto intro: representableI [of _ 25 "-1"] representableI [of _ "-25" "-1"])
  have "fp_lit b32 (25 / 2) = Fin (25 / 2)" "fp_lit b32 (- (25 / 2)) = Fin (- (25 / 2))"
    "fp_lit b64 (25 / 2) = Fin (25 / 2)" "fp_lit b64 (- (25 / 2)) = Fin (- (25 / 2))"
    using r by (auto intro!: f32.fp_lit_exact f64.fp_lit_exact)
  then show "fp_conv b32 (fp_lit b64 (25 / 2)) = Fin (25 / 2)"
    "fp_conv b32 (fp_lit b64 (- (25 / 2))) = Fin (- (25 / 2))"
    by (simp_all add: fp_lit_def)
qed

lemma limits_25_2_ok: "limits_ok (fp_lit b64 (- (25 / 2))) (fp_lit b64 (25 / 2))"
  by (rule range_ok_literals) simp_all

text \<open>
  C18. Precision: a value inside its range is sent as a field from which the motor's formula
  recovers it to within one and a quarter steps of the field, although every operation on the
  way rounds to single precision. A step is the range divided by the largest field value.
\<close>

theorem command_roundtrip:
  assumes "limits_ok lo hi" and "1 \<le> bits" and "bits \<le> 16"
    and "is_fin x" and "fval (fp_conv b32 lo) \<le> fval x" and "fval x \<le> fval (fp_conv b32 hi)"
    and "\<bar>fval (fp_conv b32 lo)\<bar> \<le> fval (fp_conv b32 hi) - fval (fp_conv b32 lo)"
  shows "\<exists>n. command_field lo x hi bits = Some n \<and>
    \<bar>fval (uint_to_float (uint n) (fp_conv b32 lo) (fp_conv b32 hi) bits) - fval x\<bar>
      \<le> 5 / 4 * ((fval (fp_conv b32 hi) - fval (fp_conv b32 lo)) / (2 ^ bits - 1))"
  using command_field_roundtrip [OF assms] by metis

theorem command_roundtrip_witness:
  "\<exists>n. command_field (fp_lit b64 (- (25 / 2))) (Fin 1) (fp_lit b64 (25 / 2)) 16 = Some n \<and>
    \<bar>fval (uint_to_float (uint n) (Fin (- (25 / 2))) (Fin (25 / 2)) 16) - 1\<bar> \<le> 5 / 4 * (25 / 65535)"
  using command_roundtrip [OF limits_25_2_ok, of 16 "Fin 1"] by simp

text \<open>
  Order: a larger command never becomes a smaller field, whatever the rounding does and
  also outside the range.
\<close>

theorem command_order:
  assumes "limits_ok lo hi" and "1 \<le> bits" and "bits \<le> 16" and "fp_le x y"
  shows "\<exists>m n. command_field lo x hi bits = Some m \<and> command_field lo y hi bits = Some n \<and> m \<le> n"
  using command_field_eq(1) [OF assms(1-3)] command_field_mono [OF assms] by blast

theorem command_order_witness:
  "\<exists>m n. command_field (fp_lit b64 (- (25 / 2))) (Fin 1) (fp_lit b64 (25 / 2)) 12 = Some m \<and>
    command_field (fp_lit b64 (- (25 / 2))) (Inf False) (fp_lit b64 (25 / 2)) 12 = Some n \<and> m \<le> n"
  using command_order [OF limits_25_2_ok, of 12 "Fin 1" "Inf False"] by (simp add: fp_le_def fp_lt_def)

text \<open>
  A command that is NaN is sent as field zero, the lower end of the range: the clamp prefers
  the limit to a NaN operand. For position, velocity and torque that is the most negative value.
\<close>

theorem nan_is_sent_as_lower_limit:
  assumes "limits_ok lo hi" and "1 \<le> bits" and "bits \<le> 16"
  shows "command_field lo NaN hi bits = Some 0"
proof -
  have r: "range_ok (fp_conv b32 lo) (fp_conv b32 hi)" using assms(1) by (simp add: limits_ok_def)
  have "field_value lo NaN hi bits = 0"
    using clampf_nan [OF range_okD [OF r]] by (simp add: field_value_def scaled_def)
  then show ?thesis using command_field_eq(1) [OF assms, of NaN] by simp
qed

theorem nan_is_sent_as_lower_limit_witness:
  "command_field (fp_lit b64 (- (25 / 2))) NaN (fp_lit b64 (25 / 2)) 16 = Some 0"
  by (rule nan_is_sent_as_lower_limit [OF limits_25_2_ok]) simp_all

text \<open>
  Every entry of the table of motor types has proper limits: five ranges of finite floats,
  not too narrow and not too wide for the scaling.
\<close>

theorem motor_types_have_proper_limits:
  "list_all (\<lambda>(name, cfg). config_ok cfg) joint_config_per_motor_type"
  using motor_table_ok by (auto simp: list_all_iff)

end
