(* ===== verification/CanControl.thy ===== *)
theory CanControl
  imports CanSetup Codec
begin

text \<open>
  The control operations of \<open>CubemarsCan\<close>: a control frame with its reply for each series, the
  start of the motor control mode with the retries of the V3 series, the end of the mode, and
  both over all joints.
\<close>

section \<open>Sequencing calls that may throw\<close>

type_synonym call = "driver \<Rightarrow> (exn, unit) outcome \<times> driver"

definition returns :: call where "returns d = (Ok (), d)"

definition throws :: "exn \<Rightarrow> call" where "throws e d = (Throw e, d)"

definition seq :: "call \<Rightarrow> call \<Rightarrow> call" where
  "seq a b d = (case a d of (Ok _, d') \<Rightarrow> b d' | (Throw e, d') \<Rightarrow> (Throw e, d') | (UB, d') \<Rightarrow> (UB, d'))"

text \<open>A loop over indices: the first exception leaves it.\<close>

fun for_each :: "('i \<Rightarrow> call) \<Rightarrow> 'i list \<Rightarrow> call" where
  "for_each f [] d = returns d"
| "for_each f (i # is) d = seq (f i) (for_each f is) d"

section \<open>Control frames\<close>

text \<open>\<open>std::copy\<close> of a control sequence: the bytes beyond its end keep their old values.\<close>

definition copy_bytes :: "u8 list \<Rightarrow> can_data \<Rightarrow> can_data" where
  "copy_bytes xs d =
     (let b = (\<lambda>i old. if i < length xs then xs ! i else old)
      in Data (b 0 (d0 d)) (b 1 (d1 d)) (b 2 (d2 d)) (b 3 (d3 d))
              (b 4 (d4 d)) (b 5 (d5 d)) (b 6 (d6 d)) (b 7 (d7 d)))"

text \<open>The number of bytes \<open>read\<close> returned; a failed call leaves the zeroed buffer.\<close>

definition read_frame :: "driver \<Rightarrow> int \<times> driver" where
  "read_frame d =
     (let (r, s) = sys_recv (socket d)
      in case r of
           Rx_Fail e \<Rightarrow> (-1, d\<lparr>socket := s\<rparr>)
         | Rx_Msg n f cs \<Rightarrow> (int n, d\<lparr>socket := s, recv_frame := f\<rparr>))"

text \<open>
  The second half of both functions: one frame is read and has to be the motor's, without a
  fault. \<open>reply_id\<close> is where the series carries the motor's id.
\<close>

definition await_reply :: "(can_frame \<Rightarrow> u32) \<Rightarrow> u32 \<Rightarrow> call" where
  "await_reply reply_id cid d =
     (let d = d\<lparr>recv_frame := zero_frame\<rparr>;
          (nbytes, d) = read_frame d
      in if nbytes \<le> 0 then (Throw can_device_error, d)
         else let ident = reply_id (recv_frame d)
         in if ident \<noteq> cid then (Throw can_device_error, d)
            else let err_code = error_code_of_byte (d7 (frame_data (recv_frame d)))
            in if err_code \<noteq> NO_FAULT then (Throw (motor_error err_code), d)
               else (Ok (), d))"

definition reply_id_v2 :: "can_frame \<Rightarrow> u32" where
  "reply_id_v2 f = ucast (d0 (frame_data f))"

definition reply_id_v3 :: "can_frame \<Rightarrow> u32" where
  "reply_id_v3 f = frame_id f AND 0xFF"

definition send_control_frameV2 :: "u32 \<Rightarrow> can_data \<Rightarrow> call" where
  "send_control_frameV2 cid control_sequence d =
     (let d = d\<lparr>send_frame := (send_frame d)\<lparr>frame_id := cid, frame_data := control_sequence\<rparr>\<rparr>;
          (ok, s) = sys_write (send_frame d) (socket d);
          d = d\<lparr>socket := s\<rparr>
      in if \<not> ok then (Throw can_device_error, d)
         else await_reply reply_id_v2 cid d)"

definition send_control_frameV3 :: "u32 \<Rightarrow> CAN_PACKET_ID \<Rightarrow> u8 list \<Rightarrow> call" where
  "send_control_frameV3 cid mode_id control_sequence d =
     (let f = \<lparr>frame_id = v3_frame_id cid mode_id,
               frame_len = of_nat (length control_sequence),
               frame_data = copy_bytes control_sequence (frame_data (send_frame d))\<rparr>;
          (ok, s) = sys_write f (socket d);
          d = d\<lparr>socket := s, send_frame := f\<lparr>frame_len := CAN_MAX_DLEN\<rparr>\<rparr>
      in if \<not> ok then (Throw can_device_error, d)
         else await_reply reply_id_v3 cid d)"

section \<open>Starting and ending the motor control mode\<close>

definition zero_current :: "u32 \<Rightarrow> call" where
  "zero_current cid = send_control_frameV3 cid CAN_PACKET_SET_CURRENT [0x00, 0x00, 0x00, 0x00]"

text \<open>The retry loop: \<open>n\<close> trials are left; only a \<open>can_device_error\<close> is caught.\<close>

fun retry :: "call \<Rightarrow> nat \<Rightarrow> call" where
  "retry send 0 d = (Throw can_device_error, d)"
| "retry send (Suc n) d =
     (case send d of
        (Throw can_device_error, d') \<Rightarrow> retry send n d'
      | r \<Rightarrow> r)"

definition set_timeout :: "int \<times> int \<Rightarrow> call" where
  "set_timeout tv d =
     (let (ok, s) = sys_set_rcvtimeo tv (socket d); d = d\<lparr>socket := s\<rparr>
      in if ok then (Ok (), d) else (Throw can_interface_error, d))"

definition set_origin :: "joint_config \<Rightarrow> call" where
  "set_origin cfg =
     (case series_type cfg of
        V2 \<Rightarrow> send_control_frameV2 (can_id cfg) SET_ZERO_POSITION
      | V3 \<Rightarrow> send_control_frameV3 (can_id cfg) CAN_PACKET_SET_ORIGIN_HERE [0x1])"

definition enable :: "joint_config \<Rightarrow> call" where
  "enable cfg =
     (case series_type cfg of
        V2 \<Rightarrow> send_control_frameV2 (can_id cfg) START_MOTOR_CONTROL_MODE
      | V3 \<Rightarrow> zero_current (can_id cfg))"

definition disable :: "joint_config \<Rightarrow> call" where
  "disable cfg =
     (case series_type cfg of
        V2 \<Rightarrow> send_control_frameV2 (can_id cfg) EXIT_MOTOR_CONTROL_MODE
      | V3 \<Rightarrow> zero_current (can_id cfg))"

definition start_motor_control_mode :: "nat \<Rightarrow> bool \<Rightarrow> call" where
  "start_motor_control_mode joint_id set_zero d =
     (if length (joint_configs d) \<le> joint_id then (Throw range_error, d)
      else let cfg = joint_configs d ! joint_id
      in seq (if series_type cfg = V3
              then retry (zero_current (can_id cfg)) (unat (max_initial_connection_trials d))
              else returns)
          (seq (if set_zero then seq (set_timeout (10, 0)) (set_origin cfg) else returns)
            (seq (enable cfg)
              (if set_zero then set_timeout (socket_timeout d) else returns))) d)"

definition end_motor_control_mode :: "nat \<Rightarrow> call" where
  "end_motor_control_mode joint_id d =
     (if length (joint_configs d) \<le> joint_id then (Throw range_error, d)
      else disable (joint_configs d ! joint_id) d)"

text \<open>The overloads without a joint.\<close>

definition start_all :: "bool \<Rightarrow> call" where
  "start_all set_zero d =
     for_each (\<lambda>i. start_motor_control_mode i set_zero) [0..<length (joint_configs d)] d"

definition end_all :: call where
  "end_all d = for_each end_motor_control_mode [0..<length (joint_configs d)] d"

section \<open>What a control frame promises\<close>

text \<open>
  Between operations the send buffer has its full length, which is what the V2 frames rely on;
  the other parts are those no control operation changes.
\<close>

definition ready :: "driver \<Rightarrow> bool" where
  "ready d \<longleftrightarrow> frame_len (send_frame d) = CAN_MAX_DLEN"

definition same_setup :: "driver \<Rightarrow> driver \<Rightarrow> bool" where
  "same_setup d d' \<longleftrightarrow>
     joint_configs d' = joint_configs d \<and> socket_timeout d' = socket_timeout d \<and>
     max_initial_connection_trials d' = max_initial_connection_trials d \<and>
     send_ok d' = send_ok d \<and> recv_ok d' = recv_ok d \<and>
     (ready d \<longrightarrow> ready d') \<and>
     wr_errno (socket d') = wr_errno (socket d) \<and> opt_ok (socket d') = opt_ok (socket d)"

definition writes :: "driver \<Rightarrow> bool" where
  "writes d \<longleftrightarrow> wr_errno (socket d) (wr_calls (socket d)) = 0"

abbreviation link_up :: "driver \<Rightarrow> bool" where
  "link_up d \<equiv> \<forall>k. wr_errno (socket d) k = 0"

lemma same_setup_refl [simp]: "same_setup d d"
  by (simp add: same_setup_def)

lemma same_setup_trans [trans]: "same_setup a b \<Longrightarrow> same_setup b c \<Longrightarrow> same_setup a c"
  by (simp add: same_setup_def)

lemma same_setup_ready: "same_setup d d' \<Longrightarrow> ready d \<Longrightarrow> ready d'"
  by (simp add: same_setup_def)

text \<open>
  The abstract result of a control frame: a verdict on the next frame the socket delivers.
\<close>

definition verdict :: "(can_frame \<Rightarrow> u32) \<Rightarrow> u32 \<Rightarrow> rx_outcome list \<Rightarrow> (exn, unit) outcome" where
  "verdict reply_id cid q =
     (case q of
        Rx_Msg (Suc n) f cs # rs \<Rightarrow>
          (if reply_id f \<noteq> cid then Throw can_device_error
           else if d7 (frame_data f) \<noteq> 0
                then Throw (motor_error (error_code_of_byte (d7 (frame_data f))))
           else Ok ())
      | _ \<Rightarrow> Throw can_device_error)"

definition v2_request :: "u32 \<Rightarrow> can_data \<Rightarrow> can_frame \<Rightarrow> bool" where
  "v2_request cid data f \<longleftrightarrow> f = \<lparr>frame_id = cid, frame_len = 8, frame_data = data\<rparr>"

fun data_bytes :: "can_data \<Rightarrow> u8 list" where
  "data_bytes (Data a b c d e f g h) = [a, b, c, d, e, f, g, h]"

definition v3_request :: "u32 \<Rightarrow> CAN_PACKET_ID \<Rightarrow> u8 list \<Rightarrow> can_frame \<Rightarrow> bool" where
  "v3_request cid pkt bs f \<longleftrightarrow>
     frame_id f = v3_frame_id cid pkt \<and> frame_len f = of_nat (length bs) \<and>
     take (length bs) (data_bytes (frame_data f)) = bs"

text \<open>
  The interface of a control channel. One attempt writes one request, consumes one frame when
  the write succeeds, and its result is the verdict on that frame.
\<close>

locale control_channel =
  fixes send :: call
    and is_request :: "can_frame \<Rightarrow> bool"
    and judge :: "rx_outcome list \<Rightarrow> (exn, unit) outcome"
  assumes judge_nil: "judge [] = Throw can_device_error"
    and send_result: "fst (send d) = (if writes d then judge (rx_queue (socket d)) else Throw can_device_error)"
    and send_queue: "rx_queue (socket (snd (send d))) = (if writes d then tl (rx_queue (socket d)) else rx_queue (socket d))"
    and send_calls: "wr_calls (socket (snd (send d))) = Suc (wr_calls (socket d))"
    and send_sent: "ready d \<Longrightarrow> writes d \<Longrightarrow> \<exists>f. is_request f \<and> sent (socket (snd (send d))) = sent (socket d) @ [f]"
    and send_unsent: "\<not> writes d \<Longrightarrow> sent (socket (snd (send d))) = sent (socket d)"
    and send_setup: "same_setup d (snd (send d))"
    and send_timeout: "rcvtimeo (socket (snd (send d))) = rcvtimeo (socket d)"
      "opt_calls (socket (snd (send d))) = opt_calls (socket d)"
begin

lemma send_writes_again:
  "link_up d \<Longrightarrow> writes d \<and> link_up (snd (send d))"
  using send_setup [of d] by (simp add: writes_def same_setup_def)

lemma send_ok:
  assumes "send d = (Ok (), d')" and "ready d"
  shows "\<exists>f. is_request f \<and> sent (socket d') = sent (socket d) @ [f]"
    and "judge (rx_queue (socket d)) = Ok ()"
  using send_result [of d] send_sent [of d] assms by (auto split: if_splits)

lemma retry_setup:
  "same_setup d (snd (retry send n d)) \<and>
   rcvtimeo (socket (snd (retry send n d))) = rcvtimeo (socket d) \<and>
   opt_calls (socket (snd (retry send n d))) = opt_calls (socket d)"
proof (induction n arbitrary: d)
  case (Suc n)
  obtain r d1 where s: "send d = (r, d1)" by force
  have 1: "same_setup d d1" "rcvtimeo (socket d1) = rcvtimeo (socket d)"
    "opt_calls (socket d1) = opt_calls (socket d)"
    using send_setup [of d] send_timeout [of d] s by simp_all
  show ?case using 1 Suc.IH [of d1] s
    by (auto split: outcome.splits exn.splits intro: same_setup_trans)
qed simp

text \<open>Every frame a retry loop writes is the request, and there are at most \<open>n\<close>.\<close>

lemma retry_sent:
  assumes "ready d"
  shows "\<exists>fs. sent (socket (snd (retry send n d))) = sent (socket d) @ fs \<and>
           (\<forall>f\<in>set fs. is_request f) \<and> length fs \<le> n \<and>
           (fst (retry send n d) = Ok () \<longrightarrow> fs \<noteq> [])"
  using assms
proof (induction n arbitrary: d)
  case (Suc n)
  obtain r d1 where s: "send d = (r, d1)" by force
  have rd: "ready d1" using send_setup [of d] s same_setup_ready Suc.prems by fastforce
  obtain gs where g: "sent (socket d1) = sent (socket d) @ gs" "\<forall>f\<in>set gs. is_request f"
    "length gs \<le> 1" "r = Ok () \<longrightarrow> gs \<noteq> []"
  proof (cases "writes d")
    case True
    then obtain f where "is_request f" "sent (socket d1) = sent (socket d) @ [f]"
      using send_sent [OF Suc.prems] s by auto
    then show thesis by (intro that [of "[f]"]) auto
  next
    case False
    then show thesis using send_unsent [of d] send_result [of d] s by (intro that [of "[]"]) auto
  qed
  show ?case
  proof (cases "r = Throw can_device_error")
    case True
    obtain fs where "sent (socket (snd (retry send n d1))) = sent (socket d1) @ fs"
      "\<forall>f\<in>set fs. is_request f" "length fs \<le> n" "fst (retry send n d1) = Ok () \<longrightarrow> fs \<noteq> []"
      using Suc.IH [OF rd] by blast
    then show ?thesis using True s g by (intro exI [of _ "gs @ fs"]) auto
  next
    case False
    then have "retry send (Suc n) d = (r, d1)" using s by (auto split: outcome.splits exn.splits)
    then show ?thesis using g by (intro exI [of _ gs]) auto
  qed
qed simp

text \<open>
  The loop decides on the first frame that is not a device error: the \<open>k\<close> attempts before it
  are absorbed, exactly \<open>k + 1\<close> requests and frames are used.
\<close>

lemma retry_decides:
  assumes "ready d" and "link_up d" and "k < n"
    and "\<forall>i<k. judge (drop i (rx_queue (socket d))) = Throw can_device_error"
    and "judge (drop k (rx_queue (socket d))) = v" and "v \<noteq> Throw can_device_error"
  shows "fst (retry send n d) = v \<and>
         length (sent (socket (snd (retry send n d)))) = length (sent (socket d)) + Suc k \<and>
         rx_queue (socket (snd (retry send n d))) = drop (Suc k) (rx_queue (socket d))"
  using assms
proof (induction k arbitrary: d n)
  case (0 d n)
  then obtain m where n: "n = Suc m" by (cases n) auto
  obtain r d1 where s: "send d = (r, d1)" by force
  have w: "writes d" using send_writes_again 0 by blast
  then have "r = v" using send_result [of d] s 0 by simp
  with 0 s have "retry send n d = (v, d1)"
    by (auto simp: n split: outcome.splits exn.splits)
  then show ?case
    using send_sent [OF 0(1) w] send_queue [of d] s w by (auto simp: drop_Suc)
next
  case (Suc k d n)
  then obtain m where n: "n = Suc m" by (cases n) auto
  obtain r d1 where s: "send d = (r, d1)" by force
  have w: "writes d" and w1: "link_up d1"
    using send_writes_again [OF Suc.prems(2)] s by auto
  have "r = Throw can_device_error" using send_result [of d] s w Suc.prems(4) by auto
  then have rt: "retry send n d = retry send m d1" using s n by simp
  have q: "rx_queue (socket d1) = drop 1 (rx_queue (socket d))"
    using send_queue [of d] s w by (simp add: drop_Suc)
  have rd: "ready d1" using send_setup [of d] s same_setup_ready Suc.prems(1) by fastforce
  have "fst (retry send m d1) = v \<and>
         length (sent (socket (snd (retry send m d1)))) = length (sent (socket d1)) + Suc k \<and>
         rx_queue (socket (snd (retry send m d1))) = drop (Suc k) (rx_queue (socket d1))"
    using Suc.prems n by (intro Suc.IH [OF rd w1]) (auto simp: q)
  moreover obtain f where "sent (socket d1) = sent (socket d) @ [f]"
    using send_sent [OF Suc.prems(1) w] s by auto
  ultimately show ?case by (simp add: rt q)
qed

text \<open>When no attempt succeeds, all \<open>n\<close> requests are written and the loop gives up.\<close>

lemma retry_exhausted:
  assumes "ready d" and "link_up d"
    and "\<forall>i<n. judge (drop i (rx_queue (socket d))) = Throw can_device_error"
  shows "fst (retry send n d) = Throw can_device_error \<and>
         length (sent (socket (snd (retry send n d)))) = length (sent (socket d)) + n"
  using assms
proof (induction n arbitrary: d)
  case (Suc n)
  obtain r d1 where s: "send d = (r, d1)" by force
  have w: "writes d" and w1: "link_up d1"
    using send_writes_again [OF Suc.prems(2)] s by auto
  have "r = Throw can_device_error" using send_result [of d] s w Suc.prems(3) by auto
  then have rt: "retry send (Suc n) d = retry send n d1" using s by simp
  have q: "rx_queue (socket d1) = drop 1 (rx_queue (socket d))"
    using send_queue [of d] s w by (simp add: drop_Suc)
  have rd: "ready d1" using send_setup [of d] s same_setup_ready Suc.prems(1) by fastforce
  have "fst (retry send n d1) = Throw can_device_error \<and>
         length (sent (socket (snd (retry send n d1)))) = length (sent (socket d1)) + n"
    using Suc.prems by (intro Suc.IH [OF rd w1]) (auto simp: q)
  moreover obtain f where "sent (socket d1) = sent (socket d) @ [f]"
    using send_sent [OF Suc.prems(1) w] s by auto
  ultimately show ?case by (simp add: rt del: retry.simps)
qed simp

end

text \<open>
  The abstract result of a loop over channels: the first verdict that is not a success, and how
  many requests it took.
\<close>

fun first_failure ::
  "('i \<Rightarrow> rx_outcome list \<Rightarrow> (exn, unit) outcome) \<Rightarrow> 'i list \<Rightarrow> rx_outcome list
     \<Rightarrow> (exn, unit) outcome \<times> nat" where
  "first_failure judge [] q = (Ok (), 0)"
| "first_failure judge (i # is) q =
     (case judge i q of
        Ok _ \<Rightarrow> (case first_failure judge is (tl q) of (r, n) \<Rightarrow> (r, Suc n))
      | r \<Rightarrow> (r, 1))"

section \<open>Both series are control channels\<close>

lemma await_reply_spec:
  "fst (await_reply rid cid d) = verdict rid cid (rx_queue (socket d))"
  "rx_queue (socket (snd (await_reply rid cid d))) = tl (rx_queue (socket d))"
  "same_setup d (snd (await_reply rid cid d))"
  "sent (socket (snd (await_reply rid cid d))) = sent (socket d)"
  "wr_calls (socket (snd (await_reply rid cid d))) = wr_calls (socket d)"
  "rcvtimeo (socket (snd (await_reply rid cid d))) = rcvtimeo (socket d)"
  "opt_calls (socket (snd (await_reply rid cid d))) = opt_calls (socket d)"
  by (auto simp: await_reply_def read_frame_def verdict_def same_setup_def ready_def sys_recv_def Let_def
      split: list.splits rx_outcome.splits nat.splits if_splits prod.splits)

lemma take_copy_bytes:
  assumes "length xs \<le> 8"
  shows "take (length xs) (data_bytes (copy_bytes xs d)) = xs"
proof (rule nth_equalityI)
  show "length (take (length xs) (data_bytes (copy_bytes xs d))) = length xs"
    using assms by (simp add: copy_bytes_def Let_def)
  fix i assume i: "i < length (take (length xs) (data_bytes (copy_bytes xs d)))"
  then have "i < length xs" "i < 8" using assms by auto
  then show "take (length xs) (data_bytes (copy_bytes xs d)) ! i = xs ! i"
    by (auto simp: copy_bytes_def Let_def nth_Cons' numeral_eq_Suc less_Suc_eq)
qed

lemma send_control_frameV2_steps:
  "send_control_frameV2 cid data d =
     (let d1 = d\<lparr>send_frame := (send_frame d)\<lparr>frame_id := cid, frame_data := data\<rparr>,
                socket := snd (sys_write ((send_frame d)\<lparr>frame_id := cid, frame_data := data\<rparr>) (socket d))\<rparr>
      in if writes d then await_reply reply_id_v2 cid d1 else (Throw can_device_error, d1))"
  by (simp add: send_control_frameV2_def Let_def case_prod_beta writes_def sys_write_sent)

lemma send_control_frameV3_steps:
  "send_control_frameV3 cid pkt bs d =
     (let f = \<lparr>frame_id = v3_frame_id cid pkt, frame_len = of_nat (length bs),
               frame_data = copy_bytes bs (frame_data (send_frame d))\<rparr>;
          d1 = d\<lparr>socket := snd (sys_write f (socket d)), send_frame := f\<lparr>frame_len := CAN_MAX_DLEN\<rparr>\<rparr>
      in if writes d then await_reply reply_id_v3 cid d1 else (Throw can_device_error, d1))"
  by (simp add: send_control_frameV3_def Let_def case_prod_beta writes_def sys_write_sent)

interpretation v2_channel: control_channel
  "send_control_frameV2 cid data" "v2_request cid data" "verdict reply_id_v2 cid" for cid data
  by unfold_locales
    (auto simp: send_control_frameV2_steps Let_def await_reply_spec frame_facts sys_write_sent
      writes_def ready_def v2_request_def verdict_def same_setup_def can_const_defs
      await_reply_spec(3) [unfolded same_setup_def ready_def])

lemma v3_control_channel:
  assumes "length bs \<le> 8"
  shows "control_channel (send_control_frameV3 cid pkt bs) (v3_request cid pkt bs) (verdict reply_id_v3 cid)"
  using assms
  by unfold_locales
    (auto simp: send_control_frameV3_steps Let_def await_reply_spec frame_facts sys_write_sent
      writes_def ready_def v3_request_def verdict_def same_setup_def can_const_defs
      take_copy_bytes await_reply_spec(3) [unfolded same_setup_def ready_def])

interpretation idle: control_channel
  "zero_current cid" "v3_request cid CAN_PACKET_SET_CURRENT [0, 0, 0, 0]" "verdict reply_id_v3 cid" for cid
  unfolding zero_current_def by (rule v3_control_channel) simp

text \<open>The requests and the verdict of a joint, by its series.\<close>

definition origin_request :: "joint_config \<Rightarrow> can_frame \<Rightarrow> bool" where
  "origin_request cfg =
     (case series_type cfg of V2 \<Rightarrow> v2_request (can_id cfg) SET_ZERO_POSITION
      | V3 \<Rightarrow> v3_request (can_id cfg) CAN_PACKET_SET_ORIGIN_HERE [1])"

definition enable_request :: "joint_config \<Rightarrow> can_frame \<Rightarrow> bool" where
  "enable_request cfg =
     (case series_type cfg of V2 \<Rightarrow> v2_request (can_id cfg) START_MOTOR_CONTROL_MODE
      | V3 \<Rightarrow> v3_request (can_id cfg) CAN_PACKET_SET_CURRENT [0, 0, 0, 0])"

definition disable_request :: "joint_config \<Rightarrow> can_frame \<Rightarrow> bool" where
  "disable_request cfg =
     (case series_type cfg of V2 \<Rightarrow> v2_request (can_id cfg) EXIT_MOTOR_CONTROL_MODE
      | V3 \<Rightarrow> v3_request (can_id cfg) CAN_PACKET_SET_CURRENT [0, 0, 0, 0])"

definition joint_verdict :: "joint_config \<Rightarrow> rx_outcome list \<Rightarrow> (exn, unit) outcome" where
  "joint_verdict cfg =
     verdict (case series_type cfg of V2 \<Rightarrow> reply_id_v2 | V3 \<Rightarrow> reply_id_v3) (can_id cfg)"

text \<open>A family of channels, one for each index.\<close>

locale channel_family =
  fixes send :: "'i \<Rightarrow> call"
    and is_request :: "'i \<Rightarrow> can_frame \<Rightarrow> bool"
    and judge :: "'i \<Rightarrow> rx_outcome list \<Rightarrow> (exn, unit) outcome"
  assumes channel: "control_channel (send i) (is_request i) (judge i)"
begin

lemma for_each_result:
  assumes "ready d" and "link_up d"
  shows "fst (for_each send is d) = fst (first_failure judge is (rx_queue (socket d))) \<and>
    (\<exists>fs. sent (socket (snd (for_each send is d))) = sent (socket d) @ fs \<and>
      list_all2 is_request (take (snd (first_failure judge is (rx_queue (socket d)))) is) fs)"
  using assms
proof (induction "is" arbitrary: d)
  case (Cons i "is")
  note laws = control_channel.send_result [OF channel, of i d] control_channel.send_queue [OF channel, of i d]
    control_channel.send_sent [OF channel Cons.prems(1), of i]
    control_channel.send_writes_again [OF channel Cons.prems(2), of i]
  obtain r d1 where s: "send i d = (r, d1)" by force
  have 1: "r = judge i (rx_queue (socket d))" "rx_queue (socket d1) = tl (rx_queue (socket d))" "link_up d1"
    using laws s by auto
  obtain f where f: "is_request i f" "sent (socket d1) = sent (socket d) @ [f]" using laws s by auto
  have rd: "ready d1"
    using control_channel.send_setup [OF channel, of d i] s same_setup_ready [OF _ Cons.prems(1), of d1] by simp
  show ?case
  proof (cases r)
    case (Ok u)
    from Cons.IH [OF rd 1(3)] obtain fs where
      "fst (for_each send is d1) = fst (first_failure judge is (rx_queue (socket d1)))"
      "sent (socket (snd (for_each send is d1))) = sent (socket d1) @ fs"
      "list_all2 is_request (take (snd (first_failure judge is (rx_queue (socket d1)))) is) fs" by blast
    then show ?thesis using Ok s f 1
      by (intro conjI exI [of _ "f # fs"]) (auto simp: seq_def split: prod.splits)
  qed (use s f 1 in \<open>auto simp: seq_def intro!: exI [of _ "[f]"]\<close>)
qed (simp add: returns_def)

text \<open>When every call is made whatever became of the others, every request is written.\<close>

lemma all_asked:
  assumes "ready d" and "link_up d"
  shows "same_setup d (fold (\<lambda>i d. snd (send i d)) is d) \<and>
    (\<exists>fs. sent (socket (fold (\<lambda>i d. snd (send i d)) is d)) = sent (socket d) @ fs \<and> list_all2 is_request is fs)"
  using assms
proof (induction "is" arbitrary: d)
  case (Cons i "is")
  let ?d = "snd (send i d)"
  have s: "same_setup d ?d" by (rule control_channel.send_setup [OF channel])
  have w: "writes d" "link_up ?d" using control_channel.send_writes_again [OF channel Cons.prems(2), of i] by simp_all
  obtain f where f: "is_request i f" "sent (socket ?d) = sent (socket d) @ [f]"
    using control_channel.send_sent [OF channel Cons.prems(1) w(1)] by blast
  from Cons.IH [OF same_setup_ready [OF s Cons.prems(1)] w(2)] f s show ?case
    by (auto intro: same_setup_trans)
qed simp

end

interpretation origin: channel_family set_origin origin_request joint_verdict
  by (rule channel_family.intro)
    (auto simp: set_origin_def origin_request_def joint_verdict_def v3_control_channel
      v2_channel.control_channel_axioms split: SERIES_TYPE.split)

interpretation enabling: channel_family enable enable_request joint_verdict
  by (rule channel_family.intro)
    (auto simp: enable_def enable_request_def joint_verdict_def idle.control_channel_axioms
      v2_channel.control_channel_axioms split: SERIES_TYPE.split)

interpretation disabling: channel_family disable disable_request joint_verdict
  by (rule channel_family.intro)
    (auto simp: disable_def disable_request_def joint_verdict_def idle.control_channel_axioms
      v2_channel.control_channel_axioms split: SERIES_TYPE.split)


section \<open>Starting and ending the mode\<close>

lemma seq_ok_iff: "seq a b d = (Ok (), d') \<longleftrightarrow> (\<exists>d1. a d = (Ok (), d1) \<and> b d1 = (Ok (), d'))"
  by (auto simp: seq_def split: prod.splits outcome.splits)

lemma set_timeout_ok:
  assumes "set_timeout tv d = (Ok (), d')"
  shows "same_setup d d'" and "sent (socket d') = sent (socket d)" and "rcvtimeo (socket d') = tv"
    and "rx_queue (socket d') = rx_queue (socket d)"
  using assms
  by (auto simp: set_timeout_def sys_set_rcvtimeo_def Let_def same_setup_def ready_def split: if_splits)

lemma channel_ok:
  assumes c: "control_channel send req judge" and s: "send d = (Ok (), d')" and r: "ready d"
  shows "same_setup d d'" and "rcvtimeo (socket d') = rcvtimeo (socket d)"
    and "\<exists>f. req f \<and> sent (socket d') = sent (socket d) @ [f]"
  using control_channel.send_setup [OF c, of d] control_channel.send_timeout(1) [OF c, of d]
    control_channel.send_ok(1) [OF c s r] s by simp_all

text \<open>
  The frames of a successful start: the wake-up attempts of a V3 motor, the origin request when
  asked for, the enabling request last.
\<close>

definition start_trace :: "joint_config \<Rightarrow> nat \<Rightarrow> bool \<Rightarrow> can_frame list \<Rightarrow> bool" where
  "start_trace cfg trials set_zero fs \<longleftrightarrow>
     (\<exists>ws os e. fs = ws @ os @ [e] \<and>
       (case series_type cfg of
          V2 \<Rightarrow> ws = []
        | V3 \<Rightarrow> ws \<noteq> [] \<and> length ws \<le> trials \<and>
                (\<forall>f\<in>set ws. v3_request (can_id cfg) CAN_PACKET_SET_CURRENT [0, 0, 0, 0] f)) \<and>
       (if set_zero then \<exists>f. os = [f] \<and> origin_request cfg f else os = []) \<and>
       enable_request cfg e)"

lemma start_joint_ok:
  fixes d d' :: driver and j :: nat
  defines "cfg \<equiv> joint_configs d ! j"
  assumes r: "ready d" and s: "start_motor_control_mode j z d = (Ok (), d')"
  shows "\<exists>fs. sent (socket d') = sent (socket d) @ fs \<and>
           start_trace cfg (unat (max_initial_connection_trials d)) z fs"
    and "rcvtimeo (socket d') = (if z then socket_timeout d else rcvtimeo (socket d))"
    and "same_setup d d'"
proof -
  obtain d1 d2 d3 where
    a: "(if series_type cfg = V3
         then retry (zero_current (can_id cfg)) (unat (max_initial_connection_trials d))
         else returns) d = (Ok (), d1)"
    and b: "(if z then seq (set_timeout (10, 0)) (set_origin cfg) else returns) d1 = (Ok (), d2)"
    and c: "enable cfg d2 = (Ok (), d3)"
    and e: "(if z then set_timeout (socket_timeout d) else returns) d3 = (Ok (), d')"
    using s by (auto simp: start_motor_control_mode_def Let_def seq_ok_iff cfg_def split: if_splits)
  obtain ws where ws: "sent (socket d1) = sent (socket d) @ ws" "same_setup d d1"
    "rcvtimeo (socket d1) = rcvtimeo (socket d)"
    "case series_type cfg of
       V2 \<Rightarrow> ws = []
     | V3 \<Rightarrow> ws \<noteq> [] \<and> length ws \<le> unat (max_initial_connection_trials d) \<and>
             (\<forall>f\<in>set ws. v3_request (can_id cfg) CAN_PACKET_SET_CURRENT [0, 0, 0, 0] f)"
    using idle.retry_sent [OF r, of "can_id cfg" "unat (max_initial_connection_trials d)"]
      idle.retry_setup [of d "can_id cfg" "unat (max_initial_connection_trials d)"] a
    by (cases "series_type cfg") (auto simp: returns_def)
  have r1: "ready d1" using ws(2) r by (rule same_setup_ready)
  obtain os where os: "sent (socket d2) = sent (socket d1) @ os" "same_setup d1 d2"
    "\<not> z \<longrightarrow> rcvtimeo (socket d2) = rcvtimeo (socket d1)"
    "if z then \<exists>f. os = [f] \<and> origin_request cfg f else os = []"
  proof (cases z)
    case True
    then obtain d1' where t: "set_timeout (10, 0) d1 = (Ok (), d1')" "set_origin cfg d1' = (Ok (), d2)"
      using b by (auto simp: seq_ok_iff)
    note to = set_timeout_ok [OF t(1)]
    note o = channel_ok [OF origin.channel t(2) same_setup_ready [OF to(1) r1]]
    from o(3) obtain f where "origin_request cfg f" "sent (socket d2) = sent (socket d1) @ [f]"
      using to(2) by auto
    then show thesis using True same_setup_trans [OF to(1) o(1)] by (intro that [of "[f]"]) auto
  qed (use b that [of "[]"] in \<open>auto simp: returns_def\<close>)
  have r2: "ready d2" using os(2) r1 by (rule same_setup_ready)
  note en = channel_ok [OF enabling.channel c r2]
  obtain f where f: "enable_request cfg f" "sent (socket d3) = sent (socket d2) @ [f]" using en(3) by blast
  have fin: "sent (socket d') = sent (socket d3)" "same_setup d3 d'"
    "rcvtimeo (socket d') = (if z then socket_timeout d else rcvtimeo (socket d3))"
    using e set_timeout_ok(1-3) by (auto simp: returns_def split: if_splits)
  show "rcvtimeo (socket d') = (if z then socket_timeout d else rcvtimeo (socket d))"
    using fin(3) en(2) os(3) ws(3) by auto
  show "same_setup d d'" using ws(2) os(2) en(1) fin(2) same_setup_trans by blast
  have "sent (socket d') = sent (socket d) @ ws @ os @ [f]" using fin(1) f os(1) ws(1) by simp
  moreover have "start_trace cfg (unat (max_initial_connection_trials d)) z (ws @ os @ [f])"
    unfolding start_trace_def using f(1) os(4) ws(4) by blast
  ultimately show "\<exists>fs. sent (socket d') = sent (socket d) @ fs \<and>
      start_trace cfg (unat (max_initial_connection_trials d)) z fs" by blast
qed

lemma start_list_ok:
  assumes "ready d" and "for_each (\<lambda>i. start_motor_control_mode i z) is d = (Ok (), d')"
  shows "\<exists>fss. sent (socket d') = sent (socket d) @ concat fss \<and>
           list_all2 (\<lambda>i fs. start_trace (joint_configs d ! i)
             (unat (max_initial_connection_trials d)) z fs) is fss"
    and "rcvtimeo (socket d') = (if z \<and> is \<noteq> [] then socket_timeout d else rcvtimeo (socket d))"
proof -
  have "(\<exists>fss. sent (socket d') = sent (socket d) @ concat fss \<and>
           list_all2 (\<lambda>i fs. start_trace (joint_configs d ! i)
             (unat (max_initial_connection_trials d)) z fs) is fss) \<and>
        rcvtimeo (socket d') = (if z \<and> is \<noteq> [] then socket_timeout d else rcvtimeo (socket d))"
    using assms
  proof (induction "is" arbitrary: d)
    case (Cons i "is")
    then obtain d1 where s: "start_motor_control_mode i z d = (Ok (), d1)"
      "for_each (\<lambda>i. start_motor_control_mode i z) is d1 = (Ok (), d')" by (auto simp: seq_ok_iff)
    note j = start_joint_ok [OF Cons.prems(1) s(1)]
    have e: "joint_configs d1 = joint_configs d"
      "max_initial_connection_trials d1 = max_initial_connection_trials d"
      "socket_timeout d1 = socket_timeout d" using j(3) by (simp_all add: same_setup_def)
    note IH = Cons.IH [OF same_setup_ready [OF j(3) Cons.prems(1)] s(2), unfolded e]
    obtain fs where "sent (socket d1) = sent (socket d) @ fs"
      "start_trace (joint_configs d ! i) (unat (max_initial_connection_trials d)) z fs"
      using j(1) by blast
    moreover obtain fss where "sent (socket d') = sent (socket d1) @ concat fss"
      "list_all2 (\<lambda>i fs. start_trace (joint_configs d ! i)
         (unat (max_initial_connection_trials d)) z fs) is fss" using IH by blast
    ultimately show ?case using IH j(2) by (intro conjI exI [of _ "fs # fss"]) auto
  qed (auto simp: returns_def intro: exI [of _ "[]"])
  then show "\<exists>fss. sent (socket d') = sent (socket d) @ concat fss \<and>
           list_all2 (\<lambda>i fs. start_trace (joint_configs d ! i)
             (unat (max_initial_connection_trials d)) z fs) is fss"
    and "rcvtimeo (socket d') = (if z \<and> is \<noteq> [] then socket_timeout d else rcvtimeo (socket d))"
    by blast+
qed

text \<open>Joints named by index and joints named by configuration.\<close>

lemma end_list:
  assumes "ready d" and "\<forall>i\<in>set is. i < length (joint_configs d)"
  shows "for_each end_motor_control_mode is d = for_each disable (map ((!) (joint_configs d)) is) d"
  using assms
proof (induction "is" arbitrary: d)
  case (Cons i "is")
  then have e: "end_motor_control_mode i d = disable (joint_configs d ! i) d"
    by (simp add: end_motor_control_mode_def)
  obtain r d1 where s: "disable (joint_configs d ! i) d = (r, d1)" by force
  then have k: "same_setup d d1"
    using control_channel.send_setup [OF disabling.channel, of d "joint_configs d ! i"] by simp
  then have c: "joint_configs d1 = joint_configs d" by (simp add: same_setup_def)
  have "for_each end_motor_control_mode is d1 = for_each disable (map ((!) (joint_configs d)) is) d1"
    using Cons.IH [OF same_setup_ready [OF k Cons.prems(1)]] Cons.prems(2) by (simp add: c)
  then show ?case by (simp add: seq_def e s split: outcome.split)
qed simp

lemma end_all_configs: "ready d \<Longrightarrow> end_all d = for_each disable (joint_configs d) d"
  using end_list [of d "[0..<length (joint_configs d)]"] by (simp add: end_all_def map_nth)

lemma demo_ready: "ready (demo_driver cfgs q)"
  by (simp add: ready_def demo_driver_def initial_driver_def)

section \<open>Properties\<close>

text \<open>
  C16. A start of all joints that returns has written, joint after joint, the frames of a
  successful start of each: a V3 motor's wake-up attempts (at least one, at most the configured
  number of trials), its origin request exactly when asked for, its enabling request last. When
  origins were set, the receive timeout is the configured one again.
\<close>

theorem start_all_frames:
  assumes "ready d" and "start_all set_zero d = (Ok (), d')"
  shows "\<exists>fss. sent (socket d') = sent (socket d) @ concat fss \<and>
      list_all2 (\<lambda>cfg. start_trace cfg (unat (max_initial_connection_trials d)) set_zero) (joint_configs d) fss \<and>
      rcvtimeo (socket d') =
        (if set_zero \<and> joint_configs d \<noteq> [] then socket_timeout d else rcvtimeo (socket d))"
proof -
  note s = start_list_ok [OF assms(1) assms(2) [unfolded start_all_def]]
  obtain fss where f: "sent (socket d') = sent (socket d) @ concat fss"
    and "list_all2 (\<lambda>i fs. start_trace (joint_configs d ! i) (unat (max_initial_connection_trials d)) set_zero fs)
          [0..<length (joint_configs d)] fss" using s(1) by blast
  then have "list_all2 (\<lambda>cfg. start_trace cfg (unat (max_initial_connection_trials d)) set_zero) (joint_configs d) fss"
    by (simp add: list_all2_conv_all_nth)
  with f s(2) show ?thesis by (intro exI [of _ fss]) auto
qed

theorem start_all_frames_witness:
  defines "d \<equiv> demo_driver [demo_joint 1 V2, demo_joint 2 V3]
    [reply_v2 1 0, reply_v2 1 0, Rx_Fail 11, reply_v3 2 0, reply_v3 2 0, reply_v3 2 0]"
  shows "\<exists>fss. sent (socket (snd (start_all True d))) = concat fss \<and>
     list_all2 (\<lambda>cfg. start_trace cfg 3 True) [demo_joint 1 V2, demo_joint 2 V3] fss \<and>
     rcvtimeo (socket (snd (start_all True d))) = (0, 4000)"
proof -
  have "fst (start_all True d) = Ok ()" unfolding d_def by code_simp
  then obtain d' where s: "start_all True d = (Ok (), d')" by (cases "start_all True d") auto
  have "ready d" unfolding d_def by (rule demo_ready)
  from start_all_frames [OF this s] show ?thesis
    unfolding s by (simp add: d_def demo_driver_def initial_driver_def working_bus_def)
qed

text \<open>
  C26. Ending the mode of all joints, on a bus that takes every frame: the motors are asked one
  after the other, and the first one that does not confirm ends the loop, so its exception is
  the result and the joints after it get no exit frame.
\<close>

theorem end_all_stops_at_first_failure:
  assumes "ready d" and "link_up d"
  defines "v \<equiv> first_failure joint_verdict (joint_configs d) (rx_queue (socket d))"
  shows "fst (end_all d) = fst v \<and>
    (\<exists>fs. sent (socket (snd (end_all d))) = sent (socket d) @ fs \<and>
      list_all2 disable_request (take (snd v) (joint_configs d)) fs)"
  using disabling.for_each_result [OF assms(1,2), of "joint_configs d"]
  by (simp add: end_all_configs [OF assms(1)] v_def)

theorem end_all_stops_at_first_failure_witness:
  defines "d \<equiv> demo_driver [demo_joint 1 V2, demo_joint 2 V3, demo_joint 3 V2] [reply_v2 1 0, reply_v3 2 3]"
  shows "fst (end_all d) = Throw (motor_error OVER_VOLTAGE) \<and>
    (\<exists>fs. sent (socket (snd (end_all d))) = fs \<and>
      list_all2 disable_request [demo_joint 1 V2, demo_joint 2 V3] fs)"
proof -
  have v: "first_failure joint_verdict (joint_configs d) (rx_queue (socket d)) =
      (Throw (motor_error OVER_VOLTAGE), 2)"
    unfolding d_def by code_simp
  have r: "ready d" unfolding d_def by (rule demo_ready)
  have l: "link_up d" by (simp add: d_def demo_driver_def initial_driver_def working_bus_def)
  have c: "joint_configs d = [demo_joint 1 V2, demo_joint 2 V3, demo_joint 3 V2]" "sent (socket d) = []"
    by (simp_all add: d_def demo_driver_def initial_driver_def working_bus_def)
  show ?thesis using end_all_stops_at_first_failure [OF r l, unfolded v] by (simp add: c)
qed




text \<open>The series compare one byte of a reply with the whole id.\<close>

lemma joint_verdict_wide:
  assumes "255 < can_id cfg"
  shows "joint_verdict cfg q \<noteq> Ok ()"
proof -
  have "ucast (b :: u8) \<noteq> can_id cfg" for b
  proof -
    have "unat b < 256" using unsigned_less [of b] by simp
    then have "unat (ucast b :: u32) < 256" by (simp add: unsigned_ucast_eq take_bit_nat_eq_self)
    then show ?thesis using assms by (auto simp: word_less_nat_alt)
  qed
  moreover have "(w :: u32) AND 0xFF \<noteq> can_id cfg" for w
  proof -
    have "unat (take_bit 8 w) < 2 ^ 8" by (simp only: unsigned_take_bit_eq take_bit_nat_less_exp)
    then show ?thesis using assms by (auto simp: and_0xFF word_less_nat_alt)
  qed
  ultimately show ?thesis
    by (auto simp: joint_verdict_def verdict_def reply_id_v2_def reply_id_v3_def
        split: SERIES_TYPE.split list.split rx_outcome.split nat.split)
qed

lemma enable_ok_verdict:
  assumes "enable cfg d = (Ok (), d')"
  shows "joint_verdict cfg (rx_queue (socket d)) = Ok ()"
  using control_channel.send_result [OF enabling.channel, of cfg d] assms by (auto split: if_splits)

text \<open>
  A motor id above 255 is never confirmed: the control operations compare one byte of the
  reply with the whole id, so a start never returns for such a joint.
\<close>

theorem wide_id_never_starts:
  assumes "255 < can_id (joint_configs d ! j)"
  shows "fst (start_motor_control_mode j set_zero d) \<noteq> Ok ()"
proof
  assume "fst (start_motor_control_mode j set_zero d) = Ok ()"
  then obtain d' where "start_motor_control_mode j set_zero d = (Ok (), d')"
    by (cases "start_motor_control_mode j set_zero d") auto
  then obtain d2 d3 where "enable (joint_configs d ! j) d2 = (Ok (), d3)"
    by (auto simp: start_motor_control_mode_def Let_def seq_ok_iff split: if_splits)
  from enable_ok_verdict [OF this] show False using joint_verdict_wide [OF assms] by simp
qed

theorem wide_id_never_starts_witness:
  defines "d \<equiv> demo_driver [demo_joint 0x101 V3] [reply_v3 1 0, reply_v3 1 0, reply_v3 1 0]"
  shows "fst (start_motor_control_mode 0 False d) \<noteq> Ok ()"
  by (rule wide_id_never_starts) (simp add: d_def demo_driver_def initial_driver_def demo_joint_def)

text \<open>
  Setting the origin of a V2 motor widens the receive timeout to ten seconds, and every
  exception after that leaves it there: only the path without an exception restores it.
\<close>

theorem failed_origin_keeps_long_timeout:
  assumes "j < length (joint_configs d)" and "series_type (joint_configs d ! j) = V2"
    and "\<forall>k. opt_ok (socket d) k" and "start_motor_control_mode j True d = (Throw e, d')"
  shows "rcvtimeo (socket d') = (10, 0)"
proof -
  let ?cfg = "joint_configs d ! j"
  obtain d0 where t: "set_timeout (10, 0) d = (Ok (), d0)" "rcvtimeo (socket d0) = (10, 0)"
    "opt_ok (socket d0) = opt_ok (socket d)"
    using assms(3) by (simp_all add: set_timeout_def sys_set_rcvtimeo_def Let_def)
  obtain r1 d1 where 1: "set_origin ?cfg d0 = (r1, d1)" by force
  obtain r2 d2 where 2: "enable ?cfg d1 = (r2, d2)" by force
  have to: "rcvtimeo (socket d1) = (10, 0)" "opt_ok (socket d1) = opt_ok (socket d)"
    using control_channel.send_timeout(1) [OF origin.channel, of ?cfg d0]
      control_channel.send_setup [OF origin.channel, of d0 ?cfg] 1 t by (simp_all add: same_setup_def)
  have te: "rcvtimeo (socket d2) = (10, 0)" "opt_ok (socket d2) = opt_ok (socket d)"
    using control_channel.send_timeout(1) [OF enabling.channel, of ?cfg d1]
      control_channel.send_setup [OF enabling.channel, of d1 ?cfg] 2 to by (simp_all add: same_setup_def)
  obtain d3 where restore: "set_timeout (socket_timeout d) d2 = (Ok (), d3)"
    using te(2) assms(3) by (simp add: set_timeout_def sys_set_rcvtimeo_def Let_def)
  have "start_motor_control_mode j True d =
      seq returns (seq (seq (set_timeout (10, 0)) (set_origin ?cfg))
        (seq (enable ?cfg) (set_timeout (socket_timeout d)))) d"
    using assms(1,2) by (simp add: start_motor_control_mode_def Let_def)
  then show ?thesis
    using assms(4) t(1) 1 2 to(1) te(1) restore
    by (cases r1; cases r2) (auto simp: seq_def returns_def)
qed

theorem failed_origin_keeps_long_timeout_witness:
  defines "d \<equiv> demo_driver [demo_joint 1 V2] []"
  shows "rcvtimeo (socket (snd (start_motor_control_mode 0 True d))) = (10, 0) \<and> socket_timeout d = (0, 4000)"
proof -
  have "fst (start_motor_control_mode 0 True d) = Throw can_device_error" unfolding d_def by code_simp
  then have "start_motor_control_mode 0 True d =
      (Throw can_device_error, snd (start_motor_control_mode 0 True d))" by (simp add: prod_eq_iff)
  from failed_origin_keeps_long_timeout [OF _ _ _ this] show ?thesis
    by (simp add: d_def demo_driver_def initial_driver_def working_bus_def demo_joint_def)
qed

end
