(* ===== verification/Plugin.thy ===== *)
theory Plugin
  imports CanControl "HOL-Library.Multiset"
begin

text \<open>
  The \<open>ros2_control\<close> plugin (\<open>cubemars_hardware_interface.cpp\<close>): its own encoding of commands and
  decoding of replies, the lifecycle callbacks, the cycle in \<open>write\<close> and the switch of command
  modes. It talks to a socket of its own and knows V2 motors only.
\<close>

datatype return_type = OK | ERR

datatype callback_return = CB_SUCCESS | CB_ERROR

text \<open>What the callbacks of the plugin may throw: from \<open>stod\<close>, and from a difference of two times.\<close>

datatype hi_exn = Not_a_number | Different_clocks | Time_overflow

text \<open>The names of the interfaces, as the description in \<open>cubemars.ros2_control.xacro\<close> lists them.\<close>

definition HW_IF_POSITION :: string where "HW_IF_POSITION = ''position''"
definition HW_IF_VELOCITY :: string where "HW_IF_VELOCITY = ''velocity''"
definition HW_IF_EFFORT :: string where "HW_IF_EFFORT = ''effort''"
definition HW_IF_TEMPERATURE :: string where "HW_IF_TEMPERATURE = ''temperature''"
definition HW_IF_PROPORTIONAL_GAIN :: string where "HW_IF_PROPORTIONAL_GAIN = ''proportional''"
definition HW_IF_DERIVATIVE_GAIN :: string where "HW_IF_DERIVATIVE_GAIN = ''derivative''"

lemmas hw_if_defs =
  HW_IF_POSITION_def HW_IF_VELOCITY_def HW_IF_EFFORT_def HW_IF_TEMPERATURE_def
  HW_IF_PROPORTIONAL_GAIN_def HW_IF_DERIVATIVE_GAIN_def

section \<open>The object\<close>

text \<open>
  The vectors of commands and states are indexed by joint. A time of the client library is a clock
  and a number of nanoseconds in 64 bits. The counter of cycles for the log is left out.
\<close>

datatype clock_type = SYSTEM_TIME | STEADY_TIME | ROS_TIME

type_synonym rtime = "clock_type \<times> int"

record plugin =
  plugin_interface :: string
  plugin_loopback :: int
  set_zero_pos_on_startup :: bool
  hw_joint_configs :: "joint_config list"
  sorted_idx :: "nat list"
  hw_commands_position :: "fp list"
  hw_commands_velocity :: "fp list"
  hw_commands_effort :: "fp list"
  hw_commands_kp :: "fp list"
  hw_commands_kd :: "fp list"
  hw_states_position :: "fp list"
  hw_states_velocity :: "fp list"
  hw_states_effort :: "fp list"
  hw_states_temperature :: "fp list"
  hw_control_level :: "JointMode list"
  start_time :: rtime
  hw_socket :: sock

section \<open>Encoding and decoding\<close>

text \<open>\<open>(float)((1 << bits) / span)\<close>; the product is cast to \<open>int\<close>, which may be undefined.\<close>

definition hi_float_to_uint :: "fp \<Rightarrow> fp \<Rightarrow> fp \<Rightarrow> nat \<Rightarrow> u32 option" where
  "hi_float_to_uint x x_min x_max bits =
     (let span = fp_sub b32 x_max x_min;
          x = (if fp_lt x x_min then x_min else if fp_lt x_max x then x_max else x)
      in cast_i32 (fp_mul b32 (fp_sub b32 x x_min) (fp_div b32 (fp_of_int b32 (2 ^ bits)) span)))"

text \<open>A field of the frame: the limits are narrowed to \<open>float\<close>, the result stored in a \<open>uint16_t\<close>.\<close>

definition hi_field :: "fp \<Rightarrow> fp \<Rightarrow> fp \<Rightarrow> nat \<Rightarrow> u16 option" where
  "hi_field x lo hi bits =
     map_option to_u16 (hi_float_to_uint x (fp_conv b32 lo) (fp_conv b32 hi) bits)"

definition hi_clamp :: "fp \<Rightarrow> fp \<Rightarrow> fp \<Rightarrow> fp" where
  "hi_clamp lo x hi = clampf (fp_conv b32 lo) x (fp_conv b32 hi)"

definition pack_cmd ::
  "fp \<Rightarrow> fp \<Rightarrow> fp \<Rightarrow> fp \<Rightarrow> fp \<Rightarrow> joint_config \<Rightarrow> JointMode \<Rightarrow> can_frame option" where
  "pack_cmd p_des v_des t_ff kp kd cfg control_mode =
     (let neg = (\<lambda>x. if invert cfg then fp_mul b32 x (fp_of_int b32 (-1)) else x);
          p_des = neg p_des; v_des = neg v_des; t_ff = neg t_ff;
          (kp, kd) =
            (if control_mode = POSITION
             then (hi_clamp (KP_MIN cfg) kp (KP_MAX cfg), hi_clamp (KD_MIN cfg) kd (KD_MAX cfg))
             else if control_mode = VELOCITY
             then (Fin 0, hi_clamp (KD_MIN cfg) kd (KD_MAX cfg))
             else (Fin 0, Fin 0));
          p_des = hi_clamp (P_MIN cfg) p_des (P_MAX cfg);
          v_des = hi_clamp (V_MIN cfg) v_des (V_MAX cfg);
          t_ff = hi_clamp (I_MIN cfg) t_ff (I_MAX cfg)
      in case hi_field p_des (P_MIN cfg) (P_MAX cfg) 16 of None \<Rightarrow> None | Some p_int \<Rightarrow>
         case hi_field v_des (V_MIN cfg) (V_MAX cfg) 12 of None \<Rightarrow> None | Some v_int \<Rightarrow>
         case hi_field kp (KP_MIN cfg) (KP_MAX cfg) 12 of None \<Rightarrow> None | Some kp_int \<Rightarrow>
         case hi_field kd (KD_MIN cfg) (KD_MAX cfg) 12 of None \<Rightarrow> None | Some kd_int \<Rightarrow>
         case hi_field t_ff (I_MIN cfg) (I_MAX cfg) 12 of None \<Rightarrow> None | Some t_int \<Rightarrow>
           Some \<lparr>frame_id = can_id cfg, frame_len = 8,
                 frame_data = pack_v2 p_int v_int kp_int kd_int t_int\<rparr>)"

text \<open>A reply is matched by its identifier; a frame of an unknown device is reported as no fault.\<close>

definition unpack_reply :: "can_frame \<Rightarrow> plugin \<Rightarrow> ErrorCode \<times> plugin" where
  "unpack_reply f p =
     (case find_index (\<lambda>conf. can_id conf = frame_id f) (hw_joint_configs p) of
        None \<Rightarrow> (NO_FAULT, p)
      | Some i \<Rightarrow>
          (let cfg = hw_joint_configs p ! i; x = frame_data f;
               p_int = to_u16 (push_bit 8 (promote (d1 x)) OR promote (d2 x));
               v_int = to_u16 (push_bit 4 (promote (d3 x)) OR drop_bit 4 (promote (d4 x)));
               i_int = to_u16 (push_bit 8 (promote (d4 x) AND 0xF) OR promote (d5 x));
               pos = uint_to_float (uint p_int) (fp_conv b32 (P_MIN cfg)) (fp_conv b32 (P_MAX cfg)) 16;
               vel = uint_to_float (uint v_int) (fp_conv b32 (V_MIN cfg)) (fp_conv b32 (V_MAX cfg)) 12;
               cur = uint_to_float (uint i_int) (fp_conv b32 (I_MIN cfg)) (fp_conv b32 (I_MAX cfg)) 12;
               temp = fp_of_int b32 (uint (d6 x) - 40);
               neg = (\<lambda>y. if invert cfg then fp_neg y else y)
           in (error_code_of_byte (d7 x),
               p\<lparr>hw_states_position := (hw_states_position p)[i := neg pos],
                 hw_states_velocity := (hw_states_velocity p)[i := neg vel],
                 hw_states_effort := (hw_states_effort p)[i := neg cur],
                 hw_states_temperature := (hw_states_temperature p)[i := temp]\<rparr>)))"

section \<open>Frames and control sequences\<close>

definition write_to_can :: "can_frame \<Rightarrow> plugin \<Rightarrow> return_type \<times> plugin" where
  "write_to_can f p =
     (let (ok, s) = sys_write f (hw_socket p) in (if ok then OK else ERR, p\<lparr>hw_socket := s\<rparr>))"

text \<open>The bytes read, and the frame; a read that fails or brings no byte leaves the zeroed frame.\<close>

definition hi_read :: "plugin \<Rightarrow> int \<times> can_frame \<times> plugin" where
  "hi_read p =
     (let (r, s) = sys_recv (hw_socket p)
      in case r of
           Rx_Fail e \<Rightarrow> (-1, zero_frame, p\<lparr>hw_socket := s\<rparr>)
         | Rx_Msg n f cs \<Rightarrow> (int n, if n = 0 then zero_frame else f, p\<lparr>hw_socket := s\<rparr>))"

definition send_control_frame :: "u32 \<Rightarrow> can_data \<Rightarrow> plugin \<Rightarrow> return_type \<times> plugin" where
  "send_control_frame cid control_sequence p =
     (let (r, p) = write_to_can \<lparr>frame_id = cid, frame_len = 8, frame_data = control_sequence\<rparr> p
      in if r \<noteq> OK then (ERR, p)
         else let (nbytes, f, p) = hi_read p
         in if nbytes \<le> 0 then (ERR, p)
            else if frame_id f \<noteq> cid then (ERR, p)
            else let (e, p) = unpack_reply f p in (if e \<noteq> NO_FAULT then ERR else OK, p))"

definition hi_start_motor_control_mode :: "u32 \<Rightarrow> plugin \<Rightarrow> return_type \<times> plugin" where
  "hi_start_motor_control_mode cid = send_control_frame cid START_MOTOR_CONTROL_MODE"

definition hi_exit_motor_control_mode :: "u32 \<Rightarrow> plugin \<Rightarrow> return_type \<times> plugin" where
  "hi_exit_motor_control_mode cid = send_control_frame cid EXIT_MOTOR_CONTROL_MODE"

definition hi_set_zero_position :: "u32 \<Rightarrow> plugin \<Rightarrow> return_type \<times> plugin" where
  "hi_set_zero_position cid = send_control_frame cid SET_ZERO_POSITION"

section \<open>Lifecycle\<close>

text \<open>
  The parameters of a joint are strings; \<open>stoi\<close> and \<open>stod\<close> of the standard library are arguments
  (\<open>None\<close>: they throw). A parameter that is not given is the empty string.
\<close>

definition flag_param :: "string \<Rightarrow> bool" where
  "flag_param s \<longleftrightarrow> s = ''True'' \<or> s = ''true'' \<or> s = ''1''"

definition hi_joint_config ::
  "(string \<Rightarrow> u32 option) \<Rightarrow> (string \<Rightarrow> fp option) \<Rightarrow> string \<times> (string \<Rightarrow> string) \<Rightarrow> joint_config option" where
  "hi_joint_config stoi stod joint =
     (let name = fst joint; par = snd joint
      in Option.bind (stoi (par ''can_id'')) (\<lambda>cid.
         Option.bind (stod (par ''kd_min'')) (\<lambda>kd0.
         Option.bind (stod (par ''kd_max'')) (\<lambda>kd1.
         Option.bind (stod (par ''kp_min'')) (\<lambda>kp0.
         Option.bind (stod (par ''kp_max'')) (\<lambda>kp1.
         Option.bind (stod (par ''pos_min'')) (\<lambda>p0.
         Option.bind (stod (par ''pos_max'')) (\<lambda>p1.
         Option.bind (stod (par ''vel_min'')) (\<lambda>v0.
         Option.bind (stod (par ''vel_max'')) (\<lambda>v1.
         Option.bind (stod (par ''effort_min'')) (\<lambda>i0.
         Option.bind (stod (par ''effort_max'')) (\<lambda>i1.
           Some (default_joint_config
            \<lparr>joint_name := name, can_id := cid, KD_MIN := kd0, KD_MAX := kd1, KP_MIN := kp0,
             KP_MAX := kp1, P_MIN := p0, P_MAX := p1, V_MIN := v0, V_MAX := v1, I_MIN := i0,
             I_MAX := i1, invert := flag_param (par ''invert'')\<rparr>)))))))))))))"

text \<open>All elements, or \<open>None\<close> as soon as one is missing.\<close>

fun collect :: "'a option list \<Rightarrow> 'a list option" where
  "collect [] = Some []"
| "collect (None # xs) = None"
| "collect (Some x # xs) = map_option ((#) x) (collect xs)"

text \<open>
  \<open>on_init\<close> of a fresh object: \<open>base\<close> is the result of the base class. \<open>None\<close> is the exception of a parameter that is
  no number. The order of joints with equal ids is not fixed by \<open>std::sort\<close>; here it is stable.
\<close>

definition hi_on_init ::
  "bool \<Rightarrow> (string \<Rightarrow> u32 option) \<Rightarrow> (string \<Rightarrow> fp option) \<Rightarrow> (string \<Rightarrow> string)
     \<Rightarrow> (string \<times> (string \<Rightarrow> string)) list \<Rightarrow> plugin \<Rightarrow> (callback_return \<times> plugin) option" where
  "hi_on_init base stoi stod hw_par joints p =
     (if \<not> base then Some (CB_ERROR, p)
      else if hw_par ''can_interface'' = [] then Some (CB_ERROR, p)
      else case collect (map (hi_joint_config stoi stod) joints) of
        None \<Rightarrow> None
      | Some cfgs \<Rightarrow>
          (let n = length joints; nan = replicate n NaN
           in Some (CB_SUCCESS,
                p\<lparr>plugin_interface := hw_par ''can_interface'',
                  plugin_loopback := (if flag_param (hw_par ''enable_loopback'') then 1 else 0),
                  set_zero_pos_on_startup := flag_param (hw_par ''set_zero_pos_on_startup''),
                  hw_joint_configs := cfgs,
                  sorted_idx := sort_key (\<lambda>i. - uint (can_id (cfgs ! i))) [0..<length cfgs],
                  hw_commands_position := nan, hw_commands_velocity := nan,
                  hw_commands_effort := nan, hw_commands_kp := nan, hw_commands_kd := nan,
                  hw_states_position := nan, hw_states_velocity := nan, hw_states_effort := nan,
                  hw_states_temperature := nan, hw_control_level := replicate n UNDEFINED\<rparr>)))"

text \<open>\<open>CHECK_SC\<close>: the first call that returns a negative value ends the function; nothing is closed.\<close>

fun run_checked :: "(syscall \<Rightarrow> int) \<Rightarrow> syscall list \<Rightarrow> syscall list \<times> bool" where
  "run_checked ret [] = ([], True)"
| "run_checked ret (c # cs) =
     (if ret c < 0 then ([c], False)
      else let (tr, ok) = run_checked ret cs in (c # tr, ok))"

definition hi_filter :: "joint_config list \<Rightarrow> can_filter list" where
  "hi_filter cfgs = map (\<lambda>c. (can_id c, CAN_SFF_MASK)) cfgs"

text \<open>The calls made and whether all succeeded; \<open>None\<close> when the name overruns \<open>ifr_name\<close>.\<close>

definition setup_socket :: "(syscall \<Rightarrow> int) \<Rightarrow> plugin \<Rightarrow> (syscall list \<times> bool) option" where
  "setup_socket ret p =
     (case run_checked ret [Sys_socket, Sys_loopback (plugin_loopback p), Sys_filter (hi_filter (hw_joint_configs p))] of
        (tr, False) \<Rightarrow> Some (tr, False)
      | (tr, True) \<Rightarrow>
          if IFNAMSIZ \<le> length (plugin_interface p) then None
          else let (tr', ok) = run_checked ret [Sys_ifindex (plugin_interface p), Sys_bind, Sys_rcvtimeo (0, 500000)]
          in Some (tr @ tr', ok))"

text \<open>
  The initial values of the command interfaces of a joint, element by element. A value that is no
  number makes \<open>stod\<close> throw and leaves what was set before.
\<close>

definition set_command :: "nat \<Rightarrow> string \<Rightarrow> fp \<Rightarrow> plugin \<Rightarrow> plugin" where
  "set_command i name v p =
     (if name = HW_IF_POSITION then p\<lparr>hw_commands_position := (hw_commands_position p)[i := v]\<rparr>
      else if name = HW_IF_VELOCITY then p\<lparr>hw_commands_velocity := (hw_commands_velocity p)[i := v]\<rparr>
      else if name = HW_IF_EFFORT then p\<lparr>hw_commands_effort := (hw_commands_effort p)[i := v]\<rparr>
      else if name = HW_IF_PROPORTIONAL_GAIN then p\<lparr>hw_commands_kp := (hw_commands_kp p)[i := v]\<rparr>
      else if name = HW_IF_DERIVATIVE_GAIN then p\<lparr>hw_commands_kd := (hw_commands_kd p)[i := v]\<rparr>
      else p)"

definition commandable :: "string set" where
  "commandable = {HW_IF_POSITION, HW_IF_VELOCITY, HW_IF_EFFORT, HW_IF_PROPORTIONAL_GAIN, HW_IF_DERIVATIVE_GAIN}"

fun initial_values :: "(string \<Rightarrow> fp option) \<Rightarrow> nat \<Rightarrow> (string \<times> string) list \<Rightarrow> plugin \<Rightarrow> bool \<times> plugin" where
  "initial_values stod i [] p = (True, p)"
| "initial_values stod i ((name, value) # ifs) p =
     (if name \<notin> commandable \<or> value = [] then initial_values stod i ifs p
      else case stod value of
             None \<Rightarrow> (False, p)
           | Some v \<Rightarrow> initial_values stod i ifs (set_command i name v p))"

definition zero_states :: "nat \<Rightarrow> plugin \<Rightarrow> plugin" where
  "zero_states i p =
     p\<lparr>hw_states_position := (hw_states_position p)[i := Fin 0],
       hw_states_velocity := (hw_states_velocity p)[i := Fin 0],
       hw_states_effort := (hw_states_effort p)[i := Fin 0],
       hw_states_temperature := (hw_states_temperature p)[i := Fin 0]\<rparr>"

fun initial_joints ::
  "(string \<Rightarrow> fp option) \<Rightarrow> nat \<Rightarrow> (string \<times> string) list list \<Rightarrow> plugin \<Rightarrow> bool \<times> plugin" where
  "initial_joints stod i [] p = (True, p)"
| "initial_joints stod i (ifs # ifss) p =
     (let (ok, p) = initial_values stod i ifs p
      in if \<not> ok then (False, p) else initial_joints stod (Suc i) ifss (zero_states i p))"

text \<open>The second result are the system calls made.\<close>

definition hi_on_configure ::
  "(string \<Rightarrow> fp option) \<Rightarrow> (syscall \<Rightarrow> int) \<Rightarrow> (string \<times> string) list list \<Rightarrow> plugin
     \<Rightarrow> (hi_exn, callback_return) outcome \<times> syscall list \<times> plugin" where
  "hi_on_configure stod ret ifaces p =
     (case setup_socket ret p of
        None \<Rightarrow> (UB, [], p)
      | Some (calls, False) \<Rightarrow> (Ok CB_ERROR, calls, p)
      | Some (calls, True) \<Rightarrow>
          (let zero = map (\<lambda>_. Fin 0) (hw_commands_position p);
               (ok, p) = initial_joints stod 0 ifaces
                 (p\<lparr>hw_commands_position := zero, hw_commands_velocity := zero, hw_commands_effort := zero,
                    hw_commands_kp := zero, hw_commands_kd := zero\<rparr>)
           in (if ok then Ok CB_SUCCESS else Throw Not_a_number, calls, p)))"

fun activate_joints :: "joint_config list \<Rightarrow> plugin \<Rightarrow> callback_return \<times> plugin" where
  "activate_joints [] p = (CB_SUCCESS, p)"
| "activate_joints (joint # js) p =
     (let (r, p) = (if set_zero_pos_on_startup p then hi_set_zero_position (can_id joint) p else (OK, p))
      in if r \<noteq> OK then (CB_ERROR, p)
         else let (r, p) = hi_start_motor_control_mode (can_id joint) p
         in if r \<noteq> OK then (CB_ERROR, p) else activate_joints js p)"

text \<open>The time of the start is read from the clock of the middleware.\<close>

definition hi_on_activate :: "int \<Rightarrow> plugin \<Rightarrow> callback_return \<times> plugin" where
  "hi_on_activate now p =
     (let (r, p) = activate_joints (hw_joint_configs p) p
      in (r, if r = CB_SUCCESS then p\<lparr>start_time := (ROS_TIME, now)\<rparr> else p))"

text \<open>Every joint is asked to leave the mode, also after a failure.\<close>

fun deactivate_joints :: "joint_config list \<Rightarrow> callback_return \<Rightarrow> plugin \<Rightarrow> callback_return \<times> plugin" where
  "deactivate_joints [] ret p = (ret, p)"
| "deactivate_joints (joint # js) ret p =
     (let (r, p) = hi_exit_motor_control_mode (can_id joint) p
      in deactivate_joints js (if r = OK then ret else CB_ERROR) p)"

definition hi_on_deactivate :: "plugin \<Rightarrow> callback_return \<times> plugin" where
  "hi_on_deactivate p = deactivate_joints (hw_joint_configs p) CB_SUCCESS p"

definition hi_on_cleanup :: "plugin \<Rightarrow> callback_return \<times> syscall list" where
  "hi_on_cleanup p = (CB_SUCCESS, [Sys_close])"

section \<open>The cycle (write)\<close>

text \<open>\<open>read\<close> does nothing; a cycle is in \<open>write\<close>. \<open>None\<close>: undefined behaviour.\<close>

definition hi_read_cycle :: "plugin \<Rightarrow> return_type \<times> plugin" where
  "hi_read_cycle p = (OK, p)"

fun hi_tx :: "nat list \<Rightarrow> plugin \<Rightarrow> (return_type \<times> plugin) option" where
  "hi_tx [] p = Some (OK, p)"
| "hi_tx (i # is) p =
     (case pack_cmd (fp_conv b32 (hw_commands_position p ! i)) (fp_conv b32 (hw_commands_velocity p ! i))
             (fp_conv b32 (hw_commands_effort p ! i)) (fp_conv b32 (hw_commands_kp p ! i))
             (fp_conv b32 (hw_commands_kd p ! i)) (hw_joint_configs p ! i) (hw_control_level p ! i) of
        None \<Rightarrow> None
      | Some f \<Rightarrow>
          (let (r, p) = write_to_can f p in if r \<noteq> OK then Some (ERR, p) else hi_tx is p))"

fun hi_rx :: "nat list \<Rightarrow> plugin \<Rightarrow> return_type \<times> plugin" where
  "hi_rx [] p = (OK, p)"
| "hi_rx (i # is) p =
     (let (nbytes, f, p) = hi_read p
      in if nbytes < 0 then (ERR, p)
         else if frame_id f = 0 then (ERR, p)
         else let (e, p) = unpack_reply f p in if e \<noteq> NO_FAULT then (ERR, p) else hi_rx is p)"

text \<open>
  The difference of two times throws when they are of different clocks, or when it does not fit in
  64 bits.
\<close>

definition time_difference :: "rtime \<Rightarrow> rtime \<Rightarrow> hi_exn + int" where
  "time_difference t s =
     (if fst t \<noteq> fst s then Inl Different_clocks
      else if snd t - snd s < - (2 ^ 63) \<or> 2 ^ 63 \<le> snd t - snd s then Inl Time_overflow
      else Inr (snd t - snd s))"

text \<open>A cycle at a time that the caller gives.\<close>

definition hi_write :: "rtime \<Rightarrow> plugin \<Rightarrow> (hi_exn, return_type) outcome \<times> plugin" where
  "hi_write time p =
     (case time_difference time (start_time p) of
        Inl e \<Rightarrow> (Throw e, p)
      | Inr diff \<Rightarrow>
          (let p = (if 1000000000 < diff then p\<lparr>start_time := time\<rparr> else p)
           in case hi_tx (sorted_idx p) p of
                None \<Rightarrow> (UB, p)
              | Some (ERR, p) \<Rightarrow> (Ok ERR, p)
              | Some (OK, p) \<Rightarrow> (let (r, p) = hi_rx (sorted_idx p) p in (Ok r, p))))"

section \<open>Interfaces and command modes\<close>

datatype slot =
  State_position nat | State_velocity nat | State_effort nat | State_temperature nat
  | Command_position nat | Command_velocity nat | Command_effort nat | Command_kp nat | Command_kd nat

text \<open>An exported interface: joint, interface and the vector element it points to.\<close>

definition export_state_interfaces :: "plugin \<Rightarrow> (string \<times> string \<times> slot) list" where
  "export_state_interfaces p =
     concat (map (\<lambda>i. let name = joint_name (hw_joint_configs p ! i) in
       [(name, HW_IF_POSITION, State_position i), (name, HW_IF_VELOCITY, State_velocity i),
        (name, HW_IF_EFFORT, State_effort i), (name, HW_IF_TEMPERATURE, State_temperature i)])
       [0..<length (hw_joint_configs p)])"

definition export_command_interfaces :: "plugin \<Rightarrow> (string \<times> string \<times> slot) list" where
  "export_command_interfaces p =
     concat (map (\<lambda>i. let name = joint_name (hw_joint_configs p ! i) in
       [(name, HW_IF_POSITION, Command_position i), (name, HW_IF_VELOCITY, Command_velocity i),
        (name, HW_IF_EFFORT, Command_effort i), (name, HW_IF_PROPORTIONAL_GAIN, Command_kp i),
        (name, HW_IF_DERIVATIVE_GAIN, Command_kd i)])
       [0..<length (hw_joint_configs p)])"

text \<open>The parts of a key before and after its first slash; without a slash both are the key.\<close>

definition key_name :: "string \<Rightarrow> string" where
  "key_name key = takeWhile (\<lambda>c. c \<noteq> CHR ''/'') key"

definition key_mode :: "string \<Rightarrow> string" where
  "key_mode key = (if CHR ''/'' \<in> set key then tl (dropWhile (\<lambda>c. c \<noteq> CHR ''/'') key) else key)"

text \<open>\<open>None\<close>: an unknown mode.\<close>

definition start_interface :: "string list \<Rightarrow> string \<Rightarrow> JointMode list \<Rightarrow> JointMode list option" where
  "start_interface names key modes =
     (case find_index (\<lambda>n. n = key_name key) names of
        None \<Rightarrow> Some modes
      | Some i \<Rightarrow>
          (let mode = key_mode key
           in if mode = HW_IF_POSITION then Some (modes[i := POSITION])
              else if mode = HW_IF_VELOCITY
              then Some (if modes ! i \<noteq> POSITION then modes[i := VELOCITY] else modes)
              else if mode = HW_IF_EFFORT
              then Some (if modes ! i = UNDEFINED then modes[i := EFFORT] else modes)
              else if mode = HW_IF_PROPORTIONAL_GAIN then Some modes
              else if mode = HW_IF_DERIVATIVE_GAIN then Some modes
              else None))"

fun start_interfaces :: "string list \<Rightarrow> string list \<Rightarrow> JointMode list \<Rightarrow> JointMode list option" where
  "start_interfaces names [] modes = Some modes"
| "start_interfaces names (key # keys) modes =
     (case start_interface names key modes of
        None \<Rightarrow> None
      | Some modes' \<Rightarrow> start_interfaces names keys modes')"

definition contains :: "string \<Rightarrow> string \<Rightarrow> bool" where
  "contains key name = list_ex (\<lambda>k. take (length name) (drop k key) = name) [0..<Suc (length key)]"

definition stop_joint :: "string \<Rightarrow> nat \<Rightarrow> plugin \<Rightarrow> plugin" where
  "stop_joint key i p =
     (if contains key (joint_name (hw_joint_configs p ! i))
      then p\<lparr>hw_commands_position := (hw_commands_position p)[i := hw_states_position p ! i],
             hw_commands_velocity := (hw_commands_velocity p)[i := Fin 0],
             hw_commands_effort := (hw_commands_effort p)[i := Fin 0]\<rparr>
      else p)"

definition stop_key :: "string \<Rightarrow> plugin \<Rightarrow> plugin" where
  "stop_key key p = fold (stop_joint key) [0..<length (hw_joint_configs p)] p"

definition prepare_command_mode_switch :: "string list \<Rightarrow> string list \<Rightarrow> plugin \<Rightarrow> return_type \<times> plugin" where
  "prepare_command_mode_switch start stop p =
     (case start_interfaces (map joint_name (hw_joint_configs p)) start
             (replicate (length (hw_joint_configs p)) UNDEFINED) of
        None \<Rightarrow> (ERR, p)
      | Some new_modes \<Rightarrow> (OK, (fold stop_key stop p)\<lparr>hw_control_level := new_modes\<rparr>))"

section \<open>Scaling\<close>

text \<open>The value \<open>hi_float_to_uint\<close> truncates.\<close>

definition hi_scaled :: "rat \<Rightarrow> rat \<Rightarrow> rat \<Rightarrow> rat \<Rightarrow> rat" where
  "hi_scaled L H X C = rnd b32 (rnd b32 (X - L) * rnd b32 (C / rnd b32 (H - L)))"

lemma hi_scaled_range:
  assumes "1 / 2 ^ 60 \<le> H - L" and "H - L \<le> 2 ^ 61" and "L \<le> X" and "X \<le> H"
    and "1 \<le> C" and "C \<le> 65536"
  defines "R \<equiv> rnd b32 (C / rnd b32 (H - L))" and "D \<equiv> rnd b32 (X - L)"
  shows "0 \<le> hi_scaled L H X C" and "hi_scaled L H X C < C + 1"
    and "0 \<le> C / rnd b32 (H - L)" and "C / rnd b32 (H - L) \<le> 2 ^ 76"
    and "0 \<le> D * R" and "D * R \<le> C + 1 / 64" and "0 \<le> D" and "D \<le> 2 ^ 61"
proof -
  define S where "S = rnd b32 (H - L)"
  note S = span_bounds [OF assms(1,2), folded S_def]
  have S0: "0 < S" using S(1) by (rule less_le_trans [rotated]) simp
  have D0: "0 \<le> D" using assms(3) by (simp add: D_def f32.rnd_nonneg)
  have DS: "D \<le> S" using assms(4) by (simp add: D_def S_def f32.rnd_mono)
  show "0 \<le> D" by (rule D0)
  show "D \<le> 2 ^ 61" using DS S(2) by (rule order_trans)
  have q0: "0 \<le> C / S" using S0 assms(5) by simp
  then show "0 \<le> C / rnd b32 (H - L)" by (simp add: S_def)
  have "C * 1 \<le> 65536 * (2 ^ 60 * S)" using S(1) assms(5,6) by (intro mult_mono) (simp_all add: field_simps)
  then have "C / S \<le> 2 ^ 76" using S0 by (simp add: divide_le_eq)
  then show "C / rnd b32 (H - L) \<le> 2 ^ 76" by (simp add: S_def)
  have R0: "0 \<le> R" using q0 by (simp add: R_def S_def f32.rnd_nonneg)
  show DR0: "0 \<le> D * R" using D0 R0 by simp
  have "R \<le> C / S + C / S / 2 ^ 24 + 1 / 2 ^ 150"
    using f32_error [of "C / S"] abs_of_nonneg [OF q0] unfolding R_def S_def [symmetric] by linarith
  then have "S * R \<le> S * (C / S + C / S / 2 ^ 24 + 1 / 2 ^ 150)" using S0 by simp
  also have "\<dots> = C + C / 2 ^ 24 + S / 2 ^ 150" using S0 by (simp add: field_simps)
  finally have "S * R \<le> C + C / 2 ^ 24 + S / 2 ^ 150" .
  then have "S * R \<le> C + 1 / 64" using S(2) assms(6) by simp
  moreover have "D * R \<le> S * R" using DS R0 by (rule mult_right_mono)
  ultimately show DR: "D * R \<le> C + 1 / 64" by (rule order_trans [rotated])
  show "0 \<le> hi_scaled L H X C" using DR0 by (simp add: hi_scaled_def R_def D_def f32.rnd_nonneg)
  have "\<bar>D * R\<bar> \<le> 65537" using DR0 DR assms(6) by simp
  then have "\<bar>rnd b32 (D * R) - D * R\<bar> \<le> 1 / 64"
    using f32_error [of "D * R"] by (simp add: field_simps)
  then show "hi_scaled L H X C < C + 1"
    using DR unfolding hi_scaled_def R_def [symmetric] D_def [symmetric] by linarith
qed

lemma hi_float_to_uint_in_range:
  assumes r: "range_ok lo hi" and x: "is_fin x" "fval lo \<le> fval x" "fval x \<le> fval hi"
    and b: "1 \<le> bits" "bits \<le> 16"
  defines "T \<equiv> hi_scaled (fval lo) (fval hi) (fval x) (2 ^ bits)"
  shows "hi_float_to_uint x lo hi bits = Some (word_of_int \<lfloor>T\<rfloor>)"
    and "0 \<le> \<lfloor>T\<rfloor>" and "\<lfloor>T\<rfloor> \<le> 2 ^ bits"
proof -
  let ?C = "2 ^ bits :: rat"
  note f = range_okD [OF r]
  have C: "1 \<le> ?C" "?C \<le> 65536" "(2::int) ^ bits \<le> 65536"
    using b power_increasing [OF b(2), of "2::rat"] power_increasing [OF b(2), of "2::int"] by simp_all
  have w: "1 / 2 ^ 60 \<le> fval hi - fval lo" "fval hi - fval lo \<le> 2 ^ 61"
    using r unfolding range_ok_def by (simp_all add: abs_le_iff)
  note st = hi_scaled_range [OF w x(2,3) C(1,2)]
  have noclamp: "\<not> fp_lt x lo" "\<not> fp_lt hi x" using x f by (auto simp: fp_lt_fin)
  have span: "is_fin (fp_sub b32 hi lo)" "fval (fp_sub b32 hi lo) = rnd b32 (fval hi - fval lo)"
    using f32_sub [OF f(2,1)] w by (auto simp: abs_le_iff)
  have diff: "is_fin (fp_sub b32 x lo)" "fval (fp_sub b32 x lo) = rnd b32 (fval x - fval lo)"
    using f32_sub [OF x(1) f(1)] x w by (auto simp: abs_le_iff)
  have c: "is_fin (fp_of_int b32 (2 ^ bits))" "fval (fp_of_int b32 (2 ^ bits)) = ?C"
    using f32_of_int [of "2 ^ bits"] C(3) by simp_all
  have s0: "0 < rnd b32 (fval hi - fval lo)"
    using span_bounds(1) [OF w] by (rule less_le_trans [rotated]) simp
  have k: "is_fin (fp_div b32 (fp_of_int b32 (2 ^ bits)) (fp_sub b32 hi lo))"
    "fval (fp_div b32 (fp_of_int b32 (2 ^ bits)) (fp_sub b32 hi lo)) = rnd b32 (?C / rnd b32 (fval hi - fval lo))"
    using f32_div [OF c(1) span(1)] span c s0 st(3,4) by (simp_all add: abs_of_nonneg)
  define y where "y = fp_mul b32 (fp_sub b32 x lo) (fp_div b32 (fp_of_int b32 (2 ^ bits)) (fp_sub b32 hi lo))"
  have y: "is_fin y" "fval y = T"
    using f32_mul [OF diff(1) k(1)] diff(2) k(2) st(5,6) C(2)
    by (simp_all add: y_def T_def hi_scaled_def abs_of_nonneg)
  show t0: "0 \<le> \<lfloor>T\<rfloor>" using st(1) by (simp add: T_def)
  have "T < of_int (2 ^ bits + 1)" using st(2) by (simp add: T_def)
  then show t1: "\<lfloor>T\<rfloor> \<le> 2 ^ bits" unfolding floor_less_iff [symmetric] by simp
  have "fp_trunc y = Some \<lfloor>T\<rfloor>" using fp_trunc_nonneg [OF y(1)] y(2) t0 by simp
  moreover have "- (2 ^ 31) \<le> \<lfloor>T\<rfloor>" "\<lfloor>T\<rfloor> < 2 ^ 31"
  proof -
    have "- (2 ^ 31) \<le> (0 :: int)" by simp
    then show "- (2 ^ 31) \<le> \<lfloor>T\<rfloor>" using t0 by (rule order_trans)
    have "(65536 :: int) < 2 ^ 31" by simp
    with order_trans [OF t1 C(3)] show "\<lfloor>T\<rfloor> < 2 ^ 31" by (rule le_less_trans)
  qed
  ultimately have "cast_i32 y = Some (word_of_int \<lfloor>T\<rfloor>)"
    by (simp only: cast_i32_def option.case) (simp only: if_True simp_thms)
  then show "hi_float_to_uint x lo hi bits = Some (word_of_int \<lfloor>T\<rfloor>)"
    using noclamp by (simp add: hi_float_to_uint_def Let_def y_def)
qed

text \<open>Whatever finite value is scaled, the field exists.\<close>

lemma hi_field_total:
  assumes ok: "limits_ok lo hi" and x: "is_fin x" and b: "1 \<le> bits" "bits \<le> 16"
  obtains n where "hi_field x lo hi bits = Some n"
proof -
  let ?l = "fp_conv b32 lo" and ?h = "fp_conv b32 hi"
  have r: "range_ok ?l ?h" using ok by (simp add: limits_ok_def)
  note f = range_okD [OF r]
  define y where "y = (if fp_lt x ?l then ?l else if fp_lt ?h x then ?h else x)"
  have y: "is_fin y" "fval ?l \<le> fval y" "fval y \<le> fval ?h"
    using f x by (auto simp: y_def fp_lt_fin)
  have "hi_float_to_uint x ?l ?h bits = hi_float_to_uint y ?l ?h bits"
    using f x y by (auto simp: hi_float_to_uint_def y_def Let_def fp_lt_fin)
  then show thesis
    using hi_float_to_uint_in_range(1) [OF r y b] that by (simp add: hi_field_def)
qed

lemma hi_clamp_eq: "hi_clamp lo x hi = clampf (fp_conv b32 lo) x (fp_conv b32 hi)"
  by (simp add: hi_clamp_def)

lemma hi_clamp_fin: "limits_ok lo hi \<Longrightarrow> is_fin (hi_clamp lo x hi)"
  by (auto simp: hi_clamp_def limits_ok_def intro: clampf_range range_okD)

lemma pack_cmd_fields:
  assumes "config_ok cfg"
  defines "neg \<equiv> \<lambda>x. if invert cfg then fp_mul b32 x (fp_of_int b32 (-1)) else x"
  obtains n1 n2 n3 n4 n5 where
    "pack_cmd p v t kp kd cfg m =
       Some \<lparr>frame_id = can_id cfg, frame_len = 8, frame_data = pack_v2 n1 n2 n3 n4 n5\<rparr>"
    "hi_field (hi_clamp (P_MIN cfg) (neg p) (P_MAX cfg)) (P_MIN cfg) (P_MAX cfg) 16 = Some n1"
proof -
  have l: "limits_ok (P_MIN cfg) (P_MAX cfg)" "limits_ok (V_MIN cfg) (V_MAX cfg)"
    "limits_ok (I_MIN cfg) (I_MAX cfg)" "limits_ok (KP_MIN cfg) (KP_MAX cfg)"
    "limits_ok (KD_MIN cfg) (KD_MAX cfg)" using assms by (simp_all add: config_ok_def)
  have t: "\<exists>n. hi_field x lo hi b = Some n" if "limits_ok lo hi" "is_fin x" "b = 12 \<or> b = 16" for x lo hi b
    using hi_field_total [OF that(1,2), of b] that(3) by force
  define ga where "ga = (if m = POSITION
             then (hi_clamp (KP_MIN cfg) kp (KP_MAX cfg), hi_clamp (KD_MIN cfg) kd (KD_MAX cfg))
             else if m = VELOCITY
             then (Fin 0, hi_clamp (KD_MIN cfg) kd (KD_MAX cfg))
             else (Fin 0, Fin 0))"
  have g: "is_fin (fst ga)" "is_fin (snd ga)" using l by (auto simp: ga_def hi_clamp_fin)
  obtain n1 where 1: "hi_field (hi_clamp (P_MIN cfg) (neg p) (P_MAX cfg)) (P_MIN cfg) (P_MAX cfg) 16 = Some n1"
    using t [OF l(1) hi_clamp_fin [OF l(1)]] by blast
  obtain n2 where 2: "hi_field (hi_clamp (V_MIN cfg) (neg v) (V_MAX cfg)) (V_MIN cfg) (V_MAX cfg) 12 = Some n2"
    using t [OF l(2) hi_clamp_fin [OF l(2)]] by blast
  obtain n3 where 3: "hi_field (fst ga) (KP_MIN cfg) (KP_MAX cfg) 12 = Some n3" using t [OF l(4) g(1)] by blast
  obtain n4 where 4: "hi_field (snd ga) (KD_MIN cfg) (KD_MAX cfg) 12 = Some n4" using t [OF l(5) g(2)] by blast
  obtain n5 where 5: "hi_field (hi_clamp (I_MIN cfg) (neg t) (I_MAX cfg)) (I_MIN cfg) (I_MAX cfg) 12 = Some n5"
    using t [OF l(3) hi_clamp_fin [OF l(3)]] by blast
  show thesis
    by (rule that [of n1 n2 n3 n4 n5])
      (simp_all only: pack_cmd_def Let_def ga_def [symmetric] neg_def [symmetric] case_prod_unfold 1 2 3 4 5 option.case)
qed

lemma pack_cmd_total:
  assumes "config_ok cfg"
  obtains x where "pack_cmd p v t kp kd cfg m = Some \<lparr>frame_id = can_id cfg, frame_len = 8, frame_data = x\<rparr>"
  using pack_cmd_fields [OF assms] by metis

section \<open>What the frames do to the object\<close>

text \<open>What no frame changes: configuration, commands and modes, and the number of states.\<close>

definition hi_kept :: "plugin \<Rightarrow> plugin \<Rightarrow> bool" where
  "hi_kept p p' \<longleftrightarrow>
     hw_joint_configs p' = hw_joint_configs p \<and> sorted_idx p' = sorted_idx p \<and>
     set_zero_pos_on_startup p' = set_zero_pos_on_startup p \<and>
     hw_commands_position p' = hw_commands_position p \<and>
     hw_commands_velocity p' = hw_commands_velocity p \<and>
     hw_commands_effort p' = hw_commands_effort p \<and> hw_commands_kp p' = hw_commands_kp p \<and>
     hw_commands_kd p' = hw_commands_kd p \<and> hw_control_level p' = hw_control_level p \<and>
     length (hw_states_position p') = length (hw_states_position p) \<and>
     length (hw_states_velocity p') = length (hw_states_velocity p) \<and>
     length (hw_states_effort p') = length (hw_states_effort p) \<and>
     length (hw_states_temperature p') = length (hw_states_temperature p) \<and>
     wr_errno (hw_socket p') = wr_errno (hw_socket p)"

lemma hi_kept_refl [simp]: "hi_kept p p"
  by (simp add: hi_kept_def)

lemma hi_kept_trans [trans]: "hi_kept a b \<Longrightarrow> hi_kept b c \<Longrightarrow> hi_kept a c"
  by (simp add: hi_kept_def)

lemma unpack_reply_kept:
  "hi_kept p (snd (unpack_reply f p))" "hw_socket (snd (unpack_reply f p)) = hw_socket p"
  by (simp_all add: unpack_reply_def hi_kept_def Let_def split: option.split)

lemma unpack_reply_verdict:
  "fst (unpack_reply f p) = NO_FAULT \<longleftrightarrow>
     d7 (frame_data f) = 0 \<or> can_id ` set (hw_joint_configs p) \<inter> {frame_id f} = {}"
proof (cases "find_index (\<lambda>conf. can_id conf = frame_id f) (hw_joint_configs p)")
  case None
  then have "frame_id f \<notin> can_id ` set (hw_joint_configs p)" by (auto simp: find_index_None)
  with None show ?thesis by (simp add: unpack_reply_def)
next
  case (Some i)
  then have "frame_id f \<in> can_id ` set (hw_joint_configs p)"
    using find_index_Some [OF Some] by (metis image_eqI nth_mem)
  then show ?thesis using Some by (simp add: unpack_reply_def Let_def)
qed

abbreviation hi_link_up :: "plugin \<Rightarrow> bool" where
  "hi_link_up p \<equiv> \<forall>k. wr_errno (hw_socket p) k = 0"

lemma write_to_can_result:
  assumes "write_to_can f p = (r, p')"
  shows "hi_kept p p'" and "rx_queue (hw_socket p') = rx_queue (hw_socket p)"
    and "r = OK \<Longrightarrow> sent (hw_socket p') = sent (hw_socket p) @ [f]"
    and "r \<noteq> OK \<Longrightarrow> sent (hw_socket p') = sent (hw_socket p)"
    and "hi_link_up p \<Longrightarrow> r = OK"
proof -
  define s where "s = sys_write f (hw_socket p)"
  have e: "r = (if fst s then OK else ERR)" "p' = p\<lparr>hw_socket := snd s\<rparr>"
    using assms by (auto simp: write_to_can_def Let_def s_def split: prod.splits)
  show "hi_kept p p'" "rx_queue (hw_socket p') = rx_queue (hw_socket p)"
    by (simp_all add: e hi_kept_def s_def sys_write_frame)
  show "r = OK \<Longrightarrow> sent (hw_socket p') = sent (hw_socket p) @ [f]"
    "r \<noteq> OK \<Longrightarrow> sent (hw_socket p') = sent (hw_socket p)" "hi_link_up p \<Longrightarrow> r = OK"
    by (auto simp: e s_def sys_write_sent split: if_splits)
qed

lemma hi_read_result:
  assumes "hi_read p = (n, f, p')"
  shows "hi_kept p p'" and "rx_queue (hw_socket p') = tl (rx_queue (hw_socket p))"
    and "sent (hw_socket p') = sent (hw_socket p)"
    and "n = (case rx_queue (hw_socket p) of Rx_Msg k g cs # q \<Rightarrow> int k | _ \<Rightarrow> -1)"
    and "f = (case rx_queue (hw_socket p) of Rx_Msg (Suc k) g cs # q \<Rightarrow> g | _ \<Rightarrow> zero_frame)"
  using assms
  by (auto simp: hi_read_def sys_recv_def Let_def hi_kept_def split: list.splits rx_outcome.splits nat.splits)

text \<open>The reply a control frame waits for: the frame next in the queue is the joint's, without a fault.\<close>

fun confirms :: "u32 \<Rightarrow> rx_outcome list \<Rightarrow> bool" where
  "confirms cid (Rx_Msg (Suc n) f cs # q) \<longleftrightarrow> frame_id f = cid \<and> d7 (frame_data f) = 0"
| "confirms cid q \<longleftrightarrow> False"

definition control_request :: "can_data \<Rightarrow> joint_config \<Rightarrow> can_frame" where
  "control_request x c = \<lparr>frame_id = can_id c, frame_len = 8, frame_data = x\<rparr>"

lemma send_control_frame_result:
  assumes "send_control_frame (can_id c) x p = (r, p')" and "c \<in> set (hw_joint_configs p)"
    and "hi_link_up p"
  shows "hi_kept p p'" and "rx_queue (hw_socket p') = tl (rx_queue (hw_socket p))"
    and "sent (hw_socket p') = sent (hw_socket p) @ [control_request x c]"
    and "r = OK \<longleftrightarrow> confirms (can_id c) (rx_queue (hw_socket p))"
proof -
  obtain r1 p1 where w: "write_to_can (control_request x c) p = (r1, p1)" by force
  obtain n f p2 where rd: "hi_read p1 = (n, f, p2)" by (metis prod_cases3)
  obtain e p3 where u: "unpack_reply f p2 = (e, p3)" by force
  note W = write_to_can_result [OF w] and R = hi_read_result [OF rd]
  have ok: "r1 = OK" using W(5) assms(3) .
  have U: "hi_kept p2 p3" "hw_socket p3 = hw_socket p2" using unpack_reply_kept [where p = p2 and f = f] u by simp_all
  have E: "e = NO_FAULT \<longleftrightarrow> d7 (frame_data f) = 0" if "frame_id f = can_id c"
    using unpack_reply_verdict [of f p2] u that assms(2) W(1) R(1) by (auto simp: hi_kept_def)
  have s: "(r, p') = (if n \<le> 0 then (ERR, p2) else if frame_id f \<noteq> can_id c then (ERR, p2)
      else (if e \<noteq> NO_FAULT then ERR else OK, p3))"
    using assms(1) w ok rd u by (simp add: send_control_frame_def control_request_def split: if_splits)
  have k: "hi_kept p p2" using W(1) R(1) by (rule hi_kept_trans)
  show "hi_kept p p'" using s k hi_kept_trans [OF k U(1)] by (auto split: if_splits)
  show "rx_queue (hw_socket p') = tl (rx_queue (hw_socket p))"
    using s U(2) R(2) W(2) by (auto split: if_splits)
  show "sent (hw_socket p') = sent (hw_socket p) @ [control_request x c]"
    using s U(2) R(3) W(3) [OF ok] by (auto split: if_splits)
  have q: "rx_queue (hw_socket p1) = rx_queue (hw_socket p)" by (rule W(2))
  have c: "confirms (can_id c) (rx_queue (hw_socket p)) \<longleftrightarrow> 0 < n \<and> frame_id f = can_id c \<and> d7 (frame_data f) = 0"
    using R(4,5) unfolding q
    by (cases "(can_id c, rx_queue (hw_socket p))" rule: confirms.cases) auto
  show "r = OK \<longleftrightarrow> confirms (can_id c) (rx_queue (hw_socket p))"
    unfolding c using s E by (auto split: if_splits)
qed

section \<open>Activation and deactivation\<close>

lemma deactivate_joints_result:
  assumes "deactivate_joints js ret p = (r, p')" and "set js \<subseteq> set (hw_joint_configs p)"
    and "hi_link_up p"
  shows "hi_kept p p' \<and>
    sent (hw_socket p') = sent (hw_socket p) @ map (control_request EXIT_MOTOR_CONTROL_MODE) js \<and>
    (r = CB_SUCCESS \<longleftrightarrow> ret = CB_SUCCESS \<and>
      (\<forall>i<length js. confirms (can_id (js ! i)) (drop i (rx_queue (hw_socket p)))))"
  using assms
proof (induction js arbitrary: ret p)
  case (Cons c js)
  obtain r1 p1 where s: "send_control_frame (can_id c) EXIT_MOTOR_CONTROL_MODE p = (r1, p1)" by force
  note S = send_control_frame_result [OF s _ Cons.prems(3)]
  have c: "c \<in> set (hw_joint_configs p)" using Cons.prems(2) by simp
  note K = S(1) [OF c]
  have "deactivate_joints js (if r1 = OK then ret else CB_ERROR) p1 = (r, p')"
    using Cons.prems(1) s by (simp add: hi_exit_motor_control_mode_def)
  note IH = Cons.IH [OF this]
  have IH': "hi_kept p1 p' \<and>
    sent (hw_socket p') = sent (hw_socket p1) @ map (control_request EXIT_MOTOR_CONTROL_MODE) js \<and>
    (r = CB_SUCCESS \<longleftrightarrow> (if r1 = OK then ret else CB_ERROR) = CB_SUCCESS \<and>
      (\<forall>i<length js. confirms (can_id (js ! i)) (drop i (rx_queue (hw_socket p1)))))"
    using IH K Cons.prems(2,3) by (simp add: hi_kept_def)
  have kept: "hi_kept p p'" using K IH' hi_kept_trans by blast
  have all: "(\<forall>i<length (c # js). P i) \<longleftrightarrow> P 0 \<and> (\<forall>i<length js. P (Suc i))" for P
    by (auto simp: less_Suc_eq_0_disj)
  have "(r = CB_SUCCESS) = (ret = CB_SUCCESS \<and> r1 = OK \<and>
      (\<forall>i<length js. confirms (can_id (js ! i)) (drop i (tl (rx_queue (hw_socket p))))))"
    using IH' S(2) [OF c] by auto
  then show ?case
    using kept IH' S(3,4) [OF c] unfolding all by (auto simp: drop_Suc)
qed simp

text \<open>The requests of an activation, and the first that is not confirmed.\<close>

definition requests :: "bool \<Rightarrow> joint_config list \<Rightarrow> (can_data \<times> joint_config) list" where
  "requests zero js = concat (map (\<lambda>c.
     (if zero then [(SET_ZERO_POSITION, c)] else []) @ [(START_MOTOR_CONTROL_MODE, c)]) js)"

fun first_refusal :: "(can_data \<times> joint_config) list \<Rightarrow> rx_outcome list \<Rightarrow> nat option" where
  "first_refusal [] q = None"
| "first_refusal ((x, c) # rs) q =
     (if confirms (can_id c) q then map_option Suc (first_refusal rs (tl q)) else Some 0)"

definition asked :: "(can_data \<times> joint_config) list \<Rightarrow> rx_outcome list \<Rightarrow> (can_data \<times> joint_config) list" where
  "asked rs q = (case first_refusal rs q of None \<Rightarrow> rs | Some k \<Rightarrow> take (Suc k) rs)"

lemma asked_simps [simp]:
  "asked [] q = []"
  "asked ((x, c) # rs) q = (x, c) # (if confirms (can_id c) q then asked rs (tl q) else [])"
  by (auto simp: asked_def split: option.splits)

lemma activate_joints_result:
  assumes "activate_joints js p = (r, p')" and "set js \<subseteq> set (hw_joint_configs p)"
    and "hi_link_up p"
  defines "rs \<equiv> requests (set_zero_pos_on_startup p) js"
  shows "hi_kept p p' \<and>
    sent (hw_socket p') = sent (hw_socket p) @ map (\<lambda>(x, c). control_request x c) (asked rs (rx_queue (hw_socket p))) \<and>
    (r = CB_SUCCESS \<longleftrightarrow> first_refusal rs (rx_queue (hw_socket p)) = None)"
  unfolding rs_def using assms(1-3)
proof (induction js arbitrary: p)
  case (Cons c js)
  have c: "c \<in> set (hw_joint_configs p)" using Cons.prems(2) by simp
  define zero where "zero = set_zero_pos_on_startup p"
  obtain r0 p0 where z: "(if zero then send_control_frame (can_id c) SET_ZERO_POSITION p else (OK, p)) = (r0, p0)"
    by force
  note Z = send_control_frame_result [OF _ c Cons.prems(3)]
  have Z': "hi_kept p p0" "\<not> zero \<Longrightarrow> r0 = OK \<and> p0 = p"
    "zero \<Longrightarrow> rx_queue (hw_socket p0) = tl (rx_queue (hw_socket p)) \<and>
       sent (hw_socket p0) = sent (hw_socket p) @ [control_request SET_ZERO_POSITION c] \<and>
       (r0 = OK \<longleftrightarrow> confirms (can_id c) (rx_queue (hw_socket p)))"
    using z Z [of SET_ZERO_POSITION r0 p0] by (auto split: if_splits)
  have req: "requests zero (c # js) =
      (if zero then [(SET_ZERO_POSITION, c)] else []) @ (START_MOTOR_CONTROL_MODE, c) # requests zero js"
    by (simp add: requests_def)
  show ?case
  proof (cases "r0 = OK")
    case False
    then have "zero" "r = CB_ERROR" "p' = p0"
      using z Z'(2) Cons.prems(1) by (auto simp: hi_set_zero_position_def zero_def split: if_splits)
    then show ?thesis using Z' False req by (simp add: zero_def [symmetric])
  next
    case True
    obtain r1 p1 where s: "send_control_frame (can_id c) START_MOTOR_CONTROL_MODE p0 = (r1, p1)" by force
    have c0: "c \<in> set (hw_joint_configs p0)" "hi_link_up p0"
      using c Cons.prems(3) Z'(1) by (simp_all add: hi_kept_def)
    note S = send_control_frame_result [OF s c0]
    have step: "(r, p') = (if r1 \<noteq> OK then (CB_ERROR, p1) else activate_joints js p1)"
      using Cons.prems(1) z s True
      by (auto simp: hi_set_zero_position_def hi_start_motor_control_mode_def zero_def split: if_splits)
    have k1: "hi_kept p p1" using Z'(1) S(1) by (rule hi_kept_trans)
    show ?thesis
    proof (cases "r1 = OK")
      case False
      then show ?thesis using step True Z' S k1 req by (cases zero) (auto simp: zero_def [symmetric])
    next
      case r1: True
      have z1: "set_zero_pos_on_startup p1 = zero" using k1 by (simp add: hi_kept_def zero_def)
      have "hi_kept p1 p' \<and>
          sent (hw_socket p') = sent (hw_socket p1) @
            map (\<lambda>(x, c). control_request x c) (asked (requests zero js) (rx_queue (hw_socket p1))) \<and>
          (r = CB_SUCCESS \<longleftrightarrow> first_refusal (requests zero js) (rx_queue (hw_socket p1)) = None)"
        using Cons.IH [of p1] step r1 k1 Cons.prems(2,3) unfolding z1 by (simp add: hi_kept_def)
      then show ?thesis
        using True r1 Z' S hi_kept_trans [OF k1] req
        by (cases zero) (auto simp: zero_def [symmetric])
    qed
  qed
qed (simp add: requests_def)

section \<open>The cycle\<close>

text \<open>The frame of one joint, and what the cycle accepts as the outcome of a read.\<close>

definition joint_frame :: "plugin \<Rightarrow> nat \<Rightarrow> can_frame option" where
  "joint_frame p i =
     pack_cmd (fp_conv b32 (hw_commands_position p ! i)) (fp_conv b32 (hw_commands_velocity p ! i))
       (fp_conv b32 (hw_commands_effort p ! i)) (fp_conv b32 (hw_commands_kp p ! i))
       (fp_conv b32 (hw_commands_kd p ! i)) (hw_joint_configs p ! i) (hw_control_level p ! i)"

fun acceptable :: "joint_config list \<Rightarrow> rx_outcome list \<Rightarrow> bool" where
  "acceptable cfgs (Rx_Msg (Suc n) f cs # q) \<longleftrightarrow>
     frame_id f \<noteq> 0 \<and> (d7 (frame_data f) = 0 \<or> frame_id f \<notin> can_id ` set cfgs)"
| "acceptable cfgs q \<longleftrightarrow> False"

text \<open>The shape of the object: vectors of one length, and a permutation sorted by falling id.\<close>

definition plugin_ok :: "plugin \<Rightarrow> bool" where
  "plugin_ok p \<longleftrightarrow> (let n = length (hw_joint_configs p) in
     length (hw_commands_position p) = n \<and> length (hw_commands_velocity p) = n \<and>
     length (hw_commands_effort p) = n \<and> length (hw_commands_kp p) = n \<and>
     length (hw_commands_kd p) = n \<and> length (hw_states_position p) = n \<and>
     length (hw_states_velocity p) = n \<and> length (hw_states_effort p) = n \<and>
     length (hw_states_temperature p) = n \<and> length (hw_control_level p) = n \<and>
     mset (sorted_idx p) = mset [0..<n] \<and>
     sorted_wrt (\<ge>) (map (\<lambda>i. can_id (hw_joint_configs p ! i)) (sorted_idx p)))"

lemma hi_kept_ok: "hi_kept p p' \<Longrightarrow> plugin_ok p' \<longleftrightarrow> plugin_ok p"
  by (simp add: hi_kept_def plugin_ok_def)

lemma joint_frame_kept: "hi_kept p p' \<Longrightarrow> joint_frame p' = joint_frame p"
  by (simp add: hi_kept_def joint_frame_def fun_eq_iff)

lemma sorted_idx_set: "plugin_ok p \<Longrightarrow> set (sorted_idx p) = {0..<length (hw_joint_configs p)}"
  unfolding plugin_ok_def Let_def using mset_eq_setD by fastforce

text \<open>The positions in the sending order up to the first write that fails.\<close>

definition written_upto :: "nat \<Rightarrow> sock \<Rightarrow> nat list" where
  "written_upto n s = takeWhile (\<lambda>k. wr_errno s (wr_calls s + k) = 0) [0..<n]"

lemma written_upto_Suc:
  assumes "wr_errno s' = wr_errno s" and "wr_calls s' = Suc (wr_calls s)"
  shows "written_upto (Suc n) s = (if wr_errno s (wr_calls s) = 0 then 0 # map Suc (written_upto n s') else [])"
proof -
  have "[0..<Suc n] = 0 # map Suc [0..<n]" by (simp add: upt_conv_Cons map_Suc_upt del: upt_Suc)
  then show ?thesis using assms by (simp add: written_upto_def takeWhile_map comp_def del: upt_Suc)
qed

lemma hi_tx_result:
  assumes "\<forall>i\<in>set is. joint_frame p i \<noteq> None"
  shows "\<exists>r p'. hi_tx is p = Some (r, p') \<and> hi_kept p p' \<and>
    rx_queue (hw_socket p') = rx_queue (hw_socket p) \<and>
    sent (hw_socket p') = sent (hw_socket p) @
      map (\<lambda>k. the (joint_frame p (is ! k))) (written_upto (length is) (hw_socket p)) \<and>
    (r = OK \<longleftrightarrow> (\<forall>k<length is. wr_errno (hw_socket p) (wr_calls (hw_socket p) + k) = 0))"
  using assms
proof (induction "is" arbitrary: p)
  case Nil
  then show ?case by (simp add: written_upto_def)
next
  case (Cons i js)
  from Cons.prems obtain f where f: "joint_frame p i = Some f" by auto
  obtain r1 p1 where w: "write_to_can f p = (r1, p1)" by force
  note W = write_to_can_result [OF w]
  have s: "wr_errno (hw_socket p1) = wr_errno (hw_socket p)" "wr_calls (hw_socket p1) = Suc (wr_calls (hw_socket p))"
    and ok: "r1 = OK \<longleftrightarrow> wr_errno (hw_socket p) (wr_calls (hw_socket p)) = 0"
    using w by (auto simp: write_to_can_def Let_def sys_write_frame sys_write_sent split_beta split: if_splits)
  have step: "hi_tx (i # js) p = (if r1 \<noteq> OK then Some (ERR, p1) else hi_tx js p1)"
    using f w by (simp add: joint_frame_def)
  have all: "(\<forall>k<length (i # js). P k) \<longleftrightarrow> P 0 \<and> (\<forall>k<length js. P (Suc k))" for P
    by (auto simp: less_Suc_eq_0_disj)
  show ?case
  proof (cases "r1 = OK")
    case False
    then show ?thesis using step ok W(1,2,4) by (auto simp: written_upto_Suc [OF s])
  next
    case True
    have "\<forall>j\<in>set js. joint_frame p1 j \<noteq> None" using Cons.prems by (simp add: joint_frame_kept [OF W(1)])
    from Cons.IH [OF this] obtain r p' where p': "hi_tx js p1 = Some (r, p')" "hi_kept p1 p'"
      "rx_queue (hw_socket p') = rx_queue (hw_socket p1)"
      "sent (hw_socket p') = sent (hw_socket p1) @
        map (\<lambda>k. the (joint_frame p1 (js ! k))) (written_upto (length js) (hw_socket p1))"
      "r = OK \<longleftrightarrow> (\<forall>k<length js. wr_errno (hw_socket p1) (wr_calls (hw_socket p1) + k) = 0)" by blast
    have "hi_kept p p'" using W(1) p'(2) by (rule hi_kept_trans)
    moreover have "r = OK \<longleftrightarrow> (\<forall>k<length (i # js). wr_errno (hw_socket p) (wr_calls (hw_socket p) + k) = 0)"
      unfolding all using p'(5) True ok by (simp add: s)
    ultimately show ?thesis
      using step True p'(1,3,4) W(2) W(3) [OF True] f ok
      by (simp add: written_upto_Suc [OF s] joint_frame_kept [OF W(1)] comp_def)
  qed
qed

lemma hi_rx_result:
  assumes "hi_rx is p = (r, p')"
  shows "hi_kept p p' \<and> sent (hw_socket p') = sent (hw_socket p) \<and>
    (r = OK \<longleftrightarrow> (\<forall>k<length is. acceptable (hw_joint_configs p) (drop k (rx_queue (hw_socket p)))))"
  using assms
proof (induction "is" arbitrary: p)
  case (Cons i js)
  obtain n f p1 where rd: "hi_read p = (n, f, p1)" by (metis prod_cases3)
  obtain e p2 where u: "unpack_reply f p1 = (e, p2)" by force
  note R = hi_read_result [OF rd]
  have U: "hi_kept p1 p2" "hw_socket p2 = hw_socket p1"
    using unpack_reply_kept [where p = p1 and f = f] u by simp_all
  have e: "e = NO_FAULT \<longleftrightarrow> d7 (frame_data f) = 0 \<or> frame_id f \<notin> can_id ` set (hw_joint_configs p)"
    using unpack_reply_verdict [where p = p1 and f = f] u R(1) by (auto simp: hi_kept_def)
  have first: "acceptable (hw_joint_configs p) (rx_queue (hw_socket p)) \<longleftrightarrow>
      0 \<le> n \<and> frame_id f \<noteq> 0 \<and> e = NO_FAULT"
    using R(4,5) e by (cases "(hw_joint_configs p, rx_queue (hw_socket p))" rule: acceptable.cases)
      (auto simp: zero_frame_def)
  have all: "(\<forall>k<length (i # js). P k) \<longleftrightarrow> P 0 \<and> (\<forall>k<length js. P (Suc k))" for P
    by (auto simp: less_Suc_eq_0_disj)
  have step: "(r, p') = (if n < 0 then (ERR, p1) else if frame_id f = 0 then (ERR, p1)
      else if e \<noteq> NO_FAULT then (ERR, p2) else hi_rx js p2)"
    using Cons.prems rd u by (simp split: if_splits)
  have k2: "hi_kept p p2" using R(1) U(1) by (rule hi_kept_trans)
  show ?case
  proof (cases "0 \<le> n \<and> frame_id f \<noteq> 0 \<and> e = NO_FAULT")
    case False
    then have "r = ERR" "p' = p1 \<or> p' = p2" using step by (auto split: if_splits)
    then show ?thesis using False first R k2 U by (auto simp: all)
  next
    case True
    then have "hi_rx js p2 = (r, p')" using step by simp
    from Cons.IH [OF this]
    have IH: "hi_kept p2 p'" "sent (hw_socket p') = sent (hw_socket p)"
      "r = OK \<longleftrightarrow> (\<forall>k<length js. acceptable (hw_joint_configs p) (drop (Suc k) (rx_queue (hw_socket p))))"
      using U R k2 by (auto simp: hi_kept_def drop_Suc)
    have "hi_kept p p'" using k2 IH(1) by (rule hi_kept_trans)
    then show ?thesis unfolding all using True first IH(2,3) by simp
  qed
qed simp

lemma hi_write_result:
  assumes ok: "plugin_ok p" and cfgs: "\<forall>c\<in>set (hw_joint_configs p). config_ok c"
    and diff: "time_difference time (start_time p) = Inr diff"
  shows "\<exists>r p'. hi_write time p = (Ok r, p') \<and> hi_kept p p' \<and>
    sent (hw_socket p') = sent (hw_socket p) @ map (\<lambda>k. the (joint_frame p (sorted_idx p ! k)))
      (written_upto (length (hw_joint_configs p)) (hw_socket p)) \<and>
    (r = OK \<longleftrightarrow> (\<forall>k<length (hw_joint_configs p). wr_errno (hw_socket p) (wr_calls (hw_socket p) + k) = 0 \<and>
      acceptable (hw_joint_configs p) (drop k (rx_queue (hw_socket p)))))"
proof -
  define q where "q = (if 1000000000 < diff then p\<lparr>start_time := time\<rparr> else p)"
  have q: "hi_kept p q" "hw_socket q = hw_socket p" "sorted_idx q = sorted_idx p" "hw_joint_configs q = hw_joint_configs p"
    by (simp_all add: q_def hi_kept_def)
  have "\<forall>i\<in>set (sorted_idx p). joint_frame q i \<noteq> None"
  proof
    fix i assume "i \<in> set (sorted_idx p)"
    then have "config_ok (hw_joint_configs q ! i)" using cfgs sorted_idx_set [OF ok] q(4) by simp
    then show "joint_frame q i \<noteq> None"
      unfolding joint_frame_def by (metis pack_cmd_total option.distinct(1))
  qed
  from hi_tx_result [OF this] obtain r1 p1 where p1: "hi_tx (sorted_idx p) q = Some (r1, p1)" "hi_kept q p1"
    "rx_queue (hw_socket p1) = rx_queue (hw_socket p)"
    "sent (hw_socket p1) = sent (hw_socket p) @
      map (\<lambda>k. the (joint_frame p (sorted_idx p ! k))) (written_upto (length (sorted_idx p)) (hw_socket p))"
    "r1 = OK \<longleftrightarrow> (\<forall>k<length (sorted_idx p). wr_errno (hw_socket p) (wr_calls (hw_socket p) + k) = 0)"
    unfolding q(2) joint_frame_kept [OF q(1)] by blast
  have len: "length (sorted_idx p) = length (hw_joint_configs p)"
    using ok mset_eq_length [of "sorted_idx p" "[0..<length (hw_joint_configs p)]"]
    by (simp add: plugin_ok_def Let_def)
  have k1: "hi_kept p p1" using q(1) p1(2) by (rule hi_kept_trans)
  show ?thesis
  proof (cases r1)
    case ERR
    then have "hi_write time p = (Ok ERR, p1)" using p1(1) diff q(3) by (simp add: hi_write_def Let_def flip: q_def)
    then show ?thesis using ERR p1(4,5) k1 by (auto simp: len)
  next
    case OK
    obtain r p2 where p2: "hi_rx (sorted_idx p1) p1 = (r, p2)" by force
    note R = hi_rx_result [OF p2]
    have "hi_write time p = (Ok r, p2)" using p1(1) p2 OK diff q(3) by (simp add: hi_write_def Let_def flip: q_def)
    moreover have "hi_kept p p2" using k1 R hi_kept_trans by blast
    moreover have "\<forall>k<length (hw_joint_configs p). wr_errno (hw_socket p) (wr_calls (hw_socket p) + k) = 0"
      using OK p1(5) len by simp
    ultimately show ?thesis using p1(3,4) R k1 len by (simp add: hi_kept_def)
  qed
qed

section \<open>The mode switch\<close>

definition known_mode :: "string \<Rightarrow> bool" where
  "known_mode m \<longleftrightarrow> m = HW_IF_POSITION \<or> m = HW_IF_VELOCITY \<or> m = HW_IF_EFFORT \<or>
     m = HW_IF_PROPORTIONAL_GAIN \<or> m = HW_IF_DERIVATIVE_GAIN"

text \<open>
  What a set of started interfaces asks of the joint at an index: the strongest of its modes.
  Order and repetitions do not matter.
\<close>

definition asks :: "string list \<Rightarrow> string set \<Rightarrow> nat \<Rightarrow> string \<Rightarrow> bool" where
  "asks names keys i m \<longleftrightarrow> (\<exists>key\<in>keys. key_mode key = m \<and> find_index (\<lambda>n. n = key_name key) names = Some i)"

definition requested_mode :: "string list \<Rightarrow> string set \<Rightarrow> nat \<Rightarrow> JointMode" where
  "requested_mode names keys i =
     (if asks names keys i HW_IF_POSITION then POSITION
      else if asks names keys i HW_IF_VELOCITY then VELOCITY
      else if asks names keys i HW_IF_EFFORT then EFFORT
      else UNDEFINED)"

lemma asks_insert:
  "asks names (insert key keys) i m \<longleftrightarrow>
     (key_mode key = m \<and> find_index (\<lambda>n. n = key_name key) names = Some i) \<or> asks names keys i m"
  by (auto simp: asks_def)

lemma hw_if_distinct:
  "distinct [HW_IF_POSITION, HW_IF_VELOCITY, HW_IF_EFFORT, HW_IF_PROPORTIONAL_GAIN, HW_IF_DERIVATIVE_GAIN]"
  by (simp add: hw_if_defs)

lemma find_index_names: "find_index (\<lambda>n. n = x) xs \<noteq> None \<longleftrightarrow> x \<in> set xs"
  by (auto simp: find_index_None)

lemma start_interfaces_snoc:
  "start_interfaces names (keys @ [key]) modes =
     Option.bind (start_interfaces names keys modes) (start_interface names key)"
  by (induction keys arbitrary: modes) (auto split: option.split)

lemma start_interface_total:
  "start_interface names key modes \<noteq> None \<longleftrightarrow> (key_name key \<in> set names \<longrightarrow> known_mode (key_mode key))"
  using find_index_names [of "key_name key" names]
  by (cases "find_index (\<lambda>n. n = key_name key) names") (auto simp: start_interface_def known_mode_def Let_def)

lemma start_interface_length:
  "start_interface names key modes = Some modes' \<Longrightarrow> length modes' = length modes"
  by (auto simp: start_interface_def Let_def split: option.splits if_splits)

lemma start_interface_mode:
  assumes "start_interface names key modes = Some modes'" and "length modes = length names"
    and "\<forall>i<length names. modes ! i = requested_mode names keys i" and "i < length names"
  shows "modes' ! i = requested_mode names (insert key keys) i"
proof (cases "find_index (\<lambda>n. n = key_name key) names = Some i")
  case False
  then have "modes' ! i = modes ! i"
    using assms(1) by (auto simp: start_interface_def Let_def split: option.splits if_splits)
  then show ?thesis using False assms(3,4) by (simp add: requested_mode_def asks_insert)
next
  case True
  have m: "modes ! i = requested_mode names keys i" "i < length modes" using assms by simp_all
  consider "key_mode key = HW_IF_POSITION" | "key_mode key = HW_IF_VELOCITY" | "key_mode key = HW_IF_EFFORT"
    | "key_mode key = HW_IF_PROPORTIONAL_GAIN" | "key_mode key = HW_IF_DERIVATIVE_GAIN"
    using assms(1) True by (auto simp: start_interface_def Let_def split: if_splits)
  then show ?thesis
    by cases (use assms(1) True m hw_if_distinct in
      \<open>auto simp: start_interface_def requested_mode_def asks_insert split: if_splits\<close>)
qed

lemma start_interfaces_mode:
  fixes names keys
  defines "res \<equiv> start_interfaces names keys (replicate (length names) UNDEFINED)"
  shows "res \<noteq> None \<longleftrightarrow> (\<forall>key\<in>set keys. key_name key \<in> set names \<longrightarrow> known_mode (key_mode key))"
    and "res = Some modes \<Longrightarrow> length modes = length names \<and>
      (\<forall>i<length names. modes ! i = requested_mode names (set keys) i)"
proof -
  have "(res \<noteq> None \<longleftrightarrow> (\<forall>key\<in>set keys. key_name key \<in> set names \<longrightarrow> known_mode (key_mode key))) \<and>
    (\<forall>modes. res = Some modes \<longrightarrow> length modes = length names \<and>
      (\<forall>i<length names. modes ! i = requested_mode names (set keys) i))"
    unfolding res_def
  proof (induction keys rule: rev_induct)
    case (snoc key keys)
    let ?r = "start_interfaces names keys (replicate (length names) UNDEFINED)"
    show ?case
    proof (cases ?r)
      case None
      then show ?thesis using snoc by (auto simp: start_interfaces_snoc)
    next
      case (Some ms)
      then have ih: "length ms = length names" "\<forall>i<length names. ms ! i = requested_mode names (set keys) i"
        "\<forall>key\<in>set keys. key_name key \<in> set names \<longrightarrow> known_mode (key_mode key)" using snoc by auto
      have "length ms' = length names \<and> (\<forall>i<length names. ms' ! i = requested_mode names (insert key (set keys)) i)"
        if "start_interface names key ms = Some ms'" for ms'
        using start_interface_length [OF that] start_interface_mode [OF that ih(1,2)] ih(1) by simp
      then show ?thesis
        using Some ih(3) start_interface_total [of names key ms]
        by (auto simp: start_interfaces_snoc)
    qed
  qed (simp add: requested_mode_def asks_def)
  then show "res \<noteq> None \<longleftrightarrow> (\<forall>key\<in>set keys. key_name key \<in> set names \<longrightarrow> known_mode (key_mode key))"
    and "res = Some modes \<Longrightarrow> length modes = length names \<and>
      (\<forall>i<length names. modes ! i = requested_mode names (set keys) i)" by auto
qed

text \<open>Stopping: the joints whose name occurs in a stopped key hold their position.\<close>

definition stopped :: "plugin \<Rightarrow> string list \<Rightarrow> nat \<Rightarrow> bool" where
  "stopped p keys i \<longleftrightarrow> (\<exists>key\<in>set keys. contains key (joint_name (hw_joint_configs p ! i)))"

definition holds :: "(nat \<Rightarrow> bool) \<Rightarrow> plugin \<Rightarrow> plugin \<Rightarrow> bool" where
  "holds S p p' \<longleftrightarrow>
     p' = p\<lparr>hw_commands_position := hw_commands_position p', hw_commands_velocity := hw_commands_velocity p',
            hw_commands_effort := hw_commands_effort p'\<rparr> \<and>
     length (hw_commands_position p') = length (hw_commands_position p) \<and>
     length (hw_commands_velocity p') = length (hw_commands_velocity p) \<and>
     length (hw_commands_effort p') = length (hw_commands_effort p) \<and>
     (\<forall>i<length (hw_joint_configs p).
        hw_commands_position p' ! i = (if S i then hw_states_position p ! i else hw_commands_position p ! i) \<and>
        hw_commands_velocity p' ! i = (if S i then Fin 0 else hw_commands_velocity p ! i) \<and>
        hw_commands_effort p' ! i = (if S i then Fin 0 else hw_commands_effort p ! i))"

lemma holds_none: "holds (\<lambda>_. False) p p"
  by (simp add: holds_def)

lemma holds_trans:
  "holds S a b \<Longrightarrow> holds T b c \<Longrightarrow> (\<And>i. i < length (hw_joint_configs a) \<Longrightarrow> R i \<longleftrightarrow> S i \<or> T i) \<Longrightarrow> holds R a c"
  unfolding holds_def by (cases a; cases b; cases c) auto

lemma holds_joint:
  assumes "plugin_ok p" and "i < length (hw_joint_configs p)"
  shows "holds (\<lambda>j. j = i \<and> contains key (joint_name (hw_joint_configs p ! i))) p (stop_joint key i p)"
  using assms by (auto simp: holds_def stop_joint_def plugin_ok_def Let_def)

lemma holds_ok: "holds S p p' \<Longrightarrow> plugin_ok p' = plugin_ok p \<and> hw_joint_configs p' = hw_joint_configs p"
  unfolding holds_def by (cases p; cases p') (auto simp: plugin_ok_def)

lemma holds_stop_key:
  assumes "plugin_ok p"
  shows "holds (\<lambda>i. contains key (joint_name (hw_joint_configs p ! i))) p (stop_key key p)"
proof -
  have "holds (\<lambda>i. i < n \<and> contains key (joint_name (hw_joint_configs p ! i))) p
      (fold (stop_joint key) [0..<n] p)" if "n \<le> length (hw_joint_configs p)" for n
    using that
  proof (induction n)
    case 0
    then show ?case using holds_none by simp
  next
    case (Suc n)
    let ?p = "fold (stop_joint key) [0..<n] p"
    have h: "holds (\<lambda>i. i < n \<and> contains key (joint_name (hw_joint_configs p ! i))) p ?p" using Suc by simp
    have "holds (\<lambda>j. j = n \<and> contains key (joint_name (hw_joint_configs p ! n))) ?p (stop_joint key n ?p)"
      using holds_joint [of ?p n key] holds_ok [OF h] assms Suc.prems by simp
    from holds_trans [OF h this, of "\<lambda>i. i < Suc n \<and> contains key (joint_name (hw_joint_configs p ! i))"]
    show ?case by (auto simp: less_Suc_eq)
  qed
  from this [of "length (hw_joint_configs p)"] show ?thesis
    unfolding stop_key_def by (rule holds_trans [OF _ holds_none]) auto
qed

lemma holds_stop:
  assumes "plugin_ok p"
  shows "holds (stopped p keys) p (fold stop_key keys p)"
  using assms
proof (induction keys arbitrary: p)
  case Nil
  then show ?case using holds_none by (simp add: stopped_def)
next
  case (Cons key keys)
  note h = holds_stop_key [OF Cons.prems, of key]
  have "holds (stopped p keys) (stop_key key p) (fold stop_key keys (stop_key key p))"
    using Cons.IH [of "stop_key key p"] holds_ok [OF h] Cons.prems by (simp add: stopped_def [abs_def])
  then have "holds (stopped p (key # keys)) p (fold stop_key keys (stop_key key p))"
    by (rule holds_trans [OF h]) (auto simp: stopped_def)
  then show ?case by simp
qed

lemma rne_eqI:
  assumes "\<bar>x - of_int n\<bar> < 1 / 2"
  shows "rne x = n"
proof -
  have "\<bar>of_int (rne x) - of_int n :: rat\<bar> < 1" using rne_error [of x] assms by linarith
  then have "\<bar>of_int (rne x - n) :: rat\<bar> < 1" by simp
  then show ?thesis by linarith
qed

text \<open>The single-precision value of a number between two powers of two.\<close>

lemma f32_value:
  fixes e :: nat
  assumes "2 ^ e \<le> q" and "q < 2 ^ Suc e" and "e \<le> 23" and n: "\<bar>q * 2 ^ (23 - e) - of_int n\<bar> < 1 / 2"
  shows "rnd b32 q = of_int n / 2 ^ (23 - e)"
proof -
  have u: "(2::rat) powi max (int e - int (prec b32) + 1) (qmin b32) = 1 / 2 ^ (23 - e)"
    using assms(3) by (simp add: power_int_def of_nat_diff nat_diff_distrib' power_one_over)
  have "rnd b32 q = of_int (rne (q / (1 / 2 ^ (23 - e)))) * (1 / 2 ^ (23 - e))"
    using f32.rnd_eval [of "int e" q] assms(1,2) unfolding u Let_def
    by (simp add: power_int_add)
  then show ?thesis using rne_eqI [OF n] by simp
qed

lemma rnd_full_scale:
  "hi_scaled (- (25 / 2)) (25 / 2) (25 / 2) (2 ^ 16) = 65536"
  "hi_scaled 0 500 500 (2 ^ 12) = 4096"
proof -
  have e: "rnd b32 25 = 25" "rnd b32 500 = 500"
    using f32.rnd_exact [OF f32.representable_of_int [of 25]] f32.rnd_exact [OF f32.representable_of_int [of 500]]
    by simp_all
  have a: "rnd b32 (65536 / 25) = 5368709 / 2048"
    using f32_value [of 11 "65536 / 25" 10737418] by (simp add: abs_if)
  have b: "rnd b32 (25 * (5368709 / 2048)) = 65536"
    using f32_value [of 15 "25 * (5368709 / 2048)" 16777216] by (simp add: abs_if)
  have "hi_scaled (- (25 / 2)) (25 / 2) (25 / 2) (2 ^ 16) = rnd b32 (25 * rnd b32 (65536 / 25))"
    by (simp add: hi_scaled_def e)
  then show "hi_scaled (- (25 / 2)) (25 / 2) (25 / 2) (2 ^ 16) = 65536" by (simp only: a b)
  have c: "rnd b32 (4096 / 500) = 8589935 / 1048576"
    using f32_value [of 3 "4096 / 500" 8589935] by (simp add: abs_if)
  have d: "rnd b32 (500 * (8589935 / 1048576)) = 4096"
    using f32_value [of 12 "500 * (8589935 / 1048576)" 8388608] by (simp add: abs_if)
  have "hi_scaled 0 500 500 (2 ^ 12) = rnd b32 (500 * rnd b32 (4096 / 500))"
    by (simp add: hi_scaled_def e del: divide_numeral_1 times_divide_eq_right)
  then show "hi_scaled 0 500 500 (2 ^ 12) = 4096" by (simp only: c d)
qed

section \<open>Properties\<close>

lemma clampf_above: "is_fin lo \<Longrightarrow> is_fin hi \<Longrightarrow> fval lo \<le> fval hi \<Longrightarrow> fp_le hi x \<Longrightarrow> fval (clampf lo x hi) = fval hi"
  by (cases x) (auto simp: clampf_def fp_max_def fp_min_def fp_lt_def fp_le_def is_fin_cases)

lemma limits_500 [simp]: "fp_conv b32 (fp_lit b64 500) = Fin 500" "fp_conv b32 (fp_lit b64 0) = Fin 0"
proof -
  have r: "representable F 500" "representable F 0" if "F = b32 \<or> F = b64" for F
    using that by (auto intro: representableI [of _ 500 0] representableI [of _ 0 0])
  have "fp_lit b32 500 = Fin 500" "fp_lit b64 500 = Fin 500" "fp_lit b32 0 = Fin 0" "fp_lit b64 0 = Fin 0"
    using r by (auto intro!: f32.fp_lit_exact f64.fp_lit_exact)
  then show "fp_conv b32 (fp_lit b64 500) = Fin 500" "fp_conv b32 (fp_lit b64 0) = Fin 0"
    by (simp_all add: fp_lit_def)
qed

text \<open>The field at the upper limit, and that of the other encoder.\<close>

lemma hi_field_top:
  assumes ok: "limits_ok lo hi" and le: "fp_le (fp_conv b32 hi) x" and b: "1 \<le> bits" "bits \<le> 16"
    and top: "hi_scaled (fval (fp_conv b32 lo)) (fval (fp_conv b32 hi)) (fval (fp_conv b32 hi)) (2 ^ bits) = 2 ^ bits"
  shows "hi_field (hi_clamp lo x hi) lo hi bits = Some (to_u16 (word_of_int (2 ^ bits)))"
proof -
  have r: "range_ok (fp_conv b32 lo) (fp_conv b32 hi)" using ok by (simp add: limits_ok_def)
  note f = range_okD [OF r]
  have c: "fval (hi_clamp lo x hi) = fval (fp_conv b32 hi)"
    unfolding hi_clamp_eq using f le by (intro clampf_above)
  have "hi_float_to_uint (hi_clamp lo x hi) (fp_conv b32 lo) (fp_conv b32 hi) bits =
      Some (word_of_int \<lfloor>2 ^ bits :: rat\<rfloor>)"
    using hi_float_to_uint_in_range(1) [OF r hi_clamp_fin [OF ok, of x] _ _ b] f(3) by (simp add: c top)
  moreover have "\<lfloor>2 ^ bits :: rat\<rfloor> = 2 ^ bits" using floor_of_int [of "2 ^ bits", where ?'a = rat] by simp
  ultimately show ?thesis by (simp add: hi_field_def)
qed

text \<open>
  The value that the plugin scales the upper limit to is \<open>2 ^ 16\<close> up to rounding, and that of
  \<open>CubemarsCan\<close> is \<open>2 ^ 16 - 1\<close> up to rounding.
\<close>

lemma hi_scaled_top:
  assumes "1 / 2 ^ 60 \<le> H - L" and "H - L \<le> 2 ^ 61"
  shows "65535 \<le> \<lfloor>hi_scaled L H H 65536\<rfloor>"
proof -
  define S where "S = rnd b32 (H - L)"
  define R where "R = rnd b32 (65536 / S)"
  note S = span_bounds [OF assms, folded S_def]
  have S0: "0 < S" using S(1) by (rule less_le_trans [rotated]) simp
  have "65536 / S - (65536 / S / 2 ^ 24 + 1 / 2 ^ 150) \<le> R"
    using f32_error [of "65536 / S"] S0 by (simp add: R_def abs_le_iff)
  then have "S * (65536 / S - (65536 / S / 2 ^ 24 + 1 / 2 ^ 150)) \<le> S * R" using S0 by simp
  moreover have "S * (65536 / S - (65536 / S / 2 ^ 24 + 1 / 2 ^ 150)) = 65536 - 1 / 256 - S / 2 ^ 150"
    using S0 by (simp add: right_diff_distrib distrib_left)
  moreover have "S / 2 ^ 150 \<le> 1 / 256" using S(2) by simp
  ultimately have "of_int 65535 \<le> S * R" by simp
  then have "rnd b32 (of_int 65535) \<le> rnd b32 (S * R)" by (rule f32.rnd_mono)
  moreover have "rnd b32 (of_int 65535) = (of_int 65535 :: rat)"
    using f32.rnd_exact [OF f32.representable_of_int [of 65535]] by simp
  ultimately show ?thesis by (simp add: hi_scaled_def S_def R_def le_floor_iff)
qed

lemma scaled_top:
  assumes "1 / 2 ^ 60 \<le> H - L" and "H - L \<le> 2 ^ 61"
  shows "65534 \<le> \<lfloor>scaled L H H 65535\<rfloor>"
proof -
  define S where "S = rnd b32 (H - L)"
  note S = span_bounds [OF assms, folded S_def]
  have S0: "0 < S" using S(1) by (rule less_le_trans [rotated]) simp
  have "S * 65535 - (S * 65535 / 2 ^ 24 + 1 / 2 ^ 150) \<le> rnd b32 (S * 65535)"
    using f32_error [of "S * 65535"] S0 by (simp add: abs_le_iff)
  moreover have "(1 :: rat) / 2 ^ 150 \<le> S * (1 / 2 ^ 90)" using S(1) by simp
  ultimately have "S * 65534 \<le> rnd b32 (S * 65535)" using S0 by simp
  then have "of_int 65534 \<le> rnd b32 (S * 65535) / S" using S0 by (simp add: le_divide_eq mult.commute)
  then have "rnd b32 (of_int 65534) \<le> rnd b32 (rnd b32 (S * 65535) / S)" by (rule f32.rnd_mono)
  moreover have "rnd b32 (of_int 65534) = (of_int 65534 :: rat)"
    using f32.rnd_exact [OF f32.representable_of_int [of 65534]] by simp
  ultimately show ?thesis by (simp add: scaled_def S_def le_floor_iff)
qed

text \<open>
  C34. Full scale: the plugin scales a position with \<open>2 ^ bits\<close> where \<open>CubemarsCan\<close> scales with
  \<open>2 ^ bits - 1\<close>. For a command at or above the upper limit of a joint everything depends on how
  the product of the span with the quotient of \<open>2 ^ 16\<close> by the span is rounded: if it reaches
  \<open>2 ^ 16\<close>, as it does for limits of 12.5 rad, it does not fit into the field and the frame asks
  for zero, which is the lower limit; if it falls short, as for limits of 41 rad, the frame holds
  the largest field. \<open>CubemarsCan\<close> sends the largest field or the one below it, whatever the
  limits.
\<close>

theorem full_scale_wraps:
  fixes cfg :: joint_config and p :: fp
  assumes "config_ok cfg"
  defines "lo \<equiv> P_MIN cfg" and "hi \<equiv> P_MAX cfg"
    and "x \<equiv> if invert cfg then fp_mul b32 p (fp_of_int b32 (-1)) else p"
  assumes "fp_le (fp_conv b32 hi) x"
  defines "width \<equiv> rnd b32 (fval (fp_conv b32 hi) - fval (fp_conv b32 lo))"
  shows "(\<exists>f. pack_cmd p v t kp kd cfg mode = Some f \<and>
      fst (fields_v2 (frame_data f)) = (if 2 ^ 16 \<le> rnd b32 (width * rnd b32 (2 ^ 16 / width)) then 0 else 0xFFFF)) \<and>
    (\<exists>n \<in> {0xFFFE, 0xFFFF}. command_field lo x hi 16 = Some n)"
proof
  let ?lo = "fp_conv b32 lo" and ?hi = "fp_conv b32 hi"
  have ok: "limits_ok lo hi" using assms(1) by (simp add: config_ok_def lo_def hi_def)
  have r: "range_ok ?lo ?hi" using ok by (simp add: limits_ok_def)
  note f = range_okD [OF r]
  have w: "1 / 2 ^ 60 \<le> fval ?hi - fval ?lo" "fval ?hi - fval ?lo \<le> 2 ^ 61"
    using r unfolding range_ok_def by (simp_all add: abs_le_iff)
  have c: "fval (clampf ?lo x ?hi) = fval ?hi" using f assms(5) by (intro clampf_above)
  define T where "T = hi_scaled (fval ?lo) (fval ?hi) (fval ?hi) (2 ^ 16)"
  have T: "T = rnd b32 (width * rnd b32 (2 ^ 16 / width))" by (simp add: T_def hi_scaled_def width_def)
  have e: "hi_float_to_uint (hi_clamp lo x hi) ?lo ?hi 16 = Some (word_of_int \<lfloor>T\<rfloor>)" "\<lfloor>T\<rfloor> \<le> 65536"
    using hi_float_to_uint_in_range(1,3) [OF r hi_clamp_fin [OF ok, of x], of 16] f(3)
    unfolding hi_clamp_eq c T_def by simp_all
  have "65535 \<le> \<lfloor>T\<rfloor>" using hi_scaled_top [OF w] by (simp add: T_def)
  then have "\<lfloor>T\<rfloor> = (if 65536 \<le> T then 65536 else 65535)" using e(2) by (simp add: floor_eq_iff)
  then have field: "hi_field (hi_clamp lo x hi) lo hi 16 = Some (if 65536 \<le> T then 0 else 0xFFFF)"
    using e(1) by (simp add: hi_field_def)
  obtain n1 n2 n3 n4 n5 where n: "pack_cmd p v t kp kd cfg mode =
      Some \<lparr>frame_id = can_id cfg, frame_len = 8, frame_data = pack_v2 n1 n2 n3 n4 n5\<rparr>"
    "hi_field (hi_clamp lo x hi) lo hi 16 = Some n1"
    using pack_cmd_fields [OF assms(1), of p v t kp kd mode] unfolding lo_def hi_def x_def by blast
  have "fst (fields_v2 (pack_v2 n1 n2 n3 n4 n5)) = n1" by (simp only: pack_v2_def fields_v2.simps fst_conv join_8_halves)
  then show "\<exists>f. pack_cmd p v t kp kd cfg mode = Some f \<and>
      fst (fields_v2 (frame_data f)) = (if 2 ^ 16 \<le> rnd b32 (width * rnd b32 (2 ^ 16 / width)) then 0 else 0xFFFF)"
    using n field by (simp add: T)
  define U where "U = field_value lo x hi 16"
  have "U = scaled (fval ?lo) (fval ?hi) (fval ?hi) 65535" by (simp add: U_def field_value_def c)
  then have "65534 \<le> \<lfloor>U\<rfloor>" using scaled_top [OF w] by simp
  moreover have "\<lfloor>U\<rfloor> < 65536" "command_field lo x hi 16 = Some (word_of_int \<lfloor>U\<rfloor>)"
    using command_field_eq(1,4) [OF ok, of 16 x] by (simp_all add: U_def)
  ultimately have "\<lfloor>U\<rfloor> = 65534 \<or> \<lfloor>U\<rfloor> = 65535" by linarith
  with \<open>command_field lo x hi 16 = Some (word_of_int \<lfloor>U\<rfloor>)\<close>
  show "\<exists>n \<in> {0xFFFE, 0xFFFF}. command_field lo x hi 16 = Some n" by auto
qed

text \<open>
  The largest gain: a proportional gain at or above the upper limit of 500 is one too large
  for its twelve bits. Its thirteenth bit lands on the lowest bit of the velocity, and the motor
  reads a gain of zero.
\<close>

theorem full_gain_is_lost:
  assumes "fp_le (Fin 500) kp" and "fits12 (p, v, 0, kd, t)"
  shows "hi_field (hi_clamp (fp_lit b64 0) kp (fp_lit b64 500)) (fp_lit b64 0) (fp_lit b64 500) 12 = Some 0x1000 \<and>
    fields_v2 (pack_v2 p v 0x1000 kd t) = (p, v OR 1, 0, kd, t)"
proof
  have l: "limits_ok (fp_lit b64 0) (fp_lit b64 500)" by (rule range_ok_literals) simp_all
  have "to_u16 (word_of_int (2 ^ 12)) = 0x1000" by simp
  then show "hi_field (hi_clamp (fp_lit b64 0) kp (fp_lit b64 500)) (fp_lit b64 0) (fp_lit b64 500) 12 = Some 0x1000"
    using hi_field_top [OF l, of kp 12] assms(1) rnd_full_scale(2) by simp
  have "to_u8 (drop_bit 4 (promote (v OR 1))) = to_u8 (drop_bit 4 (promote v))"
    by (rule bit_word_eqI) (auto simp: bit_simps)
  moreover have b16: "bit (16 :: int) n \<longleftrightarrow> n = 4" for n
    using bit_exp_iff [of 4 n, where ?'a = int] by simp
  have "to_u8 (push_bit 4 (promote (v OR 1) AND 0xF)) = to_u8 (push_bit 4 (promote v AND 0xF) OR 16)"
    unfolding and_0xF by (rule bit_word_eqI) (auto simp: bit_simps b16)
  ultimately have pk: "pack_v2 p v 0x1000 kd t = pack_v2 p (v OR 1) 0 kd t"
    by (simp add: pack_v2_def)
  moreover have "v OR 1 < 0x1000"
  proof -
    have "v < 0x1000" using assms(2) by (simp add: fits12_def)
    then have "take_bit 12 (v OR 1) = v OR 1"
      by (intro bit_word_eqI) (auto simp: bit_simps dest: bit_of_12_bits)
    then have "unat (v OR 1) < 2 ^ 12" by (metis unsigned_take_bit_eq take_bit_nat_less_exp)
    then show ?thesis by (simp add: word_less_nat_alt)
  qed
  ultimately show "fields_v2 (pack_v2 p v 0x1000 kd t) = (p, v OR 1, 0, kd, t)"
    using assms(2) by (simp add: v2.fields_pack fits12_def)
qed

theorem full_gain_is_lost_witness:
  "hi_field (hi_clamp (fp_lit b64 0) (Inf False) (fp_lit b64 500)) (fp_lit b64 0) (fp_lit b64 500) 12 = Some 0x1000 \<and>
    fields_v2 (pack_v2 0x8000 0x800 0x1000 0 0x800) = (0x8000, 0x801, 0, 0, 0x800)"
  using full_gain_is_lost [of "Inf False" "0x8000" "0x800" 0 "0x800"] by (simp add: fp_le_def fp_lt_def fits12_def)

section \<open>Examples\<close>

text \<open>An object with two joints on a bus where every write succeeds.\<close>

definition demo_joint_named :: "string \<Rightarrow> u32 \<Rightarrow> joint_config" where
  "demo_joint_named name cid =
     (snd (joint_config_per_motor_type ! 0))\<lparr>joint_name := name, can_id := cid\<rparr>"

definition demo_plugin :: "rx_outcome list \<Rightarrow> plugin" where
  "demo_plugin q =
     \<lparr>plugin_interface = ''can0'', plugin_loopback = 0, set_zero_pos_on_startup = False,
      hw_joint_configs = [demo_joint_named ''hip'' 1, demo_joint_named ''knee'' 2], sorted_idx = [1, 0],
      hw_commands_position = [Fin 1, Fin 1], hw_commands_velocity = [Fin 0, Fin 0],
      hw_commands_effort = [Fin 0, Fin 0], hw_commands_kp = [Fin 0, Fin 0],
      hw_commands_kd = [Fin 0, Fin 0], hw_states_position = [Fin 2, Fin 3],
      hw_states_velocity = [Fin 0, Fin 0], hw_states_effort = [Fin 0, Fin 0],
      hw_states_temperature = [Fin 0, Fin 0], hw_control_level = [UNDEFINED, UNDEFINED],
      start_time = (ROS_TIME, 0), hw_socket = working_bus q\<rparr>"

definition demo_state :: "u32 \<Rightarrow> u8 \<Rightarrow> rx_outcome" where
  "demo_state cid err = Rx_Msg 16 \<lparr>frame_id = cid, frame_len = 8, frame_data = Data 0 0x80 0 0x80 8 0 65 err\<rparr> []"

lemma demo_plugin_facts:
  "hi_link_up (demo_plugin q)" "plugin_ok (demo_plugin q)"
  "hw_joint_configs (demo_plugin q) = [demo_joint_named ''hip'' 1, demo_joint_named ''knee'' 2]"
  "rx_queue (hw_socket (demo_plugin q)) = q" "sorted_idx (demo_plugin q) = [1, 0]"
  "sent (hw_socket (demo_plugin q)) = []" "set_zero_pos_on_startup (demo_plugin q) = False"
  "can_id (demo_joint_named n c) = c" "joint_name (demo_joint_named n c) = n"
  by (simp_all add: demo_plugin_def plugin_ok_def working_bus_def demo_joint_named_def upt_rec)

lemma demo_state_confirms: "confirms cid (demo_state i e # q) \<longleftrightarrow> i = cid \<and> e = 0"
  by (simp add: demo_state_def numeral_eq_Suc)

lemma demo_state_acceptable:
  "acceptable cfgs (demo_state i e # q) \<longleftrightarrow> i \<noteq> 0 \<and> (e = 0 \<or> i \<notin> can_id ` set cfgs)"
  using acceptable.simps(1) [of cfgs 15] by (simp add: demo_state_def)

lemma demo_named_ok: "config_ok (demo_joint_named n c)"
proof -
  have "config_ok (snd (joint_config_per_motor_type ! 0))"
    by (rule motor_table_ok [of "fst (joint_config_per_motor_type ! 0)"])
      (simp add: joint_config_per_motor_type_def)
  then show ?thesis by (simp add: config_ok_def demo_joint_named_def)
qed

lemma limits_41:
  "fp_conv b32 (fp_lit b64 (- 41)) = Fin (- 41)" "fp_conv b32 (fp_lit b64 41) = Fin 41"
  "limits_ok (fp_lit b64 (- 41)) (fp_lit b64 41)"
proof -
  have r: "representable F 41" "representable F (- 41)" if "F = b32 \<or> F = b64" for F
    using that by (auto intro: representableI [of _ 41 0] representableI [of _ "- 41" 0])
  have "fp_lit b32 41 = Fin 41" "fp_lit b64 41 = Fin 41" "fp_lit b32 (- 41) = Fin (- 41)" "fp_lit b64 (- 41) = Fin (- 41)"
    using r by (auto intro!: f32.fp_lit_exact f64.fp_lit_exact)
  then show "fp_conv b32 (fp_lit b64 (- 41)) = Fin (- 41)" "fp_conv b32 (fp_lit b64 41) = Fin 41"
    by (simp_all add: fp_lit_def)
  show "limits_ok (fp_lit b64 (- 41)) (fp_lit b64 41)" by (rule range_ok_literals) simp_all
qed

lemma rnd_falls_short: "rnd b32 82 = 82" "rnd b32 (82 * rnd b32 (65536 / 82)) = 16777215 / 256"
proof -
  show "rnd b32 82 = 82" using f32.rnd_exact [OF f32.representable_of_int [of 82]] by simp
  have a: "rnd b32 (65536 / 82) = 13094412 / 16384" using f32_value [of 9 "65536 / 82" 13094412] by (simp add: abs_if)
  have b: "rnd b32 (82 * (13094412 / 16384)) = 16777215 / 256"
    using f32_value [of 15 "82 * (13094412 / 16384)" 16777215] by (simp add: abs_if)
  show "rnd b32 (82 * rnd b32 (65536 / 82)) = 16777215 / 256" by (simp only: a b)
qed

theorem full_scale_wraps_witness:
  defines "wide \<equiv> (demo_joint_named ''hip'' 1)\<lparr>P_MIN := fp_lit b64 (- 41), P_MAX := fp_lit b64 41\<rparr>"
  shows "(\<exists>f. pack_cmd (Fin 100) (Fin 0) (Fin 0) (Fin 0) (Fin 0) (demo_joint_named ''hip'' 1) POSITION = Some f \<and>
      fst (fields_v2 (frame_data f)) = 0) \<and>
    (\<exists>f. pack_cmd (Fin 100) (Fin 0) (Fin 0) (Fin 0) (Fin 0) wide POSITION = Some f \<and>
      fst (fields_v2 (frame_data f)) = 0xFFFF)"
proof -
  have l: "P_MIN (demo_joint_named ''hip'' 1) = fp_lit b64 (- (25 / 2))"
    "P_MAX (demo_joint_named ''hip'' 1) = fp_lit b64 (25 / 2)" "\<not> invert (demo_joint_named ''hip'' 1)"
    by (simp_all add: demo_joint_named_def joint_config_per_motor_type_def motor_limits_def)
  have e: "rnd b32 25 = 25" using f32.rnd_exact [OF f32.representable_of_int [of 25]] by simp
  then have top: "rnd b32 (25 * rnd b32 (65536 / 25)) = 65536" using rnd_full_scale(1) by (simp add: hi_scaled_def)
  have "config_ok wide" using demo_named_ok [of "''hip''" 1] limits_41(3) by (simp add: config_ok_def wide_def)
  from full_scale_wraps [OF this, of "Fin 100" "Fin 0" "Fin 0" "Fin 0" "Fin 0" POSITION]
    full_scale_wraps [OF demo_named_ok, of "''hip''" 1 "Fin 100" "Fin 0" "Fin 0" "Fin 0" "Fin 0" POSITION]
  show ?thesis using e top rnd_falls_short l(3) by (simp add: l wide_def limits_41 fp_le_def fp_lt_def)
qed

text \<open>What \<open>CHECK_SC\<close> leaves on a failure: the calls up to the one that failed.\<close>

lemma run_checked_ok:
  "run_checked ret cs = (tr, True) \<Longrightarrow> tr = cs \<and> (\<forall>c\<in>set cs. 0 \<le> ret c)"
  by (induction cs arbitrary: tr) (auto split: if_splits prod.splits)

lemma run_checked_fail:
  assumes "run_checked ret cs = (tr, False)"
  shows "tr \<noteq> [] \<and> set tr \<subseteq> set cs \<and> ret (last tr) < 0 \<and> (\<forall>c\<in>set (butlast tr). 0 \<le> ret c) \<and> hd tr = hd cs"
  using assms
proof (induction cs arbitrary: tr)
  case (Cons c cs)
  then show ?case by (auto split: if_splits prod.splits)
qed simp

section \<open>Properties of the lifecycle\<close>

text \<open>
  C37. Deactivation asks every joint, in the order of the description, to leave the motor control
  mode, also after a joint that does not confirm; it succeeds exactly when all confirm.
\<close>

theorem deactivation_asks_every_joint:
  assumes "hi_link_up p" and "hi_on_deactivate p = (r, p')"
  shows "sent (hw_socket p') =
      sent (hw_socket p) @ map (control_request EXIT_MOTOR_CONTROL_MODE) (hw_joint_configs p) \<and>
    (r = CB_SUCCESS \<longleftrightarrow> (\<forall>i<length (hw_joint_configs p).
      confirms (can_id (hw_joint_configs p ! i)) (drop i (rx_queue (hw_socket p)))))"
  using deactivate_joints_result [OF assms(2) [unfolded hi_on_deactivate_def] subset_refl assms(1)] by simp

theorem deactivation_asks_every_joint_witness:
  "map frame_id (sent (hw_socket (snd (hi_on_deactivate (demo_plugin [Rx_Fail 11, demo_state 2 0]))))) = [1, 2] \<and>
   fst (hi_on_deactivate (demo_plugin [Rx_Fail 11, demo_state 2 0])) = CB_ERROR"
proof -
  define p where "p = demo_plugin [Rx_Fail 11, demo_state 2 0]"
  note P = demo_plugin_facts(1,3,4,6) [of "[Rx_Fail 11, demo_state 2 0]", folded p_def]
  obtain r p' where h: "hi_on_deactivate p = (r, p')" by force
  from deactivation_asks_every_joint [OF P(1) h]
  have "map frame_id (sent (hw_socket p')) = [1, 2]" "r \<noteq> CB_SUCCESS"
    by (auto simp: P control_request_def demo_plugin_facts(8))
  then show ?thesis using h by (cases r) (simp_all add: p_def)
qed

text \<open>
  C38. Activation stops at the first request that is not confirmed: the requests up to and with
  that one are on the bus, in order, none follows, and the joints already started are not asked
  to leave the mode again.
\<close>

theorem activation_stops_without_rollback:
  assumes "hi_link_up p" and "hi_on_activate now p = (r, p')"
  defines "rs \<equiv> requests (set_zero_pos_on_startup p) (hw_joint_configs p)"
  shows "case first_refusal rs (rx_queue (hw_socket p)) of
      None \<Rightarrow> r = CB_SUCCESS \<and>
        sent (hw_socket p') = sent (hw_socket p) @ map (\<lambda>(x, c). control_request x c) rs
    | Some k \<Rightarrow> r = CB_ERROR \<and>
        sent (hw_socket p') = sent (hw_socket p) @ map (\<lambda>(x, c). control_request x c) (take (Suc k) rs)"
proof -
  obtain q where q: "activate_joints (hw_joint_configs p) p = (r, q)" "hw_socket p' = hw_socket q"
    using assms(2) by (auto simp: hi_on_activate_def split: prod.splits if_splits)
  note A = activate_joints_result [OF q(1) subset_refl assms(1), folded rs_def, folded q(2)]
  have "r = CB_SUCCESS \<or> r = CB_ERROR" by (cases r) auto
  then show ?thesis using A by (auto simp: asked_def split: option.split)
qed

theorem activation_stops_without_rollback_witness:
  "map frame_data (sent (hw_socket (snd (hi_on_activate 5 (demo_plugin [demo_state 1 0, demo_state 2 4]))))) =
     [START_MOTOR_CONTROL_MODE, START_MOTOR_CONTROL_MODE] \<and>
   fst (hi_on_activate 5 (demo_plugin [demo_state 1 0, demo_state 2 4])) = CB_ERROR"
proof -
  define p where "p = demo_plugin [demo_state 1 0, demo_state 2 4]"
  note P = demo_plugin_facts(1,3,4,6,7) [of "[demo_state 1 0, demo_state 2 4]", folded p_def]
  obtain r p' where h: "hi_on_activate 5 p = (r, p')" by force
  from activation_stops_without_rollback [OF P(1) h] show ?thesis using h
    unfolding p_def [symmetric]
    by (simp add: P requests_def demo_plugin_facts(8) demo_state_confirms control_request_def)
qed

text \<open>
  When the configuration does not succeed, the socket created before stays open, and its number
  is overwritten by the next attempt: no call closes it. If it returns, the first call that fails
  was the last one; if it throws, because an initial value is no number, all calls were made.
\<close>

theorem failed_configure_leaves_socket_open:
  assumes "hi_on_configure stod ret ifaces p = (r, calls, p')" and "r \<noteq> Ok CB_SUCCESS" and "r \<noteq> UB"
  shows "Sys_close \<notin> set calls \<and> hd calls = Sys_socket \<and> (\<forall>c\<in>set (butlast calls). 0 \<le> ret c) \<and>
    (if r = Ok CB_ERROR then p' = p \<and> calls \<noteq> [] \<and> ret (last calls) < 0
     else r = Throw Not_a_number \<and> length calls = 6 \<and> 0 \<le> ret (last calls))"
proof -
  let ?pre = "[Sys_socket, Sys_loopback (plugin_loopback p), Sys_filter (hi_filter (hw_joint_configs p))]"
  let ?post = "[Sys_ifindex (plugin_interface p), Sys_bind, Sys_rcvtimeo (0, 500000)]"
  obtain tr ok where a: "run_checked ret ?pre = (tr, ok)" by force
  obtain tr' ok' where b: "run_checked ret ?post = (tr', ok')" by force
  obtain finished where s: "setup_socket ret p = Some (calls, finished)" "finished \<longrightarrow> r = Throw Not_a_number"
    "\<not> finished \<longrightarrow> r = Ok CB_ERROR \<and> p' = p"
    using assms by (auto simp: hi_on_configure_def Let_def split: option.splits prod.splits bool.splits if_splits)
  show ?thesis
  proof (cases ok)
    case False
    then have "calls = tr" "\<not> finished" using a s(1) by (auto simp: setup_socket_def simp del: run_checked.simps)
    then show ?thesis using run_checked_fail [of ret ?pre tr] a False s(3) by auto
  next
    case True
    have c: "calls = tr @ tr'" "finished = ok'"
      using a b s(1) True by (auto simp: setup_socket_def simp del: run_checked.simps split: if_splits)
    have pre: "tr = ?pre" "\<forall>c\<in>set ?pre. 0 \<le> ret c" using run_checked_ok [of ret ?pre tr] a True by simp_all
    show ?thesis
    proof (cases ok')
      case True
      then have "tr' = ?post" "\<forall>c\<in>set ?post. 0 \<le> ret c" using run_checked_ok [of ret ?post tr'] b by simp_all
      then show ?thesis using pre c s(2) True by simp
    next
      case False
      then show ?thesis using run_checked_fail [of ret ?post tr'] pre b c s(3) by (auto simp: butlast_append)
    qed
  qed
qed

theorem failed_configure_leaves_socket_open_witness:
  "\<exists>calls p'. hi_on_configure (\<lambda>_. None) (\<lambda>_. 0) [[(''position'', ''one'')], []] (demo_plugin []) =
     (Throw Not_a_number, calls, p') \<and> Sys_close \<notin> set calls"
proof -
  obtain calls p' where c: "hi_on_configure (\<lambda>_. None) (\<lambda>_. 0) [[(''position'', ''one'')], []] (demo_plugin []) =
     (Throw Not_a_number, calls, p')"
    by (simp add: hi_on_configure_def setup_socket_def demo_plugin_def IFNAMSIZ_def commandable_def hw_if_defs Let_def)
  with failed_configure_leaves_socket_open [OF this] show ?thesis by simp
qed

section \<open>Properties of the cycle and of the modes\<close>

text \<open>
  C36. A cycle of the plugin with proper limits never runs into undefined behaviour. It throws
  exactly when the time it is given is of another clock than the start time, or too far from it,
  and then no frame is written or read. Otherwise it writes the command of each joint once, the
  largest identifier first, up to the first write that fails, and it reports success exactly when
  every write succeeds and each of as many reads brings a frame that names no fault of a configured
  joint and has an identifier other than zero.
\<close>

theorem plugin_cycle:
  assumes "plugin_ok p" and "\<forall>c\<in>set (hw_joint_configs p). config_ok c"
  shows "case time_difference time (start_time p) of
      Inl e \<Rightarrow> hi_write time p = (Throw e, p)
    | Inr diff \<Rightarrow> \<exists>r p'. hi_write time p = (Ok r, p') \<and> plugin_ok p' \<and>
        sent (hw_socket p') = sent (hw_socket p) @ map (\<lambda>k. the (joint_frame p (sorted_idx p ! k)))
          (written_upto (length (hw_joint_configs p)) (hw_socket p)) \<and>
        (r = OK \<longleftrightarrow> (\<forall>k<length (hw_joint_configs p). wr_errno (hw_socket p) (wr_calls (hw_socket p) + k) = 0 \<and>
          acceptable (hw_joint_configs p) (drop k (rx_queue (hw_socket p)))))"
proof (cases "time_difference time (start_time p)")
  case (Inl e)
  then show ?thesis by (simp add: hi_write_def)
next
  case (Inr diff)
  from hi_write_result [OF assms Inr] hi_kept_ok assms(1) Inr show ?thesis by auto
qed

theorem plugin_cycle_witness:
  "(\<exists>r p'. hi_write (ROS_TIME, 7) (demo_plugin [demo_state 2 0, demo_state 7 4]) = (Ok r, p') \<and> r = OK \<and>
     length (sent (hw_socket p')) = 2) \<and>
   hi_write (STEADY_TIME, 7) (demo_plugin [demo_state 2 0, demo_state 7 4]) =
     (Throw Different_clocks, demo_plugin [demo_state 2 0, demo_state 7 4])"
proof -
  define p where "p = demo_plugin [demo_state 2 0, demo_state 7 4]"
  note P = demo_plugin_facts(1-6) [of "[demo_state 2 0, demo_state 7 4]", folded p_def]
  have c: "\<forall>c\<in>set (hw_joint_configs p). config_ok c" by (simp add: P(3) demo_named_ok)
  have st: "start_time p = (ROS_TIME, 0)" by (simp add: p_def demo_plugin_def)
  have "written_upto 2 (hw_socket p) = [0..<2]" using P(1) by (simp add: written_upto_def takeWhile_eq_all_conv)
  then have w: "length (written_upto 2 (hw_socket p)) = 2" by simp
  have q: "acceptable (hw_joint_configs p) (drop k (rx_queue (hw_socket p)))" if "k < 2" for k
    using that by (auto simp: less_two_iff P demo_state_acceptable demo_plugin_facts(8))
  have n: "length (hw_joint_configs p) = 2" by (simp add: P(3))
  show ?thesis unfolding p_def [symmetric]
    using plugin_cycle [OF P(2) c, of "(ROS_TIME, 7)"] plugin_cycle [OF P(2) c, of "(STEADY_TIME, 7)"]
    using w q P(1) by (auto simp: st time_difference_def n P(6))
qed

text \<open>The callbacks of the plugin in any order, from the object that \<open>on_init\<close> leaves.\<close>

inductive plugin_run :: "plugin \<Rightarrow> bool" where
  init: "hi_on_init base stoi stod par joints p0 = Some (CB_SUCCESS, p) \<Longrightarrow> plugin_run p"
| configure: "plugin_run p \<Longrightarrow> length ifaces = length (hw_joint_configs p) \<Longrightarrow>
    hi_on_configure stod ret ifaces p = (c, calls, p') \<Longrightarrow> plugin_run p'"
| activate: "plugin_run p \<Longrightarrow> hi_on_activate now p = (r, p') \<Longrightarrow> plugin_run p'"
| deactivate: "plugin_run p \<Longrightarrow> hi_on_deactivate p = (r, p') \<Longrightarrow> plugin_run p'"
| cycle: "plugin_run p \<Longrightarrow> hi_write time p = (w, p') \<Longrightarrow> plugin_run p'"
| mode_switch: "plugin_run p \<Longrightarrow> prepare_command_mode_switch start stop p = (e, p') \<Longrightarrow> plugin_run p'"

lemma collect_length: "collect xs = Some ys \<Longrightarrow> length ys = length xs"
proof (induction xs arbitrary: ys)
  case (Cons x xs)
  then show ?case by (cases x) auto
qed simp

lemma hi_on_init_ok:
  assumes "hi_on_init base stoi stod par joints p0 = Some (CB_SUCCESS, p)"
  shows "plugin_ok p"
proof -
  obtain cfgs where c: "collect (map (hi_joint_config stoi stod) joints) = Some cfgs"
    using assms by (auto simp: hi_on_init_def split: if_splits option.splits)
  have n: "length joints = length cfgs" using collect_length [OF c] by simp
  let ?k = "\<lambda>i. - uint (can_id (cfgs ! i))"
  have "sorted (map ?k (sort_key ?k [0..<length cfgs]))" by simp
  then have "sorted_wrt (\<ge>) (map (\<lambda>i. can_id (cfgs ! i)) (sort_key ?k [0..<length cfgs]))"
    unfolding sorted_map sorted_wrt_map by (rule sorted_wrt_mono_rel [rotated]) (simp add: word_le_def)
  then show ?thesis
    using assms c n by (auto simp: hi_on_init_def Let_def plugin_ok_def split: if_splits)
qed

lemma write_to_can_kept: "hi_kept p (snd (write_to_can f p))"
  using write_to_can_result(1) [of f p] by (cases "write_to_can f p") auto

lemma send_control_frame_kept: "hi_kept p (snd (send_control_frame cid x p))"
proof -
  let ?f = "\<lparr>frame_id = cid, frame_len = 8, frame_data = x\<rparr>"
  obtain r1 p1 where w: "write_to_can ?f p = (r1, p1)" by force
  obtain n f p2 where rd: "hi_read p1 = (n, f, p2)" by (metis prod_cases3)
  obtain e p3 where u: "unpack_reply f p2 = (e, p3)" by force
  have "hi_kept p p1" "hi_kept p1 p2" "hi_kept p2 p3"
    using write_to_can_kept [of p ?f] w hi_read_result(1) [OF rd] unpack_reply_kept(1) [where p = p2 and f = f] u
    by simp_all
  then have "hi_kept p p1" "hi_kept p p2" "hi_kept p p3" using hi_kept_trans by blast+
  then show ?thesis using w rd u by (auto simp: send_control_frame_def)
qed

lemma activate_joints_kept: "hi_kept p (snd (activate_joints js p))"
proof (induction js arbitrary: p)
  case (Cons c js)
  obtain r0 p0 where z: "(if set_zero_pos_on_startup p then hi_set_zero_position (can_id c) p else (OK, p)) = (r0, p0)"
    by force
  obtain r1 p1 where s: "hi_start_motor_control_mode (can_id c) p0 = (r1, p1)" by force
  have k: "hi_kept p p0"
    using z send_control_frame_kept [of p "can_id c" SET_ZERO_POSITION]
    by (auto simp: hi_set_zero_position_def split: if_splits)
  have k1: "hi_kept p0 p1"
    using s send_control_frame_kept [of p0 "can_id c" START_MOTOR_CONTROL_MODE]
    by (simp add: hi_start_motor_control_mode_def)
  have "hi_kept p p1" using k k1 by (rule hi_kept_trans)
  moreover from this Cons.IH [of p1] have "hi_kept p (snd (activate_joints js p1))" by (rule hi_kept_trans)
  ultimately show ?case using z s k by (auto simp: split: if_splits)
qed simp

lemma deactivate_joints_kept: "hi_kept p (snd (deactivate_joints js ret p))"
proof (induction js arbitrary: ret p)
  case (Cons c js)
  obtain r1 p1 where s: "hi_exit_motor_control_mode (can_id c) p = (r1, p1)" by force
  have "hi_kept p p1"
    using s send_control_frame_kept [of p "can_id c" EXIT_MOTOR_CONTROL_MODE]
    by (simp add: hi_exit_motor_control_mode_def)
  with Cons.IH [of p1] s show ?case by (auto intro: hi_kept_trans)
qed simp

lemma hi_tx_kept: "hi_tx is p = Some (r, p') \<Longrightarrow> hi_kept p p'"
proof (induction "is" arbitrary: p)
  case (Cons i js)
  from Cons.prems obtain f where f: "joint_frame p i = Some f"
    by (auto simp: joint_frame_def split: option.splits)
  obtain r1 p1 where w: "write_to_can f p = (r1, p1)" by force
  have k: "hi_kept p p1" using write_to_can_result(1) [OF w] .
  have "(if r1 \<noteq> OK then Some (ERR, p1) else hi_tx js p1) = Some (r, p')"
    using Cons.prems f w by (simp add: joint_frame_def)
  then show ?case using k Cons.IH [of p1] hi_kept_trans [OF k] by (auto split: if_splits)
qed simp

lemma hi_write_ok:
  assumes "plugin_ok p"
  shows "plugin_ok (snd (hi_write time p))"
proof (cases "time_difference time (start_time p)")
  case (Inr diff)
  define q where "q = (if 1000000000 < diff then p\<lparr>start_time := time\<rparr> else p)"
  have q: "plugin_ok q" using assms by (simp add: q_def plugin_ok_def)
  have w: "hi_write time p = (case hi_tx (sorted_idx q) q of None \<Rightarrow> (UB, q) | Some (ERR, p) \<Rightarrow> (Ok ERR, p)
      | Some (OK, p) \<Rightarrow> (let (r, p) = hi_rx (sorted_idx p) p in (Ok r, p)))"
    by (simp only: hi_write_def Inr sum.case Let_def q_def [symmetric])
  show ?thesis
  proof (cases "hi_tx (sorted_idx q) q")
    case (Some x)
    then obtain r1 p1 where t: "hi_tx (sorted_idx q) q = Some (r1, p1)" by (cases x) auto
    have k: "plugin_ok p1" using hi_kept_ok [OF hi_tx_kept [OF t]] q by simp
    obtain r2 p2 where x: "hi_rx (sorted_idx p1) p1 = (r2, p2)" by force
    have "plugin_ok p2" using hi_kept_ok [of p1 p2] hi_rx_result [OF x] k by simp
    then show ?thesis using w t x k by (cases r1) simp_all
  qed (use w q in simp)
qed (use assms in \<open>simp add: hi_write_def\<close>)

lemma initial_values_ok: "plugin_ok p \<Longrightarrow> plugin_ok (snd (initial_values stod i ifs p))"
proof (induction ifs arbitrary: p)
  case (Cons nv ifs)
  obtain n v where nv: "nv = (n, v)" by force
  have "plugin_ok (set_command i n x p)" for x
    using Cons.prems by (simp add: set_command_def plugin_ok_def Let_def)
  then show ?case using Cons by (auto simp: nv split: option.split)
qed simp

lemma initial_joints_ok: "plugin_ok p \<Longrightarrow> plugin_ok (snd (initial_joints stod i ifss p))"
proof (induction ifss arbitrary: i p)
  case (Cons ifs ifss)
  have "plugin_ok (snd (initial_values stod i ifs p))" by (rule initial_values_ok [OF Cons.prems])
  moreover have "plugin_ok (zero_states i q)" if "plugin_ok q" for q
    using that by (simp add: zero_states_def plugin_ok_def Let_def)
  ultimately show ?case using Cons.IH by (simp add: split_beta)
qed simp

lemma hi_on_configure_ok: "plugin_ok p \<Longrightarrow> plugin_ok (snd (snd (hi_on_configure stod ret ifaces p)))"
proof (cases "setup_socket ret p")
  case (Some x)
  assume ok: "plugin_ok p"
  let ?z = "map (\<lambda>_. Fin 0) (hw_commands_position p)"
  have "plugin_ok (p\<lparr>hw_commands_position := ?z, hw_commands_velocity := ?z, hw_commands_effort := ?z,
      hw_commands_kp := ?z, hw_commands_kd := ?z\<rparr>)"
    using ok by (simp add: plugin_ok_def Let_def)
  from initial_joints_ok [OF this] show ?thesis
    using Some ok by (cases x) (auto simp: hi_on_configure_def Let_def split_beta split: bool.split)
qed (simp add: hi_on_configure_def)

lemma mode_switch_ok:
  assumes "plugin_ok p" and "prepare_command_mode_switch start stop p = (r, p')"
  shows "plugin_ok p'"
proof (cases "start_interfaces (map joint_name (hw_joint_configs p)) start
    (replicate (length (hw_joint_configs p)) UNDEFINED)")
  case None
  then show ?thesis using assms by (simp add: prepare_command_mode_switch_def)
next
  case (Some modes)
  then have "length modes = length (hw_joint_configs p)"
    using start_interfaces_mode(2) [of "map joint_name (hw_joint_configs p)" start modes] by simp
  moreover have "p' = (fold stop_key stop p)\<lparr>hw_control_level := modes\<rparr>"
    using Some assms(2) by (simp add: prepare_command_mode_switch_def)
  moreover define q where "q = fold stop_key stop p"
  moreover  have "plugin_ok q" "hw_joint_configs q = hw_joint_configs p"
    using holds_ok [OF holds_stop [OF assms(1), of stop]] assms(1) by (simp_all add: q_def)
  ultimately show ?thesis by (simp add: plugin_ok_def Let_def)
qed

text \<open>
  C35. The shape of the object: whatever callbacks run in whatever order, all vectors have one
  element for each joint and the sending order is a permutation of the joints with falling
  identifiers, so no index leaves its vector.
\<close>

theorem plugin_keeps_shape:
  assumes "plugin_run p"
  shows "plugin_ok p"
  using assms
proof induction
  case (configure p ifaces stod ret c calls p')
  then show ?case using hi_on_configure_ok [of p stod ret ifaces] by simp
next
  case (activate p now r p')
  have "plugin_ok (snd (activate_joints (hw_joint_configs p) p))"
    using activate_joints_kept [of p "hw_joint_configs p"] activate.IH by (simp add: hi_kept_ok)
  moreover have "plugin_ok (q\<lparr>start_time := t\<rparr>) = plugin_ok q" for q t by (simp add: plugin_ok_def)
  ultimately show ?case using activate.hyps(2) by (auto simp: hi_on_activate_def split_beta split: if_splits)
next
  case (deactivate p r p')
  then show ?case using deactivate_joints_kept [of p "hw_joint_configs p" CB_SUCCESS]
    by (simp add: hi_on_deactivate_def hi_kept_ok)
next
  case (cycle p time w p')
  then show ?case using hi_write_ok [of p time] by simp
qed (auto simp: hi_on_init_ok intro: mode_switch_ok)

theorem plugin_keeps_shape_witness:
  "plugin_ok (snd (the (hi_on_init True (\<lambda>_. Some 1) (\<lambda>_. Some (Fin 1)) (\<lambda>_. ''can0'')
     [(''hip'', \<lambda>_. ''1''), (''knee'', \<lambda>_. ''1'')] (demo_plugin []))))"
proof (rule plugin_keeps_shape [OF plugin_run.init])
  show "hi_on_init True (\<lambda>_. Some 1) (\<lambda>_. Some (Fin 1)) (\<lambda>_. ''can0'')
      [(''hip'', \<lambda>_. ''1''), (''knee'', \<lambda>_. ''1'')] (demo_plugin []) =
    Some (CB_SUCCESS, snd (the (hi_on_init True (\<lambda>_. Some 1) (\<lambda>_. Some (Fin 1)) (\<lambda>_. ''can0'')
      [(''hip'', \<lambda>_. ''1''), (''knee'', \<lambda>_. ''1'')] (demo_plugin []))))"
    by (simp add: hi_on_init_def hi_joint_config_def Let_def)
qed

text \<open>
  C40. A switch of command modes that is accepted gives every joint the strongest mode asked for,
  position before velocity before effort, whatever the order of the interfaces; a joint no
  interface names falls back to undefined, also when it was under control. It is refused exactly
  when an interface of a known joint has an unknown mode, and then changes nothing.
\<close>

theorem mode_switch_is_by_priority:
  assumes "prepare_command_mode_switch start stop p = (r, p')"
  defines "names \<equiv> map joint_name (hw_joint_configs p)"
  shows "(r = OK \<longleftrightarrow> (\<forall>key\<in>set start. key_name key \<in> set names \<longrightarrow> known_mode (key_mode key))) \<and>
    (r = ERR \<longrightarrow> p' = p) \<and>
    (r = OK \<longrightarrow> hw_control_level p' = map (requested_mode names (set start)) [0..<length names])"
proof -
  note m = start_interfaces_mode [of names start]
  show ?thesis
  proof (cases "start_interfaces names start (replicate (length names) UNDEFINED)")
    case None
    then show ?thesis using assms m(1) by (auto simp: prepare_command_mode_switch_def names_def)
  next
    case (Some modes)
    then have "modes = map (requested_mode names (set start)) [0..<length names]"
      using m(2) [OF Some] by (intro nth_equalityI) auto
    then show ?thesis using Some assms m(1) by (auto simp: prepare_command_mode_switch_def names_def)
  qed
qed

theorem mode_switch_is_by_priority_witness:
  "fst (prepare_command_mode_switch [''knee/effort'', ''knee/velocity''] [] (demo_plugin [])) = OK \<and>
   hw_control_level (snd (prepare_command_mode_switch [''knee/effort'', ''knee/velocity''] [] (demo_plugin []))) =
     [UNDEFINED, VELOCITY]"
proof -
  obtain r p' where h: "prepare_command_mode_switch [''knee/effort'', ''knee/velocity''] [] (demo_plugin []) = (r, p')"
    by force
  have k: "key_mode ''knee/effort'' = HW_IF_EFFORT" "key_mode ''knee/velocity'' = HW_IF_VELOCITY"
    "key_name ''knee/effort'' = ''knee''" "key_name ''knee/velocity'' = ''knee''"
    by (simp_all add: key_mode_def key_name_def hw_if_defs)
  from mode_switch_is_by_priority [OF h] have "r = OK" using k by (simp add: known_mode_def)
  with mode_switch_is_by_priority [OF h] h k hw_if_distinct show ?thesis
    by (auto simp: demo_plugin_facts requested_mode_def asks_def upt_rec)
qed

text \<open>
  Joints whose name occurs anywhere in a stopped interface get their measured position as
  command and no velocity and effort; the commands of all others stay. \<open>knee1\<close> is stopped with
  \<open>knee10/position\<close> too.
\<close>

theorem stopped_joints_hold_position:
  assumes "plugin_ok p" and "prepare_command_mode_switch start stop p = (OK, p')"
    and "i < length (hw_joint_configs p)"
  shows "hw_commands_position p' ! i =
      (if stopped p stop i then hw_states_position p ! i else hw_commands_position p ! i) \<and>
    hw_commands_velocity p' ! i = (if stopped p stop i then Fin 0 else hw_commands_velocity p ! i) \<and>
    hw_commands_effort p' ! i = (if stopped p stop i then Fin 0 else hw_commands_effort p ! i) \<and>
    hw_commands_kp p' = hw_commands_kp p \<and> hw_commands_kd p' = hw_commands_kd p"
proof -
  obtain modes where p': "p' = (fold stop_key stop p)\<lparr>hw_control_level := modes\<rparr>"
    using assms(2) by (auto simp: prepare_command_mode_switch_def split: option.splits)
  note h = holds_stop [OF assms(1), of stop, unfolded holds_def]
  have "hw_commands_kp (fold stop_key stop p) = hw_commands_kp p"
    "hw_commands_kd (fold stop_key stop p) = hw_commands_kd p"
    using arg_cong [OF conjunct1 [OF h], of hw_commands_kp] arg_cong [OF conjunct1 [OF h], of hw_commands_kd]
    by simp_all
  then show ?thesis using conjunct2 [OF h] assms(3) by (simp add: p')
qed

theorem stopped_joints_hold_position_witness:
  "hw_commands_position (snd (prepare_command_mode_switch [] [''knee/position''] (demo_plugin []))) ! 1 = Fin 3"
proof -
  obtain r p' where h: "prepare_command_mode_switch [] [''knee/position''] (demo_plugin []) = (r, p')" by force
  then have "r = OK" by (simp add: prepare_command_mode_switch_def)
  with h have h': "prepare_command_mode_switch [] [''knee/position''] (demo_plugin []) = (OK, p')" by simp
  have "stopped (demo_plugin []) [''knee/position''] 1"
    by (simp add: stopped_def demo_plugin_facts contains_def upt_rec)
  then show ?thesis
    using stopped_joints_hold_position [OF demo_plugin_facts(2) h', of 1] h'
    by (simp add: demo_plugin_facts) (simp add: demo_plugin_def)
qed

text \<open>
  C39. Both drivers read a reply of a V2 motor alike: the position, velocity, effort, temperature
  and fault the plugin stores are those \<open>CubemarsCan\<close> decodes from the same bytes.
\<close>

theorem replies_are_decoded_alike:
  fixes f p i st0
  assumes "find_index (\<lambda>c. can_id c = frame_id f) (hw_joint_configs p) = Some i"
  defines "st \<equiv> apply_invert (hw_joint_configs p ! i) (decode_v2 (hw_joint_configs p ! i) (frame_data f) st0)"
  shows "unpack_reply f p = (device_status st,
    p\<lparr>hw_states_position := (hw_states_position p)[i := st_pos st],
      hw_states_velocity := (hw_states_velocity p)[i := st_vel st],
      hw_states_effort := (hw_states_effort p)[i := st_torque st],
      hw_states_temperature := (hw_states_temperature p)[i := st_temp st]\<rparr>)"
  by (simp add: unpack_reply_def assms(1) st_def decode_v2_def apply_invert_def Let_def)

theorem replies_are_decoded_alike_witness:
  "fst (unpack_reply \<lparr>frame_id = 2, frame_len = 8, frame_data = Data 0 0 0 0 0 0 65 4\<rparr> (demo_plugin [])) =
     error_code_of_byte 4"
  using replies_are_decoded_alike [of "\<lparr>frame_id = 2, frame_len = 8, frame_data = Data 0 0 0 0 0 0 65 4\<rparr>"
      "demo_plugin []" 1 "\<lparr>st_pos = Fin 0, st_vel = Fin 0, st_torque = Fin 0, st_temp = Fin 0,
         device_status = NO_FAULT, communication_status = SUCCESS, com_errno = 0, rx_timestamp_ns = 0,
         send_timestamp_ns = 0, dequeue_timestamp_ns = 0, enqueue_timestamp_ns = 0, rx_hw_timestamp_ns = 0\<rparr>"]
  by (simp add: demo_plugin_facts apply_invert_def decode_v2_def Let_def)

end
