(* ===== verification/CanCycle.thy ===== *)
theory CanCycle
  imports CanControl
begin

text \<open>
  One control cycle of \<open>CubemarsCan\<close> (\<open>send_and_receive\<close>): the transmit phase over all joints,
  the receive phase with one read slot for each frame sent, the skipping of error frames, and
  the collection of transmit time stamps.
\<close>

section \<open>Transmit phase\<close>

text \<open>\<open>None\<close>: undefined behaviour (an index past the end of a vector, an undefined cast).\<close>

type_synonym cycle = "joint_state list \<times> driver"

definition tx_one :: "joint_cmd list \<Rightarrow> nat \<Rightarrow> cycle \<Rightarrow> cycle option" where
  "tx_one cmds i =
     (\<lambda>(states, d).
        if length cmds \<le> i \<or> length states \<le> i then None
        else let cfg = joint_configs d ! i
        in case command_data cfg (cmds ! i) of
             None \<Rightarrow> None
           | Some data \<Rightarrow>
               (let d = d\<lparr>send_frame := (send_frame d)\<lparr>frame_id := command_id cfg, frame_data := data\<rparr>\<rparr>;
                    st = (states ! i)\<lparr>send_timestamp_ns := 0, dequeue_timestamp_ns := 0,
                                      enqueue_timestamp_ns := 0\<rparr>;
                    (ok, s) = sys_write (send_frame d) (socket d)
                in if \<not> ok
                   then Some (states[i := st\<lparr>com_errno := errno s,
                                             communication_status := CAN_WRITE_FAILED\<rparr>],
                              d\<lparr>socket := s, send_ok := (send_ok d)[i := False]\<rparr>)
                   else let (enq, s) = sys_clock s
                   in Some (states[i := st\<lparr>enqueue_timestamp_ns := enq,
                                           communication_status := CAN_NO_RESPONSE\<rparr>],
                            d\<lparr>socket := s, send_ok := (send_ok d)[i := True]\<rparr>)))"

fun tx_loop :: "joint_cmd list \<Rightarrow> nat list \<Rightarrow> cycle \<Rightarrow> cycle option" where
  "tx_loop cmds [] c = Some c"
| "tx_loop cmds (i # is) c =
     (case tx_one cmds i c of None \<Rightarrow> None | Some c' \<Rightarrow> tx_loop cmds is c')"

section \<open>Receive phase\<close>

text \<open>
  The next frame that is not an error frame: at most \<open>n\<close> reads are left, and the last of them
  is the storm guard's. The result has the two receive time stamps.
\<close>

fun next_frame :: "nat \<Rightarrow> driver \<Rightarrow> (int \<times> int) option \<times> driver" where
  "next_frame 0 d = (None, d)"
| "next_frame (Suc n) d =
     (let (got, rx_ns, rx_hw_ns, d) = recv_frame_with_timestamp (d\<lparr>recv_frame := zero_frame\<rparr>)
      in if \<not> got then (None, d)
         else if frame_id (recv_frame d) AND CAN_ERR_FLAG \<noteq> 0
         then next_frame n
                (d\<lparr>last_error_canid := frame_id (recv_frame d),
                   last_error_count := last_error_count d + 1\<rparr>)
         else (Some (rx_ns, rx_hw_ns), d))"

definition max_reads :: nat where "max_reads = 16"

text \<open>A reply of joint \<open>j\<close>: time stamps, decoded values, inversion, status.\<close>

definition take_reply ::
  "(joint_config \<Rightarrow> can_data \<Rightarrow> joint_state \<Rightarrow> joint_state) \<Rightarrow> int \<Rightarrow> int \<Rightarrow> int \<Rightarrow> nat \<Rightarrow> cycle \<Rightarrow> cycle" where
  "take_reply decode rx_ns rx_hw_ns deq_ns j =
     (\<lambda>(states, d).
        let cfg = joint_configs d ! j;
            st = (states ! j)\<lparr>rx_timestamp_ns := rx_ns, rx_hw_timestamp_ns := rx_hw_ns,
                              dequeue_timestamp_ns := deq_ns\<rparr>;
            st = apply_invert cfg (decode cfg (frame_data (recv_frame d)) st);
            st = st\<lparr>communication_status :=
                      (if send_ok d ! j then SUCCESS else CAN_WRITE_FAILED_BUT_RESPONSE_RECEIVED)\<rparr>
        in (states[j := st], d\<lparr>recv_ok := (recv_ok d)[j := True]\<rparr>))"

text \<open>A received frame: which series sent it, and which joint; other frames are ignored.\<close>

definition handle_frame :: "int \<Rightarrow> int \<Rightarrow> int \<Rightarrow> cycle \<Rightarrow> cycle" where
  "handle_frame rx_ns rx_hw_ns deq_ns =
     (\<lambda>(states, d).
        let f = recv_frame d
        in if frame_id f AND CAN_EFF_FLAG \<noteq> 0
           then if drop_bit 8 (frame_id f AND CAN_EFF_MASK) \<noteq> packet_id CAN_PACKET_RESPONSE
                then (states, d)
                else case find_index (\<lambda>conf. can_id conf = frame_id f AND 0xFF) (joint_configs d) of
                       None \<Rightarrow> (states, d)
                     | Some j \<Rightarrow> take_reply decode_v3 rx_ns rx_hw_ns deq_ns j (states, d)
           else case find_index (\<lambda>conf. can_id conf = ucast (d0 (frame_data f))) (joint_configs d) of
                  None \<Rightarrow> (states, d)
                | Some j \<Rightarrow> take_reply decode_v2 rx_ns rx_hw_ns deq_ns j (states, d))"

definition rx_one :: "nat \<Rightarrow> cycle \<Rightarrow> cycle" where
  "rx_one i =
     (\<lambda>(states, d).
        if \<not> send_ok d ! i then (states, d)
        else let d = d\<lparr>recv_ok := (recv_ok d)[i := False]\<rparr>;
                 (r, d) = next_frame max_reads d
        in case r of
             None \<Rightarrow>
               (states[i := (states ! i)\<lparr>communication_status := CAN_READ_FAILED,
                                         com_errno := errno (socket d)\<rparr>], d)
           | Some (rx_ns, rx_hw_ns) \<Rightarrow>
               (let (deq_ns, s) = sys_clock (socket d)
                in handle_frame rx_ns rx_hw_ns deq_ns (states, d\<lparr>socket := s\<rparr>)))"

fun rx_loop :: "nat list \<Rightarrow> cycle \<Rightarrow> cycle" where
  "rx_loop [] c = c"
| "rx_loop (i # is) c = rx_loop is (rx_one i c)"

section \<open>Transmit time stamps (collect_tx_timestamps)\<close>

text \<open>The software time of the last time stamp among the control messages.\<close>

fun scan_tx :: "cmsg list \<Rightarrow> int \<Rightarrow> int" where
  "scan_tx [] tx_ns = tx_ns"
| "scan_tx (Timestamping t0 t1 t2 # cs) tx_ns = scan_tx cs (ns_of t0)"
| "scan_tx (_ # cs) tx_ns = scan_tx cs tx_ns"

definition echoed_id :: "can_frame \<Rightarrow> u32" where
  "echoed_id f =
     (if frame_id f AND CAN_EFF_FLAG \<noteq> 0 then frame_id f AND 0xFF else frame_id f AND CAN_SFF_MASK)"

fun collect_entries ::
  "joint_config list \<Rightarrow> (can_frame \<times> cmsg list) list \<Rightarrow> joint_state list \<Rightarrow> joint_state list" where
  "collect_entries cfgs [] states = states"
| "collect_entries cfgs ((f, cs) # q) states =
     (let tx_ns = scan_tx cs 0
      in if tx_ns = 0 then collect_entries cfgs q states
         else case find_index (\<lambda>conf. can_id conf = echoed_id f) cfgs of
                None \<Rightarrow> collect_entries cfgs q states
              | Some j \<Rightarrow>
                  collect_entries cfgs q (states[j := (states ! j)\<lparr>send_timestamp_ns := tx_ns\<rparr>]))"

text \<open>The error queue is drained; the call that finds it empty sets \<open>errno\<close>.\<close>

definition collect_tx_timestamps :: "cycle \<Rightarrow> cycle" where
  "collect_tx_timestamps =
     (\<lambda>(states, d).
        (collect_entries (joint_configs d) (err_queue (socket d)) states,
         d\<lparr>last_tx_errq_count := of_nat (length (err_queue (socket d))),
           socket := (socket d)\<lparr>err_queue := [], errno := EAGAIN\<rparr>\<rparr>))"

section \<open>The cycle (send_and_receive)\<close>

text \<open>
  The message of the exception is a pointer into a literal, moved by the number of joints: past
  the terminator of the literal it is no string.
\<close>

definition size_error :: "nat \<Rightarrow> (exn, 'a) outcome" where
  "size_error n =
     (if n \<le> length ''cmds, states have to have the correct size of '' then Throw out_of_range else UB)"

definition send_and_receive ::
  "joint_cmd list \<Rightarrow> joint_state list \<Rightarrow> driver \<Rightarrow> (exn, joint_state list) outcome \<times> driver" where
  "send_and_receive cmds states d =
     (let n = length (joint_configs d)
      in if length cmds \<noteq> length states \<and> length cmds \<noteq> n then (size_error n, d)
         else let (tx_fill_start_ns, s) = sys_clock (socket d)
         in case tx_loop cmds [0..<n] (states, d\<lparr>socket := s\<rparr>) of
              None \<Rightarrow> (UB, d)
            | Some (states, d) \<Rightarrow>
                (let (now, s) = sys_clock (socket d);
                     d = d\<lparr>socket := s, tx_fill_end_ns := now,
                           tx_fill_duration_ns := now - tx_fill_start_ns, last_error_count := 0\<rparr>;
                     (states, d) = rx_loop [0..<n] (states, d);
                     (now, s) = sys_clock (socket d);
                     d = d\<lparr>socket := s, rx_duration_ns := now - tx_fill_end_ns d\<rparr>;
                     (states, d) = (if enable_tx_timestamping d
                                    then collect_tx_timestamps (states, d) else (states, d))
                 in (Ok states, d)))"

section \<open>Replies of both series\<close>

text \<open>What a reply carries of a joint, and what the receive phase says about it.\<close>

definition measured :: "joint_state \<Rightarrow> fp \<times> fp \<times> fp \<times> fp \<times> ErrorCode" where
  "measured st = (st_pos st, st_vel st, st_torque st, st_temp st, device_status st)"

definition blank_state :: joint_state where
  "blank_state =
     \<lparr>st_pos = Fin 0, st_vel = Fin 0, st_torque = Fin 0, st_temp = Fin 0, device_status = NO_FAULT,
      communication_status = CAN_NO_RESPONSE, com_errno = 0, rx_timestamp_ns = 0,
      send_timestamp_ns = 0, dequeue_timestamp_ns = 0, enqueue_timestamp_ns = 0,
      rx_hw_timestamp_ns = 0\<rparr>"

text \<open>
  The interface of a reply format: a decoder sets every measured value from the frame alone and
  leaves the rest of the state as it is.
\<close>

locale reply_format =
  fixes decode :: "joint_config \<Rightarrow> can_data \<Rightarrow> joint_state \<Rightarrow> joint_state"
  assumes decode_fresh: "measured (decode cfg x st) = measured (decode cfg x st')"
    and decode_keeps: "communication_status (decode cfg x st) = communication_status st"
      "send_timestamp_ns (decode cfg x st) = send_timestamp_ns st"
      "rx_timestamp_ns (decode cfg x st) = rx_timestamp_ns st"
begin

definition reply_values :: "joint_config \<Rightarrow> can_data \<Rightarrow> fp \<times> fp \<times> fp \<times> fp \<times> ErrorCode" where
  "reply_values cfg x = measured (apply_invert cfg (decode cfg x blank_state))"

lemma invert_decode_fresh: "measured (apply_invert cfg (decode cfg x st)) = reply_values cfg x"
  using decode_fresh [of cfg x st blank_state]
  by (simp add: reply_values_def measured_def apply_invert_def)

lemma take_reply_result:
  assumes "j < length states" and "take_reply decode rx hw deq j (states, d) = (states', d')"
  shows "\<exists>st. states' = states[j := st] \<and> measured st = reply_values (joint_configs d ! j) (frame_data (recv_frame d)) \<and>
      communication_status st =
        (if send_ok d ! j then SUCCESS else CAN_WRITE_FAILED_BUT_RESPONSE_RECEIVED) \<and>
      rx_timestamp_ns st = rx \<and> send_timestamp_ns st = send_timestamp_ns (states ! j)"
    and "d' = d\<lparr>recv_ok := (recv_ok d)[j := True]\<rparr>"
proof -
  let ?st = "(states ! j)\<lparr>rx_timestamp_ns := rx, rx_hw_timestamp_ns := hw, dequeue_timestamp_ns := deq\<rparr>"
  let ?x = "apply_invert (joint_configs d ! j) (decode (joint_configs d ! j) (frame_data (recv_frame d)) ?st)"
  have "measured (?x\<lparr>communication_status := c\<rparr>) = reply_values (joint_configs d ! j) (frame_data (recv_frame d))" for c
    using invert_decode_fresh by (simp add: measured_def)
  moreover have "rx_timestamp_ns ?x = rx" "send_timestamp_ns ?x = send_timestamp_ns (states ! j)"
    by (simp_all add: apply_invert_def decode_keeps)
  ultimately show "\<exists>st. states' = states[j := st] \<and>
      measured st = reply_values (joint_configs d ! j) (frame_data (recv_frame d)) \<and>
      communication_status st =
        (if send_ok d ! j then SUCCESS else CAN_WRITE_FAILED_BUT_RESPONSE_RECEIVED) \<and>
      rx_timestamp_ns st = rx \<and> send_timestamp_ns st = send_timestamp_ns (states ! j)"
    and "d' = d\<lparr>recv_ok := (recv_ok d)[j := True]\<rparr>"
    using assms(2) by (auto simp: take_reply_def Let_def)
qed

end

interpretation v2_reply: reply_format decode_v2
  by unfold_locales (simp_all add: decode_v2_def measured_def Let_def)

interpretation v3_reply: reply_format decode_v3
  by unfold_locales (simp_all add: decode_v3_def measured_def Let_def)

section \<open>The receive phase, abstractly\<close>

text \<open>The joint a frame is the reply of, and the values it carries.\<close>

definition frame_joint :: "joint_config list \<Rightarrow> can_frame \<Rightarrow> nat option" where
  "frame_joint cfgs f =
     (if frame_id f AND CAN_EFF_FLAG \<noteq> 0
      then if drop_bit 8 (frame_id f AND CAN_EFF_MASK) \<noteq> packet_id CAN_PACKET_RESPONSE then None
           else find_index (\<lambda>conf. can_id conf = frame_id f AND 0xFF) cfgs
      else find_index (\<lambda>conf. can_id conf = ucast (d0 (frame_data f))) cfgs)"

definition frame_values :: "joint_config \<Rightarrow> can_frame \<Rightarrow> fp \<times> fp \<times> fp \<times> fp \<times> ErrorCode" where
  "frame_values cfg f =
     (if frame_id f AND CAN_EFF_FLAG \<noteq> 0 then v3_reply.reply_values cfg (frame_data f)
      else v2_reply.reply_values cfg (frame_data f))"

text \<open>
  What a read slot sees: error frames are skimmed off, a failed read or the storm guard ends it
  without a frame.
\<close>

fun skim :: "nat \<Rightarrow> rx_outcome list \<Rightarrow> can_frame option \<times> rx_outcome list" where
  "skim 0 q = (None, q)"
| "skim (Suc n) [] = (None, [])"
| "skim (Suc n) (Rx_Fail e # q) = (None, q)"
| "skim (Suc n) (Rx_Msg nb f cs # q) =
     (if frame_id f AND CAN_ERR_FLAG \<noteq> 0 then skim n q else (Some f, q))"

text \<open>The slots of a cycle with what each one read: a slot for each frame that was written.\<close>

fun slots :: "bool list \<Rightarrow> nat list \<Rightarrow> rx_outcome list \<Rightarrow> (nat \<times> can_frame option) list" where
  "slots written [] q = []"
| "slots written (i # is) q =
     (if written ! i then (case skim max_reads q of (r, q') \<Rightarrow> (i, r) # slots written is q')
      else slots written is q)"

type_synonym view = "(fp \<times> fp \<times> fp \<times> fp \<times> ErrorCode) \<times> ComStatus"

definition view :: "joint_state \<Rightarrow> view" where
  "view st = (measured st, communication_status st)"

text \<open>What one slot does to the view of joint \<open>j\<close>.\<close>

fun slot_effect :: "joint_config list \<Rightarrow> bool list \<Rightarrow> nat \<Rightarrow> nat \<times> can_frame option \<Rightarrow> view \<Rightarrow> view" where
  "slot_effect cfgs written j (i, None) (m, c) = (if i = j then (m, CAN_READ_FAILED) else (m, c))"
| "slot_effect cfgs written j (i, Some f) (m, c) =
     (if frame_joint cfgs f = Some j
      then (frame_values (cfgs ! j) f,
            if written ! j then SUCCESS else CAN_WRITE_FAILED_BUT_RESPONSE_RECEIVED)
      else (m, c))"

section \<open>The receive phase refines it\<close>

text \<open>What no step of a cycle changes, and what the receive phase leaves alone besides.\<close>

definition same_cycle :: "driver \<Rightarrow> driver \<Rightarrow> bool" where
  "same_cycle d d' \<longleftrightarrow>
     joint_configs d' = joint_configs d \<and> send_ok d' = send_ok d \<and>
     length (recv_ok d') = length (recv_ok d) \<and> send_frame d' = send_frame d \<and>
     enable_tx_timestamping d' = enable_tx_timestamping d \<and>
     sent (socket d') = sent (socket d) \<and> wr_errno (socket d') = wr_errno (socket d) \<and>
     wr_calls (socket d') = wr_calls (socket d) \<and> err_queue (socket d') = err_queue (socket d)"

lemma same_cycle_refl [simp]: "same_cycle d d"
  by (simp add: same_cycle_def)

lemma same_cycle_trans [trans]: "same_cycle a b \<Longrightarrow> same_cycle b c \<Longrightarrow> same_cycle a c"
  by (simp add: same_cycle_def)

lemma recv_cases:
  obtains (fails) s where "recv_frame_with_timestamp d = (False, 0, 0, d\<lparr>socket := s\<rparr>)"
      and "rx_queue s = tl (rx_queue (socket d))"
      and "\<forall>n. skim (Suc n) (rx_queue (socket d)) = (None, tl (rx_queue (socket d)))"
      and "same_cycle d (d\<lparr>socket := s\<rparr>)"
  | (frame) s f nb cs rx hw where "recv_frame_with_timestamp d = (True, rx, hw, d\<lparr>socket := s, recv_frame := f\<rparr>)"
      and "rx_queue (socket d) = Rx_Msg nb f cs # rx_queue s"
      and "same_cycle d (d\<lparr>socket := s\<rparr>)"
proof (cases "rx_queue (socket d)")
  case Nil
  then show thesis
    by (intro fails [of "(socket d)\<lparr>errno := EAGAIN\<rparr>"]) (auto simp: recv_frame_with_timestamp_def sys_recv_def same_cycle_def)
next
  case (Cons r q)
  show thesis
  proof (cases r)
    case (Rx_Fail e)
    with Cons show thesis
      by (intro fails [of "(socket d)\<lparr>rx_queue := q, errno := e\<rparr>"]) (auto simp: recv_frame_with_timestamp_def sys_recv_def same_cycle_def)
  next
    case (Rx_Msg nb f cs)
    obtain a b where ab: "scan_cmsgs cs (0, 0) = (a, b)" by force
    from Cons Rx_Msg show thesis
      by (intro frame [where rx = a and hw = b and s = "(socket d)\<lparr>rx_queue := q\<rparr>" and f = f and nb = nb and cs = cs])
        (auto simp: ab recv_frame_with_timestamp_def sys_recv_def same_cycle_def)
  qed
qed

lemma next_frame_refines:
  assumes "next_frame n d = (r, d')"
  shows "same_cycle d d'"
    and "skim n (rx_queue (socket d)) =
      (case r of None \<Rightarrow> None | Some _ \<Rightarrow> Some (recv_frame d'), rx_queue (socket d'))"
proof -
  have "same_cycle d d' \<and> skim n (rx_queue (socket d)) =
      (case r of None \<Rightarrow> None | Some _ \<Rightarrow> Some (recv_frame d'), rx_queue (socket d'))"
    using assms
  proof (induction n arbitrary: d)
    case (Suc n)
    have z: "same_cycle d e = same_cycle (d\<lparr>recv_frame := zero_frame\<rparr>) e" for e
      by (simp add: same_cycle_def)
    show ?case
    proof (cases rule: recv_cases [of "d\<lparr>recv_frame := zero_frame\<rparr>"])
      case (fails s)
      with Suc.prems show ?thesis by (auto simp: Let_def z)
    next
      case (frame s f nb cs rx hw)
      show ?thesis
      proof (cases "frame_id f AND CAN_ERR_FLAG = 0")
        case True
        with frame Suc.prems show ?thesis by (auto simp: Let_def same_cycle_def)
      next
        case False
        define e where "e = d\<lparr>socket := s, recv_frame := f, last_error_canid := frame_id f,
          last_error_count := last_error_count d + 1\<rparr>"
        have "next_frame n e = (r, d')" using Suc.prems frame(1) False by (simp add: Let_def e_def)
        from Suc.IH [OF this] have "same_cycle e d'"
          "skim n (rx_queue s) = (case r of None \<Rightarrow> None | Some _ \<Rightarrow> Some (recv_frame d'), rx_queue (socket d'))"
          by (simp_all add: e_def)
        moreover have "same_cycle d e" using frame(3) by (simp add: same_cycle_def e_def)
        ultimately show ?thesis using frame(2) False by (auto intro: same_cycle_trans)
      qed
    qed
  qed simp
  then show "same_cycle d d'" and "skim n (rx_queue (socket d)) =
      (case r of None \<Rightarrow> None | Some _ \<Rightarrow> Some (recv_frame d'), rx_queue (socket d'))"
    by blast+
qed

lemma find_index_less: "find_index p xs = Some i \<Longrightarrow> i < length xs"
  using find_index_Some by blast

lemma frame_joint_less: "frame_joint cfgs f = Some j \<Longrightarrow> j < length cfgs"
  by (auto simp: frame_joint_def dest: find_index_less split: if_splits)

text \<open>What the steps of the receive phase keep of the states besides the view.\<close>

definition same_stamps :: "joint_state list \<Rightarrow> joint_state list \<Rightarrow> bool" where
  "same_stamps xs ys \<longleftrightarrow> map send_timestamp_ns ys = map send_timestamp_ns xs"

lemma same_stamps_refl [simp]: "same_stamps xs xs"
  by (simp add: same_stamps_def)

lemma same_stamps_trans [trans]: "same_stamps xs ys \<Longrightarrow> same_stamps ys zs \<Longrightarrow> same_stamps xs zs"
  by (simp add: same_stamps_def)

lemma same_stamps_length: "same_stamps xs ys \<Longrightarrow> length ys = length xs"
  unfolding same_stamps_def by (metis length_map)

lemma same_stamps_update:
  "i < length xs \<Longrightarrow> send_timestamp_ns x = send_timestamp_ns (xs ! i) \<Longrightarrow> same_stamps xs (xs[i := x])"
  by (simp add: same_stamps_def map_update list_update_same_conv)

lemma handle_frame_ignored:
  "frame_joint (joint_configs d) (recv_frame d) = None \<Longrightarrow> handle_frame rx hw deq (states, d) = (states, d)"
  by (auto simp: handle_frame_def frame_joint_def Let_def split: if_splits)

lemma handle_frame_taken:
  "frame_joint (joint_configs d) (recv_frame d) = Some j \<Longrightarrow>
   handle_frame rx hw deq (states, d) =
     take_reply (if frame_id (recv_frame d) AND CAN_EFF_FLAG \<noteq> 0 then decode_v3 else decode_v2)
       rx hw deq j (states, d)"
  by (auto simp: handle_frame_def frame_joint_def Let_def split: if_splits)

lemma handle_frame_refines:
  assumes h: "handle_frame rx hw deq (states, d) = (states', d')"
    and n: "length (joint_configs d) \<le> length states"
  shows "same_cycle d d'" and "rx_queue (socket d') = rx_queue (socket d)"
    and "same_stamps states states'"
    and "j < length states \<Longrightarrow> view (states' ! j) =
      slot_effect (joint_configs d) (send_ok d) j (i, Some (recv_frame d)) (view (states ! j))"
proof -
  have "same_cycle d d' \<and> rx_queue (socket d') = rx_queue (socket d) \<and> same_stamps states states' \<and>
    (\<forall>j<length states. view (states' ! j) =
      slot_effect (joint_configs d) (send_ok d) j (i, Some (recv_frame d)) (view (states ! j)))"
  proof (cases "frame_joint (joint_configs d) (recv_frame d)")
    case None
    then show ?thesis using h by (simp add: handle_frame_ignored view_def)
  next
    case (Some k)
    then have k: "k < length states" using frame_joint_less n less_le_trans by blast
    let ?f = "recv_frame d"
    have t: "take_reply (if frame_id ?f AND CAN_EFF_FLAG \<noteq> 0 then decode_v3 else decode_v2)
        rx hw deq k (states, d) = (states', d')"
      using h handle_frame_taken [OF Some] by simp
    have "(\<exists>st. states' = states[k := st] \<and> measured st = frame_values (joint_configs d ! k) ?f \<and>
        communication_status st =
          (if send_ok d ! k then SUCCESS else CAN_WRITE_FAILED_BUT_RESPONSE_RECEIVED) \<and>
        rx_timestamp_ns st = rx \<and> send_timestamp_ns st = send_timestamp_ns (states ! k)) \<and>
      d' = d\<lparr>recv_ok := (recv_ok d)[k := True]\<rparr>"
    proof (cases "frame_id ?f AND CAN_EFF_FLAG = 0")
      case True
      then have "take_reply decode_v2 rx hw deq k (states, d) = (states', d')" using t by simp
      from v2_reply.take_reply_result [OF k this] True show ?thesis by (simp add: frame_values_def)
    next
      case False
      then have "take_reply decode_v3 rx hw deq k (states, d) = (states', d')" using t by simp
      from v3_reply.take_reply_result [OF k this] False show ?thesis by (simp add: frame_values_def)
    qed
    with k Some show ?thesis
      by (auto simp: view_def same_cycle_def nth_list_update_if same_stamps_update)
  qed
  then show "same_cycle d d'" and "rx_queue (socket d') = rx_queue (socket d)"
    and "same_stamps states states'"
    and "j < length states \<Longrightarrow> view (states' ! j) =
      slot_effect (joint_configs d) (send_ok d) j (i, Some (recv_frame d)) (view (states ! j))"
    by blast+
qed

lemma sys_clock_cycle: "same_cycle d (d\<lparr>socket := snd (sys_clock (socket d))\<rparr>)"
  by (simp add: same_cycle_def sys_clock_def)

lemma rx_one_refines:
  assumes h: "rx_one i (states, d) = (states', d')"
    and n: "length (joint_configs d) \<le> length states" and i: "i < length states"
    and s: "send_ok d ! i" and k: "skim max_reads (rx_queue (socket d)) = (r, q)"
  shows "same_cycle d d'" and "rx_queue (socket d') = q" and "same_stamps states states'"
    and "j < length states \<Longrightarrow>
      view (states' ! j) = slot_effect (joint_configs d) (send_ok d) j (i, r) (view (states ! j))"
proof -
  let ?d = "d\<lparr>recv_ok := (recv_ok d)[i := False]\<rparr>"
  obtain x e where x: "next_frame max_reads ?d = (x, e)" by force
  have e: "same_cycle d e" using next_frame_refines(1) [OF x] by (simp add: same_cycle_def)
  have rq: "r = (case x of None \<Rightarrow> None | Some _ \<Rightarrow> Some (recv_frame e))" "rx_queue (socket e) = q"
    using next_frame_refines(2) [OF x] k by simp_all
  have c: "joint_configs e = joint_configs d" "send_ok e = send_ok d" using e by (simp_all add: same_cycle_def)
  have "same_cycle d d' \<and> rx_queue (socket d') = q \<and> same_stamps states states' \<and>
    (\<forall>j<length states. view (states' ! j) =
      slot_effect (joint_configs d) (send_ok d) j (i, r) (view (states ! j)))"
  proof (cases x)
    case None
    then have "states' = states[i := (states ! i)\<lparr>communication_status := CAN_READ_FAILED,
        com_errno := errno (socket e)\<rparr>]" "d' = e"
      using h s x by (auto simp: rx_one_def Let_def)
    with e rq None i show ?thesis
      by (auto simp: view_def measured_def nth_list_update_if same_stamps_update)
  next
    case (Some st)
    obtain t u where cl: "sys_clock (socket e) = (t, u)" by force
    let ?e = "e\<lparr>socket := u\<rparr>"
    have hf: "handle_frame (fst st) (snd st) t (states, ?e) = (states', d')"
      using h s x Some cl by (simp add: rx_one_def Let_def case_prod_beta)
    have ee: "same_cycle e ?e" using sys_clock_cycle [of e] cl by simp
    have "rx_queue u = q" using sys_clock_frame(4) [of "socket e"] cl rq(2) by simp
    moreover note handle_frame_refines [OF hf]
    moreover have "length (joint_configs ?e) \<le> length states" using n c by simp
    ultimately show ?thesis using Some rq(1) c e ee
      by (auto intro: same_cycle_trans [OF e same_cycle_trans [OF ee]])
  qed
  then show "same_cycle d d'" and "rx_queue (socket d') = q" and "same_stamps states states'"
    and "j < length states \<Longrightarrow>
      view (states' ! j) = slot_effect (joint_configs d) (send_ok d) j (i, r) (view (states ! j))"
    by blast+
qed

lemma rx_loop_refines:
  assumes "rx_loop is (states, d) = (states', d')" and "length (joint_configs d) \<le> length states"
    and "\<forall>i\<in>set is. i < length states"
  shows "same_cycle d d'" and "same_stamps states states'"
    and "j < length states \<Longrightarrow> view (states' ! j) =
      fold (slot_effect (joint_configs d) (send_ok d) j) (slots (send_ok d) is (rx_queue (socket d)))
        (view (states ! j))"
proof -
  have "same_cycle d d' \<and> same_stamps states states' \<and>
    (\<forall>j<length states. view (states' ! j) =
      fold (slot_effect (joint_configs d) (send_ok d) j) (slots (send_ok d) is (rx_queue (socket d)))
        (view (states ! j)))"
    using assms
  proof (induction "is" arbitrary: states d)
    case (Cons i "is")
    obtain xs e where x: "rx_one i (states, d) = (xs, e)" by force
    have l: "rx_loop is (xs, e) = (states', d')" using Cons.prems(1) x by simp
    show ?case
    proof (cases "send_ok d ! i")
      case False
      then have "xs = states" "e = d" using x by (simp_all add: rx_one_def)
      then show ?thesis using Cons.IH [of states d] l Cons.prems False by simp
    next
      case True
      obtain r q where k: "skim max_reads (rx_queue (socket d)) = (r, q)" by force
      note one = rx_one_refines [OF x Cons.prems(2) _ True k]
      have i: "i < length states" using Cons.prems(3) by simp
      have c: "joint_configs e = joint_configs d" "send_ok e = send_ok d"
        using one(1) [OF i] by (simp_all add: same_cycle_def)
      have len: "length xs = length states" using one(3) [OF i] by (rule same_stamps_length)
      have IH: "same_cycle e d' \<and> same_stamps xs states' \<and>
        (\<forall>j<length xs. view (states' ! j) =
          fold (slot_effect (joint_configs e) (send_ok e) j) (slots (send_ok e) is (rx_queue (socket e)))
            (view (xs ! j)))"
        using Cons.prems(2,3) len c by (intro Cons.IH [OF l]) simp_all
      show ?thesis
        using IH one(1-3) [OF i] one(4) [OF i] True k len
        by (auto simp: c intro: same_cycle_trans same_stamps_trans)
    qed
  qed simp
  then show "same_cycle d d'" and "same_stamps states states'"
    and "j < length states \<Longrightarrow> view (states' ! j) =
      fold (slot_effect (joint_configs d) (send_ok d) j) (slots (send_ok d) is (rx_queue (socket d)))
        (view (states ! j))"
    by blast+
qed

section \<open>The transmit phase\<close>

text \<open>The frame of a command, and whether the \<open>j\<close>-th write from now succeeds.\<close>

definition command_frame :: "joint_config \<Rightarrow> joint_cmd \<Rightarrow> can_frame" where
  "command_frame cfg cmd =
     \<lparr>frame_id = command_id cfg, frame_len = 8, frame_data = the (command_data cfg cmd)\<rparr>"

definition written_at :: "driver \<Rightarrow> nat \<Rightarrow> bool" where
  "written_at d j \<longleftrightarrow> wr_errno (socket d) (wr_calls (socket d) + j) = 0"

definition same_tx :: "driver \<Rightarrow> driver \<Rightarrow> bool" where
  "same_tx d d' \<longleftrightarrow>
     joint_configs d' = joint_configs d \<and> length (send_ok d') = length (send_ok d) \<and>
     recv_ok d' = recv_ok d \<and> (ready d \<longrightarrow> ready d') \<and>
     enable_tx_timestamping d' = enable_tx_timestamping d \<and>
     wr_errno (socket d') = wr_errno (socket d) \<and> rx_queue (socket d') = rx_queue (socket d) \<and>
     err_queue (socket d') = err_queue (socket d)"

lemma same_tx_trans [trans]: "same_tx a b \<Longrightarrow> same_tx b c \<Longrightarrow> same_tx a c"
  by (simp add: same_tx_def)

lemma command_data_some:
  assumes "config_ok cfg"
  obtains x where "command_data cfg cmd = Some x"
proof -
  have f: "\<exists>n. command_field lo x hi bits = Some n" if "limits_ok lo hi" "bits \<in> {12, 16}" for lo x hi bits
    using that command_field_eq(1) [of lo hi bits x] by auto
  obtain a where a: "command_field (P_MIN cfg) (if invert cfg then fp_neg (cmd_pos cmd) else cmd_pos cmd) (P_MAX cfg) 16 = Some a"
    using f assms by (metis config_ok_def insertCI)
  obtain b where b: "command_field (V_MIN cfg) (if invert cfg then fp_neg (cmd_vel cmd) else cmd_vel cmd) (V_MAX cfg) 12 = Some b"
    using f assms by (metis config_ok_def insertCI)
  obtain c where c: "command_field (I_MIN cfg) (if invert cfg then fp_neg (cmd_torque cmd) else cmd_torque cmd) (I_MAX cfg) 12 = Some c"
    using f assms by (metis config_ok_def insertCI)
  obtain e where e: "command_field (KP_MIN cfg) (cmd_kp cmd) (KP_MAX cfg) 12 = Some e"
    using f assms by (metis config_ok_def insertCI)
  obtain g where g: "command_field (KD_MIN cfg) (cmd_kd cmd) (KD_MAX cfg) 12 = Some g"
    using f assms by (metis config_ok_def insertCI)
  show thesis by (rule that) (simp add: command_data_def Let_def a b c e g split: SERIES_TYPE.split)
qed

lemma tx_one_total:
  assumes "config_ok (joint_configs d ! i)" and "i < length cmds" and "i < length states"
  shows "\<exists>c. tx_one cmds i (states, d) = Some c"
proof -
  obtain x where "command_data (joint_configs d ! i) (cmds ! i) = Some x"
    using command_data_some [OF assms(1)] .
  then show ?thesis using assms(2,3) by (auto simp: tx_one_def Let_def split: prod.split)
qed

lemma tx_one_result:
  assumes h: "tx_one cmds i (states, d) = Some (states', d')" and i: "i < length (send_ok d)"
  defines "w \<equiv> written_at d 0"
  shows "i < length states" and "i < length cmds" and "same_tx d d'"
    and "wr_calls (socket d') = Suc (wr_calls (socket d))"
    and "send_ok d' = (send_ok d)[i := w]"
    and "ready d \<Longrightarrow> sent (socket d') =
      sent (socket d) @ (if w then [command_frame (joint_configs d ! i) (cmds ! i)] else [])"
    and "\<exists>st. states' = states[i := st] \<and> send_timestamp_ns st = 0 \<and>
      view st = (measured (states ! i), if w then CAN_NO_RESPONSE else CAN_WRITE_FAILED)"
proof -
  let ?cfg = "joint_configs d ! i"
  obtain data where data: "i < length states" "i < length cmds" "command_data ?cfg (cmds ! i) = Some data"
    using h by (auto simp: tx_one_def Let_def split: if_splits option.splits)
  let ?f = "(send_frame d)\<lparr>frame_id := command_id ?cfg, frame_data := data\<rparr>"
  obtain ok s where wr: "sys_write ?f (socket d) = (ok, s)" by force
  obtain t u where cl: "sys_clock s = (t, u)" by force
  have ok: "ok = w" "sent s = (if w then sent (socket d) @ [?f] else sent (socket d))"
    using sys_write_sent [of ?f "socket d"] wr by (simp_all add: w_def written_at_def)
  have s: "wr_calls s = Suc (wr_calls (socket d))" "wr_errno s = wr_errno (socket d)"
    "rx_queue s = rx_queue (socket d)" "err_queue s = err_queue (socket d)"
    using sys_write_frame [of ?f "socket d"] wr by simp_all
  have u: "wr_calls u = wr_calls s" "wr_errno u = wr_errno s" "rx_queue u = rx_queue s"
    "err_queue u = err_queue s" "sent u = sent s"
    using sys_clock_frame [of s] cl by simp_all
  have f: "?f = command_frame ?cfg (cmds ! i)" if "ready d"
    using that data(3) by (simp add: command_frame_def ready_def can_const_defs)
  show "i < length states" "i < length cmds" by (rule data)+
  have "same_tx d d' \<and> wr_calls (socket d') = Suc (wr_calls (socket d)) \<and> send_ok d' = (send_ok d)[i := w] \<and>
    (ready d \<longrightarrow> sent (socket d') = sent (socket d) @ (if w then [?f] else [])) \<and>
    (\<exists>st. states' = states[i := st] \<and> send_timestamp_ns st = 0 \<and>
      view st = (measured (states ! i), if w then CAN_NO_RESPONSE else CAN_WRITE_FAILED))"
  proof (cases w)
    case True
    then show ?thesis using h data wr cl ok s u
      by (auto simp: tx_one_def Let_def same_tx_def ready_def view_def measured_def)
  next
    case False
    then show ?thesis using h data wr ok s
      by (auto simp: tx_one_def Let_def same_tx_def ready_def view_def measured_def)
  qed
  with f show "same_tx d d'" and "wr_calls (socket d') = Suc (wr_calls (socket d))"
    and "send_ok d' = (send_ok d)[i := w]"
    and "ready d \<Longrightarrow> sent (socket d') =
      sent (socket d) @ (if w then [command_frame ?cfg (cmds ! i)] else [])"
    and "\<exists>st. states' = states[i := st] \<and> send_timestamp_ns st = 0 \<and>
      view st = (measured (states ! i), if w then CAN_NO_RESPONSE else CAN_WRITE_FAILED)"
    by auto
qed

lemma tx_loop_total:
  assumes "n \<le> length (joint_configs d)" and "list_all config_ok (joint_configs d)"
    and "n \<le> length cmds" and "n \<le> length states" and "n \<le> length (send_ok d)" and "k \<le> n"
  shows "\<exists>c. tx_loop cmds [k..<n] (states, d) = Some c"
  using assms
proof (induction "n - k" arbitrary: k states d)
  case 0
  then show ?case by simp
next
  case (Suc m)
  then have k: "k < n" by simp
  have "config_ok (joint_configs d ! k)" using Suc.prems k by (simp add: list_all_length)
  moreover have "k < length cmds" "k < length states" "k < length (send_ok d)" using Suc.prems k by simp_all
  ultimately obtain xs e where x: "tx_one cmds k (states, d) = Some (xs, e)"
    using tx_one_total [of d k cmds states] by auto
  note r = tx_one_result [OF x \<open>k < length (send_ok d)\<close>]
  have "\<exists>c. tx_loop cmds [Suc k..<n] (xs, e) = Some c"
  proof (rule Suc.hyps)
    show "m = n - Suc k" using Suc.hyps(2) by simp
    show "n \<le> length xs" using r(7) Suc.prems by auto
  qed (use r(3) Suc.prems k in \<open>simp_all add: same_tx_def\<close>)
  then show ?case using x k by (simp add: upt_conv_Cons)
qed

lemma tx_loop_result:
  assumes "tx_loop cmds [k..<n] (states, d) = Some (states', d')" and "n \<le> length (send_ok d)" and "k \<le> n"
  shows "k < n \<Longrightarrow> n \<le> length states" and "same_tx d d'" and "length states' = length states"
    and "\<forall>j. j < k \<longrightarrow> states' ! j = states ! j \<and> send_ok d' ! j = send_ok d ! j"
    and "\<forall>j. k \<le> j \<and> j < n \<longrightarrow> send_ok d' ! j = written_at d (j - k) \<and> send_timestamp_ns (states' ! j) = 0 \<and>
      view (states' ! j) =
        (measured (states ! j), if written_at d (j - k) then CAN_NO_RESPONSE else CAN_WRITE_FAILED)"
    and "ready d \<Longrightarrow> sent (socket d') = sent (socket d) @
      map (\<lambda>j. command_frame (joint_configs d ! j) (cmds ! j)) (filter (\<lambda>j. written_at d (j - k)) [k..<n])"
proof -
  have "(k < n \<longrightarrow> n \<le> length states) \<and> same_tx d d' \<and> length states' = length states \<and>
    (\<forall>j. j < k \<longrightarrow> states' ! j = states ! j \<and> send_ok d' ! j = send_ok d ! j) \<and>
    (\<forall>j. k \<le> j \<and> j < n \<longrightarrow> send_ok d' ! j = written_at d (j - k) \<and> send_timestamp_ns (states' ! j) = 0 \<and>
      view (states' ! j) =
        (measured (states ! j), if written_at d (j - k) then CAN_NO_RESPONSE else CAN_WRITE_FAILED)) \<and>
    (ready d \<longrightarrow> sent (socket d') = sent (socket d) @
      map (\<lambda>j. command_frame (joint_configs d ! j) (cmds ! j)) (filter (\<lambda>j. written_at d (j - k)) [k..<n]))"
    using assms
  proof (induction "n - k" arbitrary: k states d)
    case 0
    then show ?case by (auto simp: same_tx_def)
  next
    case (Suc m)
    then have k: "k < n" by simp
    then have up: "[k..<n] = k # [Suc k..<n]" by (rule upt_conv_Cons)
    obtain xs e where x: "tx_one cmds k (states, d) = Some (xs, e)"
      "tx_loop cmds [Suc k..<n] (xs, e) = Some (states', d')"
      using Suc.prems(1) by (auto simp: up split: option.splits)
    have ks: "k < length (send_ok d)" using Suc.prems(2) k by simp
    note r = tx_one_result [OF x(1) ks]
    obtain st where st: "xs = states[k := st]" "send_timestamp_ns st = 0"
      "view st = (measured (states ! k), if written_at d 0 then CAN_NO_RESPONSE else CAN_WRITE_FAILED)"
      using r(7) by blast
    have w: "written_at e (j - Suc k) = written_at d (j - k)" if "Suc k \<le> j" for j
    proof -
      from that obtain i where "j = Suc k + i" by (auto dest: le_Suc_ex)
      then show ?thesis using r(3,4) by (simp add: written_at_def same_tx_def)
    qed
    have fl: "filter (\<lambda>j. written_at e (j - Suc k)) [Suc k..<n] = filter (\<lambda>j. written_at d (j - k)) [Suc k..<n]"
      using w by (intro filter_cong) auto
    have c: "joint_configs e = joint_configs d" "length (send_ok e) = length (send_ok d)" "ready d \<longrightarrow> ready e"
      using r(3) by (simp_all add: same_tx_def)
    note IH = Suc.hyps(1) [of "Suc k" xs e, unfolded fl c(1)]
    have IH: "(Suc k < n \<longrightarrow> n \<le> length xs) \<and> same_tx e d' \<and> length states' = length xs \<and>
      (\<forall>j. j < Suc k \<longrightarrow> states' ! j = xs ! j \<and> send_ok d' ! j = send_ok e ! j) \<and>
      (\<forall>j. Suc k \<le> j \<and> j < n \<longrightarrow> send_ok d' ! j = written_at e (j - Suc k) \<and>
        send_timestamp_ns (states' ! j) = 0 \<and>
        view (states' ! j) =
          (measured (xs ! j), if written_at e (j - Suc k) then CAN_NO_RESPONSE else CAN_WRITE_FAILED)) \<and>
      (ready e \<longrightarrow> sent (socket d') = sent (socket e) @
        map (\<lambda>j. command_frame (joint_configs d ! j) (cmds ! j)) (filter (\<lambda>j. written_at d (j - k)) [Suc k..<n]))"
      using IH x(2) Suc.hyps(2) Suc.prems(2) k c by simp
    have 1: "k < n \<longrightarrow> n \<le> length states" using IH r(1) st(1) by (cases "Suc k < n") auto
    have 2: "same_tx d d'" using IH r(3) same_tx_trans by blast
    have 3: "\<forall>j. k \<le> j \<and> j < n \<longrightarrow> send_ok d' ! j = written_at d (j - k) \<and> send_timestamp_ns (states' ! j) = 0 \<and>
      view (states' ! j) =
        (measured (states ! j), if written_at d (j - k) then CAN_NO_RESPONSE else CAN_WRITE_FAILED)"
    proof (intro allI impI)
      fix j assume j: "k \<le> j \<and> j < n"
      show "send_ok d' ! j = written_at d (j - k) \<and> send_timestamp_ns (states' ! j) = 0 \<and>
        view (states' ! j) =
          (measured (states ! j), if written_at d (j - k) then CAN_NO_RESPONSE else CAN_WRITE_FAILED)"
      proof (cases "j = k")
        case True
        then show ?thesis using IH r(1,5) st ks by simp
      next
        case False
        then have "Suc k \<le> j" using j by simp
        then show ?thesis using IH j w [of j] st(1) by simp
      qed
    qed
    have 4: "\<forall>j. j < k \<longrightarrow> states' ! j = states ! j \<and> send_ok d' ! j = send_ok d ! j"
      using IH st(1) r(5) by simp
    have 5: "ready d \<longrightarrow> sent (socket d') = sent (socket d) @
      map (\<lambda>j. command_frame (joint_configs d ! j) (cmds ! j)) (filter (\<lambda>j. written_at d (j - k)) [k..<n])"
      using IH r(6) c(3) by (auto simp: up)
    show ?case using 1 2 3 4 5 IH st(1) by simp
  qed
  then show "k < n \<Longrightarrow> n \<le> length states" and "same_tx d d'" and "length states' = length states"
    and "\<forall>j. j < k \<longrightarrow> states' ! j = states ! j \<and> send_ok d' ! j = send_ok d ! j"
    and "\<forall>j. k \<le> j \<and> j < n \<longrightarrow> send_ok d' ! j = written_at d (j - k) \<and> send_timestamp_ns (states' ! j) = 0 \<and>
      view (states' ! j) =
        (measured (states ! j), if written_at d (j - k) then CAN_NO_RESPONSE else CAN_WRITE_FAILED)"
    and "ready d \<Longrightarrow> sent (socket d') = sent (socket d) @
      map (\<lambda>j. command_frame (joint_configs d ! j) (cmds ! j)) (filter (\<lambda>j. written_at d (j - k)) [k..<n])"
    by blast+
qed

section \<open>Transmit time stamps\<close>

text \<open>What an entry of the error queue does to the send time stamp of joint \<open>j\<close>.\<close>

definition entry_stamp :: "joint_config list \<Rightarrow> nat \<Rightarrow> can_frame \<times> cmsg list \<Rightarrow> int \<Rightarrow> int" where
  "entry_stamp cfgs j = (\<lambda>(f, cs) old.
     if scan_tx cs 0 \<noteq> 0 \<and> find_index (\<lambda>conf. can_id conf = echoed_id f) cfgs = Some j
     then scan_tx cs 0 else old)"

lemma collect_entries_refines:
  assumes "length cfgs \<le> length states"
  shows "length (collect_entries cfgs q states) = length states"
    and "j < length states \<Longrightarrow> view (collect_entries cfgs q states ! j) = view (states ! j)"
    and "j < length states \<Longrightarrow> send_timestamp_ns (collect_entries cfgs q states ! j) =
      fold (entry_stamp cfgs j) q (send_timestamp_ns (states ! j))"
proof -
  have "length (collect_entries cfgs q states) = length states \<and>
    (\<forall>j<length states. view (collect_entries cfgs q states ! j) = view (states ! j) \<and>
      send_timestamp_ns (collect_entries cfgs q states ! j) =
        fold (entry_stamp cfgs j) q (send_timestamp_ns (states ! j)))"
    using assms
  proof (induction q arbitrary: states)
    case (Cons e q)
    obtain f cs where e: "e = (f, cs)" by force
    show ?case
    proof (cases "find_index (\<lambda>conf. can_id conf = echoed_id f) cfgs")
      case None
      then show ?thesis using Cons e by (simp add: Let_def entry_stamp_def)
    next
      case (Some k)
      then have "k < length states" using find_index_less Cons.prems less_le_trans by blast
      moreover define xs where "xs = states[k := (states ! k)\<lparr>send_timestamp_ns := scan_tx cs 0\<rparr>]"
      moreover have "view (xs ! j) = view (states ! j)" if "j < length states" for j
        using that by (auto simp: xs_def view_def measured_def nth_list_update_if)
      ultimately show ?thesis using Cons.IH [of xs] Cons.IH [of states] Cons.prems e Some
        by (auto simp: Let_def entry_stamp_def nth_list_update_if)
    qed
  qed simp
  then show "length (collect_entries cfgs q states) = length states"
    and "j < length states \<Longrightarrow> view (collect_entries cfgs q states ! j) = view (states ! j)"
    and "j < length states \<Longrightarrow> send_timestamp_ns (collect_entries cfgs q states ! j) =
      fold (entry_stamp cfgs j) q (send_timestamp_ns (states ! j))"
    by blast+
qed

section \<open>A whole cycle\<close>

text \<open>The invariant of the driver object between its operations.\<close>

definition driver_ok :: "driver \<Rightarrow> bool" where
  "driver_ok d \<longleftrightarrow>
     ready d \<and> length (send_ok d) = length (joint_configs d) \<and>
     length (recv_ok d) = length (joint_configs d)"

text \<open>Which command frames of the coming cycle the bus will take.\<close>

definition written :: "driver \<Rightarrow> bool list" where
  "written d = map (written_at d) [0..<length (joint_configs d)]"

definition cycle_view :: "driver \<Rightarrow> joint_state list \<Rightarrow> nat \<Rightarrow> view" where
  "cycle_view d states j =
     fold (slot_effect (joint_configs d) (written d) j)
       (slots (written d) [0..<length (joint_configs d)] (rx_queue (socket d)))
       (measured (states ! j), if written d ! j then CAN_NO_RESPONSE else CAN_WRITE_FAILED)"

text \<open>What the code does after the receive loop changes neither the view nor the frames.\<close>

lemma cycle_finish:
  fixes d :: driver and states :: "joint_state list"
  fixes dr :: driver
  defines "dr \<equiv> d\<lparr>socket := snd (sys_clock (socket d)),
      rx_duration_ns := fst (sys_clock (socket d)) - tx_fill_end_ns d\<rparr>"
  assumes "length (joint_configs d) \<le> length states"
    and f: "(states', d') = (if enable_tx_timestamping dr then collect_tx_timestamps (states, dr) else (states, dr))"
  shows "joint_configs d' = joint_configs d" "send_ok d' = send_ok d" "recv_ok d' = recv_ok d"
    "send_frame d' = send_frame d" "sent (socket d') = sent (socket d)" "length states' = length states"
    and "j < length states \<Longrightarrow> view (states' ! j) = view (states ! j)"
    and "j < length states \<Longrightarrow> send_timestamp_ns (states' ! j) =
      (if enable_tx_timestamping d
       then fold (entry_stamp (joint_configs d) j) (err_queue (socket d)) (send_timestamp_ns (states ! j))
       else send_timestamp_ns (states ! j))"
  using f collect_entries_refines [OF assms(2)]
  by (auto simp: dr_def collect_tx_timestamps_def frame_facts split: if_splits)

lemma send_and_receive_steps:
  assumes "length cmds = length (joint_configs d)"
  shows "send_and_receive cmds states d =
    (case tx_loop cmds [0..<length (joint_configs d)] (states, d\<lparr>socket := snd (sys_clock (socket d))\<rparr>) of
       None \<Rightarrow> (UB, d)
     | Some (states1, da) \<Rightarrow>
        (let (states2, db) = rx_loop [0..<length (joint_configs d)]
               (states1, da\<lparr>socket := snd (sys_clock (socket da)),
                  tx_fill_end_ns := fst (sys_clock (socket da)),
                  tx_fill_duration_ns := fst (sys_clock (socket da)) - fst (sys_clock (socket d)), last_error_count := 0\<rparr>);
             dc = db\<lparr>socket := snd (sys_clock (socket db)),
                     rx_duration_ns := fst (sys_clock (socket db)) - tx_fill_end_ns db\<rparr>;
             (states', d') = (if enable_tx_timestamping dc then collect_tx_timestamps (states2, dc)
                              else (states2, dc))
         in (Ok states', d')))"
  using assms
  by (simp add: send_and_receive_def Let_def case_prod_beta split: option.split prod.split)

lemma cycle_refines:
  assumes ok: "driver_ok d" and cfg: "list_all config_ok (joint_configs d)"
    and sz: "length cmds = length (joint_configs d)" "length (joint_configs d) \<le> length states"
  obtains states' d' where "send_and_receive cmds states d = (Ok states', d')"
    and "length states' = length states" and "driver_ok d'" and "joint_configs d' = joint_configs d"
    and "\<forall>j<length (joint_configs d). view (states' ! j) = cycle_view d states j"
    and "\<forall>j<length (joint_configs d). send_timestamp_ns (states' ! j) =
      (if enable_tx_timestamping d then fold (entry_stamp (joint_configs d) j) (err_queue (socket d)) 0 else 0)"
    and "sent (socket d') = sent (socket d) @
      map (\<lambda>j. command_frame (joint_configs d ! j) (cmds ! j))
        (filter ((!) (written d)) [0..<length (joint_configs d)])"
    and "send_ok d' = written d"
proof -
  let ?n = "length (joint_configs d)"
  define dz where "dz = d\<lparr>socket := snd (sys_clock (socket d))\<rparr>"
  have dz: "joint_configs dz = joint_configs d" "send_ok dz = send_ok d" "recv_ok dz = recv_ok d" "ready dz"
    "enable_tx_timestamping dz = enable_tx_timestamping d" "rx_queue (socket dz) = rx_queue (socket d)"
    "err_queue (socket dz) = err_queue (socket d)" "sent (socket dz) = sent (socket d)"
    "written_at dz = written_at d"
    using ok by (simp_all add: dz_def driver_ok_def ready_def frame_facts written_at_def fun_eq_iff)
  have "\<exists>c. tx_loop cmds [0..<?n] (states, dz) = Some c"
    using cfg sz ok dz by (intro tx_loop_total) (simp_all add: driver_ok_def)
  then obtain states1 da where tx: "tx_loop cmds [0..<?n] (states, dz) = Some (states1, da)" by auto
  have sl: "?n \<le> length (send_ok dz)" using ok dz by (simp add: driver_ok_def)
  note t = tx_loop_result [OF tx sl, unfolded dz]
  have so: "send_ok da = written d"
    using t(2,5) ok dz by (intro nth_equalityI) (auto simp: same_tx_def written_def driver_ok_def)
  define e where "e = da\<lparr>socket := snd (sys_clock (socket da)),
    tx_fill_end_ns := fst (sys_clock (socket da)),
    tx_fill_duration_ns := fst (sys_clock (socket da)) - fst (sys_clock (socket d)), last_error_count := 0\<rparr>"
  have e: "joint_configs e = joint_configs d" "send_ok e = written d" "recv_ok e = recv_ok d" "ready e"
    "enable_tx_timestamping e = enable_tx_timestamping d" "rx_queue (socket e) = rx_queue (socket d)"
    "err_queue (socket e) = err_queue (socket d)" "sent (socket e) = sent (socket da)"
    using t(2) dz so by (simp_all add: e_def same_tx_def ready_def frame_facts)
  obtain states2 db where rx: "rx_loop [0..<?n] (states1, e) = (states2, db)" by force
  have len: "length (joint_configs e) \<le> length states1" "\<forall>i\<in>set [0..<?n]. i < length states1"
    using t(3) sz e(1) by auto
  note r = rx_loop_refines [OF rx len, unfolded e]
  have l2: "length states2 = length states" using same_stamps_length [OF r(2)] t(3) by simp
  define dc where "dc = db\<lparr>socket := snd (sys_clock (socket db)),
    rx_duration_ns := fst (sys_clock (socket db)) - tx_fill_end_ns db\<rparr>"
  obtain states' d' where fin: "(states', d') =
      (if enable_tx_timestamping dc then collect_tx_timestamps (states2, dc) else (states2, dc))"
    by (cases "if enable_tx_timestamping dc then collect_tx_timestamps (states2, dc) else (states2, dc)") auto
  have c2: "joint_configs db = joint_configs d" "enable_tx_timestamping db = enable_tx_timestamping d"
    "err_queue (socket db) = err_queue (socket d)" "sent (socket db) = sent (socket da)"
    "send_ok db = written d" "ready db" "length (recv_ok db) = length (recv_ok d)"
    using r(1) e by (simp_all add: same_cycle_def ready_def)
  have l3: "length (joint_configs db) \<le> length states2" using c2(1) l2 sz by simp
  note f = cycle_finish [OF l3 fin [unfolded dc_def], unfolded c2]
  have st: "send_timestamp_ns (states2 ! j) = 0" if "j < ?n" for j
  proof -
    have "map send_timestamp_ns states2 ! j = map send_timestamp_ns states1 ! j"
      using r(2) by (simp add: same_stamps_def)
    then show ?thesis using t(3,5) that l2 sz by simp
  qed
  show thesis
  proof (rule that [of states' d'])
    show "send_and_receive cmds states d = (Ok states', d')"
      unfolding send_and_receive_steps [OF sz(1)]
      using tx rx fin [symmetric] unfolding dz_def e_def dc_def by (auto simp: Let_def split: if_splits)
    show "length states' = length states" using f(6) l2 by simp
    show "joint_configs d' = joint_configs d" by (rule f(1))
    show "send_ok d' = written d" by (rule f(2))
    show "driver_ok d'"
      using f(1-4) c2(6,7) ok by (simp add: driver_ok_def ready_def written_def)
    show "\<forall>j<?n. view (states' ! j) = cycle_view d states j"
    proof (intro allI impI)
      fix j assume j: "j < ?n"
      then have "view (states' ! j) = view (states2 ! j)" using f(7) l2 sz by simp
      also have "\<dots> = fold (slot_effect (joint_configs d) (written d) j)
          (slots (written d) [0..<?n] (rx_queue (socket d))) (view (states1 ! j))"
        using r(3) j t(3) sz by simp
      also have "view (states1 ! j) =
          (measured (states ! j), if written d ! j then CAN_NO_RESPONSE else CAN_WRITE_FAILED)"
        using t(5) j by (simp add: written_def)
      finally show "view (states' ! j) = cycle_view d states j" by (simp add: cycle_view_def)
    qed
    show "\<forall>j<?n. send_timestamp_ns (states' ! j) =
      (if enable_tx_timestamping d then fold (entry_stamp (joint_configs d) j) (err_queue (socket d)) 0 else 0)"
      using f(8) st l2 sz by simp
    have "filter (written_at d) [0..<?n] = filter ((!) (written d)) [0..<?n]"
      by (rule filter_cong) (auto simp: written_def)
    then show "sent (socket d') = sent (socket d) @
      map (\<lambda>j. command_frame (joint_configs d ! j) (cmds ! j)) (filter ((!) (written d)) [0..<?n])"
      using f(5) t(6) dz(4) by simp
  qed
qed

section \<open>What a cycle takes from the bus\<close>

lemma skim_source:
  "skim m q = (r, q') \<Longrightarrow> set q' \<subseteq> set q \<and>
     (\<forall>f. r = Some f \<longrightarrow> (\<exists>nb cs. Rx_Msg nb f cs \<in> set q) \<and> frame_id f AND CAN_ERR_FLAG = 0)"
  by (induction m q rule: skim.induct) (auto split: if_splits, blast)

lemma slots_source:
  "(i, Some f) \<in> set (slots w is q) \<Longrightarrow> (\<exists>nb cs. Rx_Msg nb f cs \<in> set q) \<and> frame_id f AND CAN_ERR_FLAG = 0"
proof (induction "is" arbitrary: q)
  case (Cons j "is")
  obtain r q' where k: "skim max_reads q = (r, q')" by force
  note s = skim_source [OF k]
  show ?case
  proof (cases "w ! j \<and> (i, Some f) \<noteq> (j, r)")
    case True
    then have "(i, Some f) \<in> set (slots w is q')" using Cons.prems k by auto
    then show ?thesis using Cons.IH s by blast
  next
    case False
    then show ?thesis using Cons s k by auto
  qed
qed simp

lemma handle_frame_queue: "rx_queue (socket (snd (handle_frame a b c (states, d)))) = rx_queue (socket d)"
  by (auto simp: handle_frame_def take_reply_def Let_def split: option.splits)

lemma rx_one_queue: "set (rx_queue (socket (snd (rx_one i (states, d))))) \<subseteq> set (rx_queue (socket d))"
proof -
  obtain x e where x: "next_frame max_reads (d\<lparr>recv_ok := (recv_ok d)[i := False]\<rparr>) = (x, e)" by force
  have "set (rx_queue (socket e)) \<subseteq> set (rx_queue (socket d))"
    using skim_source [OF next_frame_refines(2) [OF x]] by simp
  then show ?thesis
    using x by (auto simp: rx_one_def handle_frame_queue frame_facts Let_def split_beta split: option.splits)
qed

lemma rx_loop_queue: "set (rx_queue (socket (snd (rx_loop is (states, d))))) \<subseteq> set (rx_queue (socket d))"
proof (induction "is" arbitrary: states d)
  case (Cons i "is")
  obtain xs e where x: "rx_one i (states, d) = (xs, e)" by force
  show ?case using Cons.IH [of xs e] rx_one_queue [of i states d] x by auto
qed simp

lemma cycle_queue:
  assumes "length cmds = length (joint_configs d)" and "length (joint_configs d) \<le> length (send_ok d)"
    and "send_and_receive cmds states d = (Ok states', d')"
  shows "set (rx_queue (socket d')) \<subseteq> set (rx_queue (socket d))"
proof -
  let ?d = "d\<lparr>socket := snd (sys_clock (socket d))\<rparr>"
  obtain states1 da where tx: "tx_loop cmds [0..<length (joint_configs d)] (states, ?d) = Some (states1, da)"
    using assms(3) by (auto simp: send_and_receive_steps [OF assms(1)] split: option.splits)
  have a: "rx_queue (socket da) = rx_queue (socket d)"
    using tx_loop_result(2) [OF tx] assms(2) by (simp add: same_tx_def frame_facts)
  define e where "e = da\<lparr>socket := snd (sys_clock (socket da)),
    tx_fill_end_ns := fst (sys_clock (socket da)),
    tx_fill_duration_ns := fst (sys_clock (socket da)) - fst (sys_clock (socket d)), last_error_count := 0\<rparr>"
  obtain states2 db where rx: "rx_loop [0..<length (joint_configs d)] (states1, e) = (states2, db)" by force
  have "set (rx_queue (socket db)) \<subseteq> set (rx_queue (socket d))"
    using rx_loop_queue [of "[0..<length (joint_configs d)]" states1 e] rx a by (simp add: e_def frame_facts)
  moreover have "rx_queue (socket d') = rx_queue (socket db)"
    using assms(3) tx rx unfolding send_and_receive_steps [OF assms(1)] e_def
    by (auto simp: collect_tx_timestamps_def frame_facts Let_def split: if_splits)
  ultimately show ?thesis by simp
qed

section \<open>Views over a whole cycle\<close>

lemma fold_unaffected:
  assumes "\<forall>(i, r)\<in>set es. (case r of None \<Rightarrow> i \<noteq> j | Some f \<Rightarrow> frame_joint cfgs f \<noteq> Some j)"
  shows "fold (slot_effect cfgs w j) es v = v"
  using assms
proof (induction es arbitrary: v)
  case (Cons e es)
  obtain i r m c where "e = (i, r)" "v = (m, c)" by (cases e, cases v) auto
  with Cons show ?case by (cases r) auto
qed simp

lemma fold_answered:
  assumes "snd (fold (slot_effect cfgs w j) es (m, c)) \<in> {SUCCESS, CAN_WRITE_FAILED_BUT_RESPONSE_RECEIVED}"
    and "c \<notin> {SUCCESS, CAN_WRITE_FAILED_BUT_RESPONSE_RECEIVED}"
  shows "\<exists>i f. (i, Some f) \<in> set es \<and> frame_joint cfgs f = Some j \<and>
    fold (slot_effect cfgs w j) es (m, c) =
      (frame_values (cfgs ! j) f, if w ! j then SUCCESS else CAN_WRITE_FAILED_BUT_RESPONSE_RECEIVED)"
  using assms(1)
proof (induction es rule: rev_induct)
  case Nil
  with assms(2) show ?case by simp
next
  case (snoc e es)
  obtain i r where e: "e = (i, r)" by force
  obtain m' c' where v: "fold (slot_effect cfgs w j) es (m, c) = (m', c')" by (meson surj_pair)
  show ?case
  proof (cases "slot_effect cfgs w j e (m', c') = (m', c')")
    case True
    then show ?thesis using snoc v by auto
  next
    case False
    then show ?thesis using snoc.prems v e by (cases r) (auto split: if_splits)
  qed
qed

lemma fold_silent:
  assumes "\<forall>i f. (i, Some f) \<in> set es \<longrightarrow> frame_joint cfgs f \<noteq> Some j"
  shows "fold (slot_effect cfgs w j) es (m, c) = (m, if (j, None) \<in> set es then CAN_READ_FAILED else c)"
  using assms
proof (induction es rule: rev_induct)
  case (snoc e es)
  obtain i r where "e = (i, r)" by force
  with snoc show ?case by (cases r) auto
qed simp

lemma slots_written: "(i, r) \<in> set (slots w is q) \<Longrightarrow> i \<in> set is \<and> w ! i"
  by (induction "is" arbitrary: q) (auto split: if_splits prod.splits)

text \<open>One reply for each slot, in any order of the joints.\<close>

lemma skim_frame:
  "frame_id f AND CAN_ERR_FLAG = 0 \<Longrightarrow> skim max_reads (Rx_Msg nb f cs # q) = (Some f, q)"
  by (simp add: max_reads_def numeral_eq_Suc)

lemma slots_replies:
  assumes "\<forall>i\<in>set is. w ! i" and "length js = length is" and "\<forall>j\<in>set js. frame_id (fs j) AND CAN_ERR_FLAG = 0"
  shows "slots w is (map (\<lambda>j. Rx_Msg (nb j) (fs j) (cs j)) js @ q) = zip is (map (\<lambda>k. Some (fs k)) js)"
  using assms
proof (induction "is" arbitrary: js)
  case (Cons i "is")
  then show ?case by (cases js) (auto simp: skim_frame)
qed simp

lemma fold_replies:
  assumes "\<forall>k\<in>set js. frame_joint cfgs (fs k) = Some k" and "distinct js" and "length js = length is"
    and "j \<in> set js"
  shows "fold (slot_effect cfgs w j) (zip is (map (\<lambda>k. Some (fs k)) js)) v =
    (frame_values (cfgs ! j) (fs j), if w ! j then SUCCESS else CAN_WRITE_FAILED_BUT_RESPONSE_RECEIVED)"
  using assms
proof (induction js arbitrary: "is" v)
  case (Cons k js)
  obtain i is' where i: "is = i # is'" "length js = length is'" using Cons.prems(3) by (cases "is") auto
  obtain m c where v: "v = (m, c)" by (meson surj_pair)
  show ?case
  proof (cases "k = j")
    case True
    then have "fold (slot_effect cfgs w j) (zip is' (map (\<lambda>k. Some (fs k)) js)) x = x" for x
      using Cons.prems by (intro fold_unaffected) (auto dest!: set_zip_rightD)
    then show ?thesis using True Cons.prems(1) i v by simp
  next
    case False
    then show ?thesis using Cons i v by simp
  qed
qed simp

section \<open>The replies of a configured joint\<close>

definition reply_of :: "joint_config \<Rightarrow> can_frame \<Rightarrow> bool" where
  "reply_of cfg f \<longleftrightarrow>
     (case series_type cfg of
        V2 \<Rightarrow> frame_id f AND CAN_EFF_FLAG = 0 \<and> frame_id f AND CAN_ERR_FLAG = 0 \<and>
              ucast (d0 (frame_data f)) = can_id cfg
      | V3 \<Rightarrow> frame_id f = can_id cfg OR push_bit 8 (packet_id CAN_PACKET_RESPONSE) OR CAN_EFF_FLAG)"

lemma small_id_bits:
  assumes "(c :: u32) < 256"
  shows "c AND 0xFF = c" "c AND 0x1FFFFFFF = c" "c AND 0x20000000 = 0" "drop_bit 8 c = 0"
proof -
  have t: "take_bit 8 c = c" using assms by (intro take_bit_small) (simp add: word_less_nat_alt)
  then show a: "c AND 0xFF = c" by (simp add: and_0xFF)
  have e: "c AND x = c AND (0xFF AND x)" for x by (simp only: and.assoc [symmetric] a)
  show "c AND 0x1FFFFFFF = c" by (subst e) (simp add: a)
  show "c AND 0x20000000 = 0" by (subst e) simp
  have b: "n < 8" if "bit c n" for n using that t by (metis bit_take_bit_iff)
  show "drop_bit 8 c = 0" by (rule bit_word_eqI) (auto simp: bit_simps dest!: b)
qed

lemma reply_of_joint:
  assumes "distinct (map can_id cfgs)" and j: "j < length cfgs" and "can_id (cfgs ! j) < 256"
    and r: "reply_of (cfgs ! j) f"
  shows "frame_joint cfgs f = Some j" and "frame_id f AND CAN_ERR_FLAG = 0"
proof -
  let ?c = "can_id (cfgs ! j)"
  note fi = find_index_distinct [OF assms(1) j]
  note b = small_id_bits [OF assms(3)]
  have "frame_joint cfgs f = Some j \<and> frame_id f AND CAN_ERR_FLAG = 0"
  proof (cases "series_type (cfgs ! j)")
    case V2
    then have z: "frame_id f AND CAN_EFF_FLAG = 0" "frame_id f AND CAN_ERR_FLAG = 0"
      "ucast (d0 (frame_data f)) = ?c"
      using r by (simp_all add: reply_of_def)
    then show ?thesis using fi by (simp add: frame_joint_def)
  next
    case V3
    then have f: "frame_id f = ?c OR 0x2900 OR 0x80000000" using r by (simp add: reply_of_def can_const_defs)
    show ?thesis using fi
      by (simp add: frame_joint_def f can_const_defs bit.conj_disj_distrib2 b drop_bit_or)
  qed
  then show "frame_joint cfgs f = Some j" and "frame_id f AND CAN_ERR_FLAG = 0" by blast+
qed

section \<open>Properties\<close>

definition demo_motor :: "u32 \<Rightarrow> SERIES_TYPE \<Rightarrow> joint_config" where
  "demo_motor cid s =
     (motor_limits (-12.5) 12.5 (-50) 50 (-65) 65 0 500 0 5)\<lparr>can_id := cid, series_type := s\<rparr>"

definition demo_cmd :: joint_cmd where
  "demo_cmd = \<lparr>cmd_pos = Fin 1, cmd_vel = NaN, cmd_torque = Inf True, cmd_kp = Fin 100, cmd_kd = Fin 1\<rparr>"

lemma demo_motor_ok: "config_ok (demo_motor cid s)"
  by (simp add: demo_motor_def config_ok_def motor_limits_def range_ok_literals)

lemma demo_driver_ok: "driver_ok (demo_driver cfgs q)"
  by (simp add: driver_ok_def demo_ready) (simp add: demo_driver_def initial_driver_def)

lemma demo_driver_simps:
  "joint_configs (demo_driver cfgs q) = cfgs" "rx_queue (socket (demo_driver cfgs q)) = q"
  "sent (socket (demo_driver cfgs q)) = []" "err_queue (socket (demo_driver cfgs q)) = []"
  "wr_errno (socket (demo_driver cfgs q)) k = 0" "enable_tx_timestamping (demo_driver cfgs q) = True"
  by (simp_all add: demo_driver_def initial_driver_def working_bus_def)

lemma demo_written: "written (demo_driver cfgs q) = replicate (length cfgs) True"
  by (rule nth_equalityI) (simp_all add: written_def written_at_def demo_driver_simps)

definition demo_pair :: "rx_outcome list \<Rightarrow> driver" where
  "demo_pair q = demo_driver [demo_motor 1 V2, demo_motor 2 V3] q"

lemma demo_pair_facts:
  "driver_ok (demo_pair q)" "list_all config_ok (joint_configs (demo_pair q))" "link_up (demo_pair q)"
  "joint_configs (demo_pair q) = [demo_motor 1 V2, demo_motor 2 V3]" "rx_queue (socket (demo_pair q)) = q"
  "sent (socket (demo_pair q)) = []" "written (demo_pair q) = [True, True]"
  "can_id (demo_motor c s) = c" "series_type (demo_motor c s) = s" "config_ok (demo_motor c s)"
  by (simp_all add: demo_pair_def demo_driver_ok demo_driver_simps demo_motor_ok demo_written)
    (simp_all add: demo_motor_def motor_limits_def)

lemma demo_cycle:
  obtains states' d' where
    "send_and_receive [demo_cmd, demo_cmd] [blank_state, blank_state] (demo_pair q) = (Ok states', d')"
  by (rule cycle_refines [of "demo_pair q" "[demo_cmd, demo_cmd]" "[blank_state, blank_state]"];
      (erule that | simp add: demo_pair_facts))

text \<open>Both motors answer, the second one first.\<close>

definition demo_reply :: "nat \<Rightarrow> can_frame" where
  "demo_reply j =
     (if j = 0 then \<lparr>frame_id = 0, frame_len = 8, frame_data = Data 1 0x80 0 0x80 8 0 65 0\<rparr>
      else \<lparr>frame_id = 0x80002902, frame_len = 8, frame_data = Data 0 100 0 0 0 0 25 0\<rparr>)"

definition demo_answers :: "rx_outcome list" where
  "demo_answers = map (\<lambda>j. Rx_Msg 16 (demo_reply j) []) [1, 0]"

lemma demo_reply_own: "\<forall>j<2. reply_of ([demo_motor 1 V2, demo_motor 2 V3] ! j) (demo_reply j)"
  by (simp add: less_two_iff demo_reply_def reply_of_def demo_pair_facts can_const_defs)

text \<open>
  C1. A control cycle always completes: with one command and one state for each joint and proper
  limits, neither a lost reply, a failing write, an unknown or foreign frame, a burst of error
  frames nor a command that is NaN or infinite makes it throw or run into undefined behaviour;
  the driver's invariant holds again afterwards.
\<close>

theorem cycle_completes:
  assumes "driver_ok d" and "list_all config_ok (joint_configs d)"
    and "length cmds = length (joint_configs d)" and "length states = length (joint_configs d)"
  shows "\<exists>states' d'. send_and_receive cmds states d = (Ok states', d') \<and>
    length states' = length states \<and> driver_ok d' \<and> joint_configs d' = joint_configs d"
  using cycle_refines [OF assms(1-3)] assms(4) by (metis order_refl)

theorem cycle_completes_witness:
  "\<exists>states' d'. send_and_receive [demo_cmd, demo_cmd] [blank_state, blank_state]
      (demo_pair [Rx_Fail 11, reply_v3 9 0]) = (Ok states', d') \<and>
    length states' = 2 \<and> driver_ok d'"
  using cycle_completes [of "demo_pair [Rx_Fail 11, reply_v3 9 0]" "[demo_cmd, demo_cmd]" "[blank_state, blank_state]"]
  by (auto simp: demo_pair_facts)

lemma cycle_sends_frames:
  assumes "driver_ok d" and "list_all config_ok (joint_configs d)"
    and "length cmds = length (joint_configs d)" and "length states = length (joint_configs d)"
  shows "sent (socket (snd (send_and_receive cmds states d))) = sent (socket d) @
      map (\<lambda>j. command_frame (joint_configs d ! j) (cmds ! j))
        (filter ((!) (written d)) [0..<length (joint_configs d)])"
proof -
  have "length (joint_configs d) \<le> length states" using assms(4) by simp
  from cycle_refines [OF assms(1-3) this] show ?thesis by (metis snd_conv)
qed

text \<open>
  C17. What a cycle puts on the bus: one command frame for each joint whose write succeeds, in
  the order of the joints, each with the joint's identifier, a length of eight and the joint's
  encoded command. Nothing received in the cycle changes what is sent.
\<close>

theorem cycle_sends_commands_in_order:
  assumes "driver_ok d" and "list_all config_ok (joint_configs d)"
    and "length cmds = length (joint_configs d)" and "length states = length (joint_configs d)"
  shows "sent (socket (snd (send_and_receive cmds states d))) = sent (socket d) @
      map (\<lambda>j. command_frame (joint_configs d ! j) (cmds ! j))
        (filter ((!) (written d)) [0..<length (joint_configs d)])"
  by (rule cycle_sends_frames [OF assms])

theorem cycle_sends_commands_in_order_witness:
  "sent (socket (snd (send_and_receive [demo_cmd, demo_cmd] [blank_state, blank_state] (demo_pair [])))) =
    [command_frame (demo_motor 1 V2) demo_cmd, command_frame (demo_motor 2 V3) demo_cmd]"
  using cycle_sends_commands_in_order [of "demo_pair []" "[demo_cmd, demo_cmd]" "[blank_state, blank_state]"]
  by (simp add: demo_pair_facts)

lemma cycle_view_at:
  assumes ok: "driver_ok d" and cfg: "list_all config_ok (joint_configs d)"
    and sz: "length cmds = length (joint_configs d)" "length states = length (joint_configs d)"
    and r: "send_and_receive cmds states d = (Ok states', d')" and j: "j < length (joint_configs d)"
  shows "(measured (states' ! j), communication_status (states' ! j)) = cycle_view d states j"
proof -
  have "length (joint_configs d) \<le> length states" using sz(2) by simp
  from cycle_refines [OF ok cfg sz(1) this] obtain xs e where
    "send_and_receive cmds states d = (Ok xs, e)"
    "\<forall>j<length (joint_configs d). view (xs ! j) = cycle_view d states j" by metis
  then show ?thesis using r j by (simp add: view_def)
qed

text \<open>The frames the read slots of the coming cycle see.\<close>

definition cycle_slots :: "driver \<Rightarrow> (nat \<times> can_frame option) list" where
  "cycle_slots d = slots (written d) [0..<length (joint_configs d)] (rx_queue (socket d))"

lemma response_source:
  assumes "driver_ok d" and "list_all config_ok (joint_configs d)"
    and "length cmds = length (joint_configs d)" and "length states = length (joint_configs d)"
    and "send_and_receive cmds states d = (Ok states', d')" and "j < length (joint_configs d)"
    and "communication_status (states' ! j) \<in> {SUCCESS, CAN_WRITE_FAILED_BUT_RESPONSE_RECEIVED}"
  shows "\<exists>i f. (i, Some f) \<in> set (cycle_slots d) \<and> frame_joint (joint_configs d) f = Some j \<and>
    measured (states' ! j) = frame_values (joint_configs d ! j) f \<and>
    (communication_status (states' ! j) = SUCCESS \<longleftrightarrow> written d ! j)"
proof -
  note v = cycle_view_at [OF assms(1-6)]
  let ?c = "if written d ! j then CAN_NO_RESPONSE else CAN_WRITE_FAILED"
  have "\<exists>i f. (i, Some f) \<in> set (cycle_slots d) \<and> frame_joint (joint_configs d) f = Some j \<and>
    fold (slot_effect (joint_configs d) (written d) j) (cycle_slots d) (measured (states ! j), ?c) =
      (frame_values (joint_configs d ! j) f,
       if written d ! j then SUCCESS else CAN_WRITE_FAILED_BUT_RESPONSE_RECEIVED)"
    using v assms(7) unfolding cycle_view_def cycle_slots_def
    by (intro fold_answered) (auto dest: arg_cong [where f = snd])
  with v show ?thesis unfolding cycle_view_def cycle_slots_def by (auto split: if_splits)
qed

text \<open>
  C4. A joint that is reported with a response has fresh data: a frame read in this very cycle
  is a reply of that joint, and position, velocity, torque, temperature and device status are
  the values that frame carries. \<open>SUCCESS\<close> also says that the joint's command was written.
\<close>

theorem reported_response_is_fresh:
  assumes "driver_ok d" and "list_all config_ok (joint_configs d)"
    and "length cmds = length (joint_configs d)" and "length states = length (joint_configs d)"
    and "send_and_receive cmds states d = (Ok states', d')" and "j < length (joint_configs d)"
    and "communication_status (states' ! j) \<in> {SUCCESS, CAN_WRITE_FAILED_BUT_RESPONSE_RECEIVED}"
  shows "\<exists>i f. (i, Some f) \<in> set (cycle_slots d) \<and> frame_joint (joint_configs d) f = Some j \<and>
    measured (states' ! j) = frame_values (joint_configs d ! j) f \<and>
    (communication_status (states' ! j) = SUCCESS \<longleftrightarrow> written d ! j)"
  by (rule response_source [OF assms])

lemma demo_answers_view:
  assumes "j < 2"
  shows "cycle_view (demo_pair demo_answers) states j =
    (frame_values ([demo_motor 1 V2, demo_motor 2 V3] ! j) (demo_reply j), SUCCESS)"
proof -
  let ?cfgs = "[demo_motor 1 V2, demo_motor 2 V3]"
  have own: "frame_joint ?cfgs (demo_reply k) = Some k" "frame_id (demo_reply k) AND CAN_ERR_FLAG = 0" if "k < 2" for k
    using reply_of_joint [of ?cfgs k "demo_reply k"] demo_reply_own that
    by (auto simp: less_two_iff demo_pair_facts)
  have "slots [True, True] [0, Suc 0] demo_answers = zip [0, Suc 0] (map (\<lambda>k. Some (demo_reply k)) [1, 0])"
    unfolding demo_answers_def
    using slots_replies [of "[0, Suc 0]" "[True, True]" "[1, 0]" demo_reply "\<lambda>_. 16" "\<lambda>_. []" "[]"] own by simp
  with fold_replies [of "[1, 0]" ?cfgs demo_reply "[0, Suc 0]" j "[True, True]"] own assms
  show ?thesis by (auto simp: cycle_view_def demo_pair_facts less_two_iff)
qed

theorem reported_response_is_fresh_witness:
  "\<exists>states' d' i f. send_and_receive [demo_cmd, demo_cmd] [blank_state, blank_state] (demo_pair demo_answers) =
      (Ok states', d') \<and> (i, Some f) \<in> set (cycle_slots (demo_pair demo_answers)) \<and>
    frame_joint [demo_motor 1 V2, demo_motor 2 V3] f = Some 1 \<and>
    measured (states' ! 1) = frame_values (demo_motor 2 V3) f"
proof -
  obtain states' d' where r: "send_and_receive [demo_cmd, demo_cmd] [blank_state, blank_state]
      (demo_pair demo_answers) = (Ok states', d')" by (rule demo_cycle)
  have "communication_status (states' ! 1) = SUCCESS"
    using cycle_view_at [OF demo_pair_facts(1,2) _ _ r, of 1] demo_answers_view [of 1]
    by (simp add: demo_pair_facts)
  with reported_response_is_fresh [OF demo_pair_facts(1,2) _ _ r, of 1] r show ?thesis
    by (auto simp: demo_pair_facts)
qed

text \<open>
  C21. A joint of which no slot reads a reply keeps its measured values, and its status says why
  there is no response: the write failed, the read of its own slot failed, or nothing came.
\<close>

theorem silent_joint_keeps_values:
  assumes "driver_ok d" and "list_all config_ok (joint_configs d)"
    and "length cmds = length (joint_configs d)" and "length states = length (joint_configs d)"
    and "send_and_receive cmds states d = (Ok states', d')" and "j < length (joint_configs d)"
    and "\<forall>i f. (i, Some f) \<in> set (cycle_slots d) \<longrightarrow> frame_joint (joint_configs d) f \<noteq> Some j"
  shows "measured (states' ! j) = measured (states ! j) \<and>
    communication_status (states' ! j) =
      (if \<not> written d ! j then CAN_WRITE_FAILED
       else if (j, None) \<in> set (cycle_slots d) then CAN_READ_FAILED else CAN_NO_RESPONSE)"
proof -
  have "(j, None) \<in> set (cycle_slots d) \<Longrightarrow> written d ! j"
    unfolding cycle_slots_def by (auto dest: slots_written)
  then show ?thesis
    using cycle_view_at [OF assms(1-6)] fold_silent [OF assms(7)]
    unfolding cycle_view_def cycle_slots_def by (auto split: if_splits)
qed

theorem silent_joint_keeps_values_witness:
  "\<exists>states' d'. send_and_receive [demo_cmd, demo_cmd] [blank_state, blank_state] (demo_pair []) =
      (Ok states', d') \<and> measured (states' ! 0) = measured blank_state \<and>
    communication_status (states' ! 0) = CAN_READ_FAILED"
proof -
  obtain states' d' where r: "send_and_receive [demo_cmd, demo_cmd] [blank_state, blank_state]
      (demo_pair []) = (Ok states', d')" by (rule demo_cycle)
  have "skim max_reads [] = (None, [])" by (simp add: max_reads_def numeral_eq_Suc)
  then have "cycle_slots (demo_pair []) = [(0, None), (1, None)]"
    by (simp add: cycle_slots_def demo_pair_facts)
  with silent_joint_keeps_values [OF demo_pair_facts(1,2) _ _ r, of 0] r show ?thesis
    by (auto simp: demo_pair_facts)
qed

text \<open>
  C15. When every command is written and every joint answers once, the order of the answers does
  not matter: each joint ends with \<open>SUCCESS\<close> and the values of its own reply. The ids of the
  joints have to differ and to fit in a byte.
\<close>

theorem replies_in_any_order:
  assumes "driver_ok d" and "list_all config_ok (joint_configs d)"
    and "length cmds = length (joint_configs d)" and "length states = length (joint_configs d)"
    and "link_up d" and ids: "distinct (map can_id (joint_configs d))" "\<forall>c\<in>set (joint_configs d). can_id c < 256"
    and order: "distinct js" "set js = {0..<length (joint_configs d)}"
    and own: "\<forall>j<length (joint_configs d). reply_of (joint_configs d ! j) (reply j)"
    and q: "rx_queue (socket d) = map (\<lambda>j. Rx_Msg (nbytes j) (reply j) (cmsgs j)) js"
    and r: "send_and_receive cmds states d = (Ok states', d')" and j: "j < length (joint_configs d)"
  shows "communication_status (states' ! j) = SUCCESS \<and>
    measured (states' ! j) = frame_values (joint_configs d ! j) (reply j)"
proof -
  let ?cfgs = "joint_configs d"
  have w: "\<forall>i<length ?cfgs. written d ! i" using assms(5) by (simp add: written_def written_at_def)
  have own': "frame_joint ?cfgs (reply k) = Some k" "frame_id (reply k) AND CAN_ERR_FLAG = 0" if "k < length ?cfgs" for k
    using reply_of_joint [OF ids(1) that] ids(2) own that by auto
  have len: "length js = length [0..<length ?cfgs]"
    using distinct_card [OF order(1)] order(2) by simp
  have "slots (written d) [0..<length ?cfgs] (rx_queue (socket d)) =
      zip [0..<length ?cfgs] (map (\<lambda>k. Some (reply k)) js)"
    using slots_replies [of "[0..<length ?cfgs]" "written d" js reply nbytes cmsgs "[]"] w len own'(2) order(2)
    by (simp add: q)
  moreover have "\<forall>k\<in>set js. frame_joint ?cfgs (reply k) = Some k" using own'(1) order(2) by simp
  ultimately have "cycle_view d states j = (frame_values (?cfgs ! j) (reply j), SUCCESS)"
    using fold_replies [OF _ order(1) len, of ?cfgs reply j] j order(2) w by (simp add: cycle_view_def)
  then show ?thesis using cycle_view_at [OF assms(1-4) r j] by simp
qed

theorem replies_in_any_order_witness:
  "\<exists>states' d'. send_and_receive [demo_cmd, demo_cmd] [blank_state, blank_state] (demo_pair demo_answers) =
      (Ok states', d') \<and> communication_status (states' ! 0) = SUCCESS \<and>
    measured (states' ! 0) = frame_values (demo_motor 1 V2) (demo_reply 0)"
proof -
  obtain states' d' where r: "send_and_receive [demo_cmd, demo_cmd] [blank_state, blank_state]
      (demo_pair demo_answers) = (Ok states', d')" by (rule demo_cycle)
  have s: "{0..<2 :: nat} = {1, 0}" "{0..<Suc (Suc 0)} = {1, 0}" by auto
  show ?thesis
    using replies_in_any_order [OF demo_pair_facts(1,2) _ _ demo_pair_facts(3) _ _ _ _ _ _ r, of "[1, 0]" demo_reply
        "\<lambda>_. 16" "\<lambda>_. []" 0] demo_reply_own r
    by (auto simp: demo_pair_facts demo_answers_def s less_two_iff)
qed

lemma recv_msg:
  assumes "rx_queue (socket d) = Rx_Msg nb f cs # q"
  shows "recv_frame_with_timestamp d =
    (True, fst (scan_cmsgs cs (0, 0)), snd (scan_cmsgs cs (0, 0)),
     d\<lparr>socket := (socket d)\<lparr>rx_queue := q\<rparr>, recv_frame := f\<rparr>)"
  using assms by (simp add: recv_frame_with_timestamp_def sys_recv_simps Let_def case_prod_beta)

text \<open>A message with an error frame, whatever time stamps come with it.\<close>

definition error_message :: "rx_outcome \<Rightarrow> bool" where
  "error_message m \<longleftrightarrow> (case m of Rx_Fail _ \<Rightarrow> False | Rx_Msg n f cs \<Rightarrow> frame_id f AND CAN_ERR_FLAG \<noteq> 0)"

lemma next_frame_error:
  assumes "rx_queue (socket d) = m # q" and "error_message m"
  shows "\<exists>e. next_frame (Suc n) d = next_frame n e \<and> rx_queue (socket e) = q \<and>
    last_error_count e = last_error_count d + 1"
proof -
  obtain nb f cs where "m = Rx_Msg nb f cs" "frame_id f AND CAN_ERR_FLAG \<noteq> 0"
    using assms(2) by (auto simp: error_message_def split: rx_outcome.splits)
  then show ?thesis using recv_msg [of "d\<lparr>recv_frame := zero_frame\<rparr>" nb f cs q] assms(1) by (auto simp: Let_def)
qed

lemma next_frame_errors:
  assumes "\<forall>m\<in>set es. error_message m"
    and "rx_queue (socket d) = es @ Rx_Msg nb f cs # q" and "frame_id f AND CAN_ERR_FLAG = 0"
  shows "if length es < n
    then fst (next_frame n d) = Some (scan_cmsgs cs (0, 0)) \<and> recv_frame (snd (next_frame n d)) = f \<and>
         rx_queue (socket (snd (next_frame n d))) = q \<and>
         last_error_count (snd (next_frame n d)) = last_error_count d + of_nat (length es)
    else fst (next_frame n d) = None \<and>
         rx_queue (socket (snd (next_frame n d))) = drop n (rx_queue (socket d)) \<and>
         last_error_count (snd (next_frame n d)) = last_error_count d + of_nat n"
  using assms
proof (induction es arbitrary: d n)
  case Nil
  show ?case
  proof (cases n)
    case (Suc m)
    then show ?thesis
      using Nil recv_msg [of "d\<lparr>recv_frame := zero_frame\<rparr>" nb f cs q] by (simp add: Let_def)
  qed simp
next
  case (Cons g es)
  show ?case
  proof (cases n)
    case (Suc m)
    obtain e where e: "next_frame (Suc m) d = next_frame m e" "rx_queue (socket e) = es @ Rx_Msg nb f cs # q"
      "last_error_count e = last_error_count d + 1"
      using next_frame_error [of d g "es @ Rx_Msg nb f cs # q" m] Cons.prems by (auto simp del: next_frame.simps)
    show ?thesis using Cons.IH [OF _ e(2) assms(3), of m] Cons.prems e Suc
      by (auto simp: algebra_simps simp del: next_frame.simps)
  qed simp
qed

text \<open>
  C20. Error frames do not hide a reply: fewer than sixteen of them in front of the reply, with
  whatever time stamps, are skipped and counted, and the reply is delivered with the time stamps of
  its own control messages. Sixteen in a row end the slot without a reply, and exactly those
  sixteen have been taken from the queue.
\<close>

theorem error_frames_are_skipped:
  assumes "\<forall>m\<in>set es. error_message m"
    and "rx_queue (socket d) = es @ Rx_Msg nb f cs # q" and "frame_id f AND CAN_ERR_FLAG = 0"
  shows "if length es < 16
    then fst (next_frame max_reads d) = Some (scan_cmsgs cs (0, 0)) \<and>
         recv_frame (snd (next_frame max_reads d)) = f \<and>
         rx_queue (socket (snd (next_frame max_reads d))) = q \<and>
         last_error_count (snd (next_frame max_reads d)) = last_error_count d + of_nat (length es)
    else fst (next_frame max_reads d) = None \<and>
         rx_queue (socket (snd (next_frame max_reads d))) = drop 16 (rx_queue (socket d)) \<and>
         last_error_count (snd (next_frame max_reads d)) = last_error_count d + 16"
  using next_frame_errors [OF assms, of 16] by (simp add: max_reads_def)

theorem error_frames_are_skipped_witness:
  defines "err \<equiv> Rx_Msg 16 \<lparr>frame_id = 0x20000004, frame_len = 8, frame_data = zero_data\<rparr> [TimestampNs (3, 4)]"
  defines "d \<equiv> demo_pair (replicate 15 err @ [Rx_Msg 16 (demo_reply 0) [TimestampNs (5, 6)]])"
  shows "fst (next_frame max_reads d) = Some (5000000006, 0) \<and>
    recv_frame (snd (next_frame max_reads d)) = demo_reply 0 \<and>
    last_error_count (snd (next_frame max_reads d)) = last_error_count d + 15"
  using error_frames_are_skipped [of "replicate 15 err" d 16 "demo_reply 0" "[TimestampNs (5, 6)]" "[]"]
  by (simp add: d_def demo_pair_facts err_def can_const_defs demo_reply_def error_message_def ns_of_def)

text \<open>
  C28. Transmit time stamps: with time stamping enabled, the send time stamp of a joint after a
  cycle is the software stamp of the last entry of the error queue that echoes one of its
  frames and has such a stamp, and zero without one; with time stamping disabled it is zero.
\<close>

theorem transmit_stamps:
  assumes "driver_ok d" and "list_all config_ok (joint_configs d)"
    and "length cmds = length (joint_configs d)" and "length states = length (joint_configs d)"
    and "send_and_receive cmds states d = (Ok states', d')" and "j < length (joint_configs d)"
  defines "own \<equiv> filter (\<lambda>(f, cs). scan_tx cs 0 \<noteq> 0 \<and>
      find_index (\<lambda>conf. can_id conf = echoed_id f) (joint_configs d) = Some j) (err_queue (socket d))"
  shows "send_timestamp_ns (states' ! j) =
    (if enable_tx_timestamping d \<and> own \<noteq> [] then scan_tx (snd (last own)) 0 else 0)"
proof -
  have f: "fold (entry_stamp cfgs j) q t =
      (let own = filter (\<lambda>(f, cs). scan_tx cs 0 \<noteq> 0 \<and> find_index (\<lambda>conf. can_id conf = echoed_id f) cfgs = Some j) q
       in if own = [] then t else scan_tx (snd (last own)) 0)" for cfgs q t
    by (induction q rule: rev_induct) (auto simp: entry_stamp_def Let_def)
  have "length (joint_configs d) \<le> length states" using assms(4) by simp
  from cycle_refines [OF assms(1-3) this] have "send_timestamp_ns (states' ! j) =
      (if enable_tx_timestamping d then fold (entry_stamp (joint_configs d) j) (err_queue (socket d)) 0 else 0)"
    using assms(5,6) by (metis outcome.inject(1) prod.inject)
  then show ?thesis by (simp add: f own_def Let_def)
qed

theorem transmit_stamps_witness:
  "\<exists>states' d'. send_and_receive [demo_cmd, demo_cmd] [blank_state, blank_state] (demo_pair []) =
      (Ok states', d') \<and> send_timestamp_ns (states' ! 0) = 0"
proof -
  obtain states' d' where r: "send_and_receive [demo_cmd, demo_cmd] [blank_state, blank_state]
      (demo_pair []) = (Ok states', d')" by (rule demo_cycle)
  have "err_queue (socket (demo_pair [])) = []" by (simp add: demo_pair_def demo_driver_simps)
  with transmit_stamps [OF demo_pair_facts(1,2) _ _ r, of 0] r show ?thesis
    by (auto simp: demo_pair_facts)
qed

text \<open>
  A failed read is charged to the slot, not to the joint that is silent: of two joints, only
  the second answers. Its reply is read in the first slot, the second slot times out, and the
  cycle reports a failed read for the joint that answered, whose fresh values it has stored, and
  no response for the silent one.
\<close>

theorem failed_read_is_charged_to_the_slot:
  assumes "driver_ok d" and "list_all config_ok (joint_configs d)" and c: "joint_configs d = [a, b]"
    and "length cmds = 2" and "length states = 2" and "link_up d"
    and ids: "can_id a \<noteq> can_id b" "can_id b < 256" and f: "reply_of b f"
    and q: "rx_queue (socket d) = [Rx_Msg nb f cs]"
    and r: "send_and_receive cmds states d = (Ok states', d')"
  shows "communication_status (states' ! 0) = CAN_NO_RESPONSE \<and>
    communication_status (states' ! 1) = CAN_READ_FAILED \<and> measured (states' ! 1) = frame_values b f"
proof -
  have w: "written d = [True, True]"
    using assms(6) c by (intro nth_equalityI) (auto simp: written_def written_at_def less_two_iff)
  have j: "frame_joint [a, b] f = Some 1" "frame_id f AND CAN_ERR_FLAG = 0"
    using reply_of_joint [of "[a, b]" 1 f] ids f by simp_all
  have "skim max_reads [] = (None, [])" by (simp add: max_reads_def numeral_eq_Suc)
  then have "slots (written d) [0, Suc 0] (rx_queue (socket d)) = [(0, Some f), (Suc 0, None)]"
    by (simp add: w q skim_frame [OF j(2)])
  then have "cycle_view d states 0 = (measured (states ! 0), CAN_NO_RESPONSE)"
    "cycle_view d states 1 = (frame_values b f, CAN_READ_FAILED)"
    using j(1) by (simp_all add: cycle_view_def c w)
  then show ?thesis
    using cycle_view_at [OF assms(1,2) _ _ r, of 0] cycle_view_at [OF assms(1,2) _ _ r, of 1] assms(4,5)
    by (simp add: c)
qed

theorem failed_read_is_charged_to_the_slot_witness:
  "\<exists>states' d'. send_and_receive [demo_cmd, demo_cmd] [blank_state, blank_state]
      (demo_pair [Rx_Msg 16 (demo_reply 1) []]) = (Ok states', d') \<and>
    communication_status (states' ! 0) = CAN_NO_RESPONSE \<and>
    communication_status (states' ! 1) = CAN_READ_FAILED"
proof -
  obtain states' d' where r: "send_and_receive [demo_cmd, demo_cmd] [blank_state, blank_state]
      (demo_pair [Rx_Msg 16 (demo_reply 1) []]) = (Ok states', d')" by (rule demo_cycle)
  from failed_read_is_charged_to_the_slot [OF demo_pair_facts(1,2,4) _ _ demo_pair_facts(3) _ _ _ _ this]
  show ?thesis using r demo_reply_own by (auto simp: demo_pair_facts less_two_iff)
qed

end
