(* ===== verification/Filters.thy ===== *)
theory Filters
  imports Ieee "HOL-Library.Multiset" "HOL-Library.Product_Lexorder"
begin

text \<open>
  The three filter templates of \<open>filters.hpp\<close>. The template argument is a type with the
  operations it is used with. The node instantiates it with \<open>double\<close>, and the laws are about
  that instance; what concerns the shape of the buffers only is stated for every instance.
\<close>

section \<open>The template argument\<close>

record 'a num =
  num_add :: "'a \<Rightarrow> 'a \<Rightarrow> 'a"
  num_sub :: "'a \<Rightarrow> 'a \<Rightarrow> 'a"
  num_mul :: "'a \<Rightarrow> 'a \<Rightarrow> 'a"
  num_div :: "'a \<Rightarrow> 'a \<Rightarrow> 'a"
  num_zero :: 'a
  num_lt :: "'a \<Rightarrow> 'a \<Rightarrow> bool"
  num_le :: "'a \<Rightarrow> 'a \<Rightarrow> bool"
  num_of :: "nat \<Rightarrow> 'a"

definition double_num :: "fp num" where
  "double_num =
     \<lparr>num_add = fp_add b64, num_sub = fp_sub b64, num_mul = fp_mul b64, num_div = fp_div b64,
      num_zero = Fin 0, num_lt = fp_lt, num_le = fp_le, num_of = (\<lambda>n. fp_of_int b64 (int n))\<rparr>"

section \<open>AlphaBetaFilter\<close>

record 'a alpha_beta =
  ab_alpha :: 'a
  ab_beta :: 'a
  ab_x :: 'a
  ab_v :: 'a
  ab_initialized :: bool

definition AlphaBetaFilter :: "'a num \<Rightarrow> 'a \<Rightarrow> 'a \<Rightarrow> 'a alpha_beta" where
  "AlphaBetaFilter N alpha beta =
     \<lparr>ab_alpha = alpha, ab_beta = beta, ab_x = num_zero N, ab_v = num_zero N, ab_initialized = False\<rparr>"

definition ab_update :: "'a num \<Rightarrow> 'a \<Rightarrow> 'a \<Rightarrow> 'a alpha_beta \<Rightarrow> 'a alpha_beta" where
  "ab_update N measurement dt f =
     (if \<not> ab_initialized f \<or> num_le N dt (num_zero N)
      then f\<lparr>ab_x := measurement, ab_v := num_zero N, ab_initialized := True\<rparr>
      else let x_pred = num_add N (ab_x f) (num_mul N (ab_v f) dt);
               residual = num_sub N measurement x_pred
           in f\<lparr>ab_x := num_add N x_pred (num_mul N (ab_alpha f) residual),
                ab_v := num_add N (ab_v f) (num_mul N (num_div N (ab_beta f) dt) residual)\<rparr>)"

definition ab_set_alpha :: "'a \<Rightarrow> 'a alpha_beta \<Rightarrow> 'a alpha_beta" where
  "ab_set_alpha alpha f = f\<lparr>ab_alpha := alpha\<rparr>"

definition ab_set_beta :: "'a \<Rightarrow> 'a alpha_beta \<Rightarrow> 'a alpha_beta" where
  "ab_set_beta beta f = f\<lparr>ab_beta := beta\<rparr>"

section \<open>MedianFilter\<close>

text \<open>
  \<open>scratch_\<close> is overwritten before it is read, so it is no state. The sizes are \<open>unsigned int\<close>,
  and no operation on them can wrap: the index stays below the size.
\<close>

record 'a median_filter =
  med_buffer :: "'a list"
  med_idx :: nat
  med_filled :: nat
  med_size :: nat

definition MedianFilter :: "'a num \<Rightarrow> nat \<Rightarrow> 'a median_filter" where
  "MedianFilter N sz =
     \<lparr>med_buffer = replicate sz (num_zero N), med_idx = 0, med_filled = 0, med_size = sz\<rparr>"

fun ins :: "('a \<Rightarrow> 'a \<Rightarrow> bool) \<Rightarrow> 'a \<Rightarrow> 'a list \<Rightarrow> 'a list" where
  "ins lt x [] = [x]"
| "ins lt x (y # ys) = (if lt x y then x # y # ys else y # ins lt x ys)"

definition isort :: "('a \<Rightarrow> 'a \<Rightarrow> bool) \<Rightarrow> 'a list \<Rightarrow> 'a list" where
  "isort lt xs = foldr (ins lt) xs []"

text \<open>
  \<open>std::nth_element\<close> puts the element of the sorted order at its position. Its behaviour is
  undefined when \<open><\<close> is no strict weak order, as with NaN among the values.
\<close>

definition comparable :: "'a num \<Rightarrow> 'a \<Rightarrow> bool" where
  "comparable N x \<longleftrightarrow> num_le N x x"

definition nth_element :: "'a num \<Rightarrow> 'a list \<Rightarrow> nat \<Rightarrow> 'a option" where
  "nth_element N xs k = (if list_all (comparable N) xs then Some (isort (num_lt N) xs ! k) else None)"

definition med_update :: "'a num \<Rightarrow> 'a \<Rightarrow> 'a median_filter \<Rightarrow> 'a option \<times> 'a median_filter" where
  "med_update N value f =
     (if med_size f \<le> 1 then (Some value, f)
      else let f = f\<lparr>med_buffer := (med_buffer f)[med_idx f := value],
                     med_idx := (med_idx f + 1) mod med_size f\<rparr>;
               f = (if med_filled f < med_size f then f\<lparr>med_filled := med_filled f + 1\<rparr> else f)
           in (nth_element N (take (med_filled f) (med_buffer f)) (med_filled f div 2), f))"

definition med_resize :: "'a num \<Rightarrow> nat \<Rightarrow> 'a median_filter \<Rightarrow> 'a median_filter" where
  "med_resize N sz f =
     f\<lparr>med_size := sz, med_buffer := replicate sz (num_zero N), med_idx := 0, med_filled := 0\<rparr>"

section \<open>MovingAverage\<close>

record 'a moving_average =
  ma_buffersize :: nat
  ma_index :: nat
  ma_buffer :: "'a list"
  ma_val :: 'a

definition MovingAverage :: "'a num \<Rightarrow> nat \<Rightarrow> 'a moving_average" where
  "MovingAverage N sz =
     \<lparr>ma_buffersize = sz, ma_index = 0, ma_buffer = [], ma_val = num_zero N\<rparr>"

text \<open>\<open>None\<close>: the index is past the end of the buffer, or the window size is zero.\<close>

definition ma_update :: "'a num \<Rightarrow> 'a \<Rightarrow> 'a moving_average \<Rightarrow> ('a \<times> 'a moving_average) option" where
  "ma_update N value f =
     (if length (ma_buffer f) = ma_buffersize f
      then if length (ma_buffer f) \<le> ma_index f then None
           else let v = num_add N (num_sub N (ma_val f) (ma_buffer f ! ma_index f)) value
           in Some (num_div N v (num_of N (ma_buffersize f)),
                    f\<lparr>ma_buffer := (ma_buffer f)[ma_index f := value],
                      ma_index := (ma_index f + 1) mod ma_buffersize f, ma_val := v\<rparr>)
      else if ma_buffer f \<noteq> []
      then let v = num_add N (ma_val f) value
           in Some (num_div N v (num_of N (length (ma_buffer f) + 1)),
                    f\<lparr>ma_buffer := ma_buffer f @ [value], ma_val := v\<rparr>)
      else Some (value, f\<lparr>ma_buffer := [value], ma_val := value\<rparr>))"

definition ma_get :: "'a num \<Rightarrow> 'a moving_average \<Rightarrow> 'a" where
  "ma_get N f = num_div N (ma_val f) (num_of N (length (ma_buffer f)))"

text \<open>
  In the last branch \<open>index_ - size\<close> is an \<open>unsigned int\<close>, so it wraps modulo \<open>2 ^ 32\<close> before
  the remainder is taken, and \<open>buffersize_\<close> keeps its value.
\<close>

definition ma_resize :: "'a num \<Rightarrow> nat \<Rightarrow> 'a moving_average \<Rightarrow> 'a moving_average" where
  "ma_resize N sz f =
     (if sz = ma_buffersize f then f
      else if sz = length (ma_buffer f) then f\<lparr>ma_buffersize := sz\<rparr>
      else if length (ma_buffer f) < sz
      then f\<lparr>ma_buffer := rotate (ma_index f) (ma_buffer f), ma_index := 0, ma_buffersize := sz\<rparr>
      else let k = ((ma_index f + 2 ^ 32 - sz) mod 2 ^ 32) mod length (ma_buffer f);
               b = take sz (rotate k (ma_buffer f))
           in f\<lparr>ma_buffer := b, ma_index := 0, ma_val := foldl (num_add N) (num_zero N) b\<rparr>)"

section \<open>Ring buffers\<close>

definition lastn :: "nat \<Rightarrow> 'a list \<Rightarrow> 'a list" where
  "lastn n xs = drop (length xs - n) xs"

lemma length_lastn [simp]: "length (lastn n xs) = min n (length xs)"
  by (simp add: lastn_def)

lemma lastn_snoc:
  "0 < n \<Longrightarrow> lastn n (xs @ [x]) = (if length xs < n then lastn n xs @ [x] else tl (lastn n xs) @ [x])"
  by (auto simp: lastn_def Suc_diff_le tl_drop drop_Suc)

lemma rotate_drop_take': "i \<le> length b \<Longrightarrow> rotate i b = drop i b @ take i b"
  by (cases "i = length b") (auto simp: rotate_drop_take)

lemma mset_rotate_le: "i \<le> length b \<Longrightarrow> mset (rotate i b) = mset b"
  by (metis add.commute append_take_drop_id mset_append rotate_drop_take')

text \<open>Overwriting the oldest element of a full ring and stepping on drops it and appends.\<close>

lemma ring_push:
  assumes "i < length b"
  shows "rotate ((i + 1) mod length b) (b[i := v]) = tl (rotate i b) @ [v]"
proof -
  have l: "length (b[i := v]) = length b" by simp
  have "rotate ((i + 1) mod length b) (b[i := v]) = rotate (i + 1) (b[i := v])"
    using rotate_conv_mod [of "i + 1" "b[i := v]"] by simp
  also have "\<dots> = drop (i + 1) (b[i := v]) @ take (i + 1) (b[i := v])"
    using assms by (intro rotate_drop_take') simp
  also have "take (i + 1) (b[i := v]) = take i b @ [v]"
    using assms by (simp add: take_Suc_conv_app_nth)
  also have "drop (i + 1) (b[i := v]) = drop (i + 1) b" by simp
  also have "drop (i + 1) b @ take i b @ [v] = tl (drop i b @ take i b) @ [v]"
    using Cons_nth_drop_Suc [OF assms, symmetric] by simp
  finally show ?thesis using assms by (simp add: rotate_drop_take')
qed

section \<open>Sorting by a comparison\<close>

lemma mset_isort [simp]: "mset (isort lt xs) = mset xs"
proof -
  have "mset (ins lt x ys) = add_mset x (mset ys)" for x ys by (induction ys) auto
  then show ?thesis by (induction xs) (simp_all add: isort_def)
qed

lemma length_isort [simp]: "length (isort lt xs) = length xs"
  using mset_isort [of lt xs] by (metis size_mset)

lemma set_isort [simp]: "set (isort lt xs) = set xs"
  using mset_isort [of lt xs] by (metis set_mset_mset)

text \<open>
  The interface the median needs: on the values that can be compared, \<open><\<close> is the order of a
  key in a linear order.
\<close>

locale comparison =
  fixes N :: "'a num" and key :: "'a \<Rightarrow> 'k :: linorder"
  assumes lt_key: "comparable N x \<Longrightarrow> comparable N y \<Longrightarrow> num_lt N x y \<longleftrightarrow> key x < key y"
begin

lemma sorted_isort:
  assumes "list_all (comparable N) xs"
  shows "sorted (map key (isort (num_lt N) xs))"
proof -
  have ins: "sorted (map key (ins (num_lt N) x ys))"
    if "sorted (map key ys)" "comparable N x" "list_all (comparable N) ys" for x ys
    using that
  proof (induction ys)
    case (Cons y ys)
    have "set (ins (num_lt N) x ys) = insert x (set ys)" by (induction ys) auto
    then show ?case using Cons lt_key [of x y] by (auto intro: order_trans)
  qed simp
  show ?thesis using assms
  proof (induction xs)
    case (Cons x xs)
    then have "list_all (comparable N) (isort (num_lt N) xs)" by (simp add: list_all_iff)
    with Cons ins show ?case by (simp add: isort_def)
  qed (simp add: isort_def)
qed

text \<open>A majority inside an interval holds the median inside it.\<close>

lemma median_in_majority:
  assumes ok: "list_all (comparable N) xs" and most: "length xs < 2 * length (filter (\<lambda>x. a \<le> key x \<and> key x \<le> b) xs)"
  defines "m \<equiv> isort (num_lt N) xs ! (length xs div 2)"
  shows "a \<le> key m" and "key m \<le> b" and "m \<in> set xs"
proof -
  define ys where "ys = isort (num_lt N) xs"
  define P where "P = (\<lambda>x. a \<le> key x \<and> key x \<le> b)"
  define k where "k = length xs div 2"
  have len: "length ys = length xs" by (simp add: ys_def)
  have ne: "xs \<noteq> []" using most by auto
  then have k: "k < length ys" using len by (simp add: k_def)
  have s: "key (ys ! i) \<le> key (ys ! j)" if "i \<le> j" "j < length ys" for i j
    using sorted_nth_mono [OF sorted_isort [OF ok], of i j] that by (simp add: ys_def)
  have "mset (filter P ys) = mset (filter P xs)" by (simp add: ys_def)
  then have "length (filter P ys) = length (filter P xs)" by (rule mset_eq_length)
  then have cnt: "length xs < 2 * length (filter P ys)" using most by (simp add: P_def)
  show "m \<in> set xs" using k nth_mem [of k ys] by (simp add: m_def ys_def k_def)
  show "a \<le> key m"
  proof (rule ccontr)
    assume "\<not> a \<le> key m"
    then have "\<not> P (ys ! i)" if "i \<le> k" for i
      using s [OF that k] by (auto simp: P_def m_def ys_def k_def)
    then have "filter P (take (Suc k) ys) = []" by (auto simp: filter_empty_conv in_set_conv_nth)
    then have "filter P ys = filter P (drop (Suc k) ys)"
      by (metis append_Nil append_take_drop_id filter_append)
    then have "length (filter P ys) \<le> length ys - Suc k" by (metis length_drop length_filter_le)
    then show False using cnt len by (simp add: k_def)
  qed
  show "key m \<le> b"
  proof (rule ccontr)
    assume "\<not> key m \<le> b"
    then have "\<not> P (ys ! i)" if "k \<le> i" "i < length ys" for i
      using s [OF that] by (auto simp: P_def m_def ys_def k_def)
    then have "filter P (drop k ys) = []" by (auto simp: filter_empty_conv in_set_conv_nth)
    then have "filter P ys = filter P (take k ys)"
      by (metis append_Nil2 append_take_drop_id filter_append)
    then have "length (filter P ys) \<le> k" by (metis length_filter_le length_take min.cobounded2 order_trans)
    then show False using cnt by (simp add: k_def)
  qed
qed

end

text \<open>Doubles that are not NaN, ordered by sign of infinity and then by value.\<close>

definition fp_key :: "fp \<Rightarrow> int \<times> rat" where
  "fp_key x = (if is_inf x then (if signb x then -1 else 1, 0) else (0, fval x))"

lemma fp_lt_key: "\<not> is_nan x \<Longrightarrow> \<not> is_nan y \<Longrightarrow> fp_lt x y \<longleftrightarrow> fp_key x < fp_key y"
  by (auto simp: fp_lt_def fp_key_def)

lemma fp_le_key: "\<not> is_nan x \<Longrightarrow> \<not> is_nan y \<Longrightarrow> fp_le x y \<longleftrightarrow> fp_key x \<le> fp_key y"
  by (auto simp: fp_le_def fp_lt_key not_less)

lemma comparable_double: "comparable double_num x \<longleftrightarrow> \<not> is_nan x"
  by (auto simp: comparable_def double_num_def fp_le_def fp_lt_def)

lemma num_lt_double: "num_lt double_num = fp_lt"
  by (simp add: double_num_def)

interpretation double: comparison double_num fp_key
  by unfold_locales (simp add: comparable_double num_lt_double fp_lt_key)

section \<open>The window of a median filter\<close>

definition med_ok :: "'a median_filter \<Rightarrow> bool" where
  "med_ok f \<longleftrightarrow> length (med_buffer f) = med_size f \<and> med_idx f < med_size f \<and>
     med_filled f \<le> med_size f \<and> (med_filled f < med_size f \<longrightarrow> med_idx f = med_filled f)"

text \<open>The values held, oldest first.\<close>

definition med_recent :: "'a median_filter \<Rightarrow> 'a list" where
  "med_recent f =
     (if med_filled f < med_size f then take (med_filled f) (med_buffer f)
      else rotate (med_idx f) (med_buffer f))"

fun med_run :: "'a num \<Rightarrow> 'a list \<Rightarrow> 'a median_filter \<Rightarrow> 'a median_filter" where
  "med_run N [] f = f"
| "med_run N (v # vs) f = med_run N vs (snd (med_update N v f))"

lemma med_recent_mset:
  "med_ok f \<Longrightarrow> mset (take (med_filled f) (med_buffer f)) = mset (med_recent f)"
  by (auto simp: med_ok_def med_recent_def mset_rotate_le)

lemma med_update_window:
  assumes ok: "med_ok f" and s: "1 < med_size f"
  shows "med_ok (snd (med_update N v f))" and "med_size (snd (med_update N v f)) = med_size f"
    and "med_recent (snd (med_update N v f)) =
      (if med_filled f < med_size f then med_recent f @ [v] else tl (med_recent f) @ [v])"
proof -
  have m: "(Suc i) mod n = (if Suc i = n then 0 else Suc i)" if "i < n" for i n :: nat
    using that by auto
  show "med_ok (snd (med_update N v f))" "med_size (snd (med_update N v f)) = med_size f"
    using ok s by (auto simp: med_update_def med_ok_def Let_def m)
  show "med_recent (snd (med_update N v f)) =
      (if med_filled f < med_size f then med_recent f @ [v] else tl (med_recent f) @ [v])"
  proof (cases "med_filled f < med_size f")
    case True
    then have i: "med_idx f = med_filled f" "med_filled f < length (med_buffer f)"
      using ok by (simp_all add: med_ok_def)
    then have t: "take (Suc (med_filled f)) ((med_buffer f)[med_filled f := v]) = take (med_filled f) (med_buffer f) @ [v]"
      by (simp add: take_Suc_conv_app_nth)
    show ?thesis
    proof (cases "Suc (med_filled f) = med_size f")
      case full: True
      then show ?thesis using True i t ok s
        by (auto simp: med_update_def med_recent_def Let_def med_ok_def)
    next
      case False
      then show ?thesis using True i t s by (auto simp: med_update_def med_recent_def Let_def)
    qed
  next
    case False
    then show ?thesis using ok s ring_push [of "med_idx f" "med_buffer f" v]
      by (auto simp: med_update_def med_recent_def Let_def med_ok_def)
  qed
qed

lemma length_med_recent: "med_ok f \<Longrightarrow> length (med_recent f) = med_filled f"
  by (auto simp: med_recent_def med_ok_def)

lemma med_run_snoc: "med_run N (vs @ [v]) f = snd (med_update N v (med_run N vs f))"
  by (induction vs arbitrary: f) auto

lemma med_run_window:
  assumes "1 < sz"
  shows "med_ok (med_run N vs (MedianFilter N sz)) \<and> med_size (med_run N vs (MedianFilter N sz)) = sz \<and>
    med_recent (med_run N vs (MedianFilter N sz)) = lastn sz vs"
proof (induction vs rule: rev_induct)
  case Nil
  then show ?case using assms by (simp add: MedianFilter_def med_ok_def med_recent_def lastn_def)
next
  case (snoc v vs)
  let ?f = "med_run N vs (MedianFilter N sz)"
  have "med_filled ?f = length (lastn sz vs)" using snoc length_med_recent [of ?f] by simp
  then have "med_filled ?f < sz \<longleftrightarrow> length vs < sz" by auto
  then show ?case using snoc med_update_window [of ?f N v] assms by (simp add: med_run_snoc lastn_snoc)
qed

section \<open>The window of a moving average\<close>

fun ma_run :: "'a num \<Rightarrow> 'a list \<Rightarrow> 'a moving_average \<Rightarrow> 'a moving_average option" where
  "ma_run N [] f = Some f"
| "ma_run N (v # vs) f = (case ma_update N v f of None \<Rightarrow> None | Some (_, f') \<Rightarrow> ma_run N vs f')"

lemma ma_run_append:
  "ma_run N (vs @ ws) f = (case ma_run N vs f of None \<Rightarrow> None | Some g \<Rightarrow> ma_run N ws g)"
  by (induction vs arbitrary: f) (auto split: option.splits)

text \<open>The shape of the buffer, and the values held, oldest first.\<close>

definition ma_safe :: "'a moving_average \<Rightarrow> bool" where
  "ma_safe f \<longleftrightarrow> length (ma_buffer f) \<le> ma_buffersize f \<and>
     (if length (ma_buffer f) = ma_buffersize f then ma_index f < ma_buffersize f \<or> ma_buffersize f = 0
      else ma_index f = 0)"

definition ma_recent :: "'a moving_average \<Rightarrow> 'a list" where
  "ma_recent f = rotate (ma_index f) (ma_buffer f)"

lemma length_ma_recent [simp]: "length (ma_recent f) = length (ma_buffer f)"
  by (simp add: ma_recent_def)

lemma ma_update_window:
  assumes ok: "ma_safe f" and n: "0 < ma_buffersize f"
  shows "\<exists>a f'. ma_update N v f = Some (a, f') \<and> ma_safe f' \<and> ma_buffersize f' = ma_buffersize f \<and>
    ma_recent f' = (if length (ma_buffer f) < ma_buffersize f then ma_recent f @ [v] else tl (ma_recent f) @ [v]) \<and>
    (if ma_buffer f = [] then a = v \<and> ma_val f' = v
     else a = num_div N (ma_val f') (num_of N (length (ma_buffer f'))) \<and>
       ma_val f' = (if length (ma_buffer f) < ma_buffersize f then num_add N (ma_val f) v
         else num_add N (num_sub N (ma_val f) (hd (ma_recent f))) v))"
proof (cases "length (ma_buffer f) = ma_buffersize f")
  case True
  then have i: "ma_index f < length (ma_buffer f)" using ok n by (simp add: ma_safe_def)
  then have h: "hd (ma_recent f) = ma_buffer f ! ma_index f"
    by (simp add: ma_recent_def rotate_drop_take' hd_drop_conv_nth)
  show ?thesis
    using i True n ring_push [OF i, of v]
    by (auto simp: ma_update_def Let_def ma_safe_def ma_recent_def h [unfolded ma_recent_def])
next
  case False
  then have "length (ma_buffer f) < ma_buffersize f" "ma_index f = 0" using ok by (auto simp: ma_safe_def)
  then show ?thesis
    by (cases "ma_buffer f = []") (auto simp: ma_update_def Let_def ma_safe_def ma_recent_def)
qed

lemma ma_run_defined:
  "ma_safe f \<Longrightarrow> 0 < ma_buffersize f \<Longrightarrow> \<exists>g. ma_run N vs f = Some g"
proof (induction vs arbitrary: f)
  case (Cons v vs)
  then obtain a g where "ma_update N v f = Some (a, g)" "ma_safe g" "ma_buffersize g = ma_buffersize f"
    using ma_update_window [of f N v] by blast
  with Cons show ?case by simp
qed simp

lemma ma_run_window:
  assumes "0 < n"
  shows "\<exists>f. ma_run N vs (MovingAverage N n) = Some f \<and> ma_safe f \<and>
    ma_buffersize f = n \<and> ma_recent f = lastn n vs"
proof (induction vs rule: rev_induct)
  case Nil
  then show ?case using assms
    by (simp add: MovingAverage_def ma_safe_def ma_recent_def lastn_def)
next
  case (snoc v vs)
  then obtain f where f: "ma_run N vs (MovingAverage N n) = Some f" "ma_safe f"
    "ma_buffersize f = n" "ma_recent f = lastn n vs" by blast
  have "length (ma_buffer f) = min n (length vs)" using arg_cong [OF f(4), of length] by simp
  with ma_update_window [OF f(2), of N v] show ?case
    using assms f by (auto simp: ma_run_append lastn_snoc)
qed

section \<open>The drift of the running sum\<close>

text \<open>
  Every update of a full window rounds twice, so the running sum drifts from the sum of the values
  in the window. \<open>M\<close> bounds the values, and \<open>drift M n\<close> is what one update adds at most.
\<close>

definition drift :: "rat \<Rightarrow> nat \<Rightarrow> rat" where
  "drift M n = (of_nat n + 5) * M / 2 ^ 52"

definition bounded :: "rat \<Rightarrow> fp \<Rightarrow> bool" where
  "bounded M x \<longleftrightarrow> is_fin x \<and> \<bar>fval x\<bar> \<le> M"

lemma double_error:
  assumes "\<bar>x\<bar> \<le> c * M" and "2 powi - 1022 \<le> M"
  shows "\<bar>rnd b64 x - x\<bar> \<le> (c + 1) * M / 2 ^ 53"
proof -
  have "(2 :: rat) powi (- 1075) = 2 powi (- 1022) / 2 ^ 53"
    using power_int_diff [of "2 :: rat" "- 1022" 53] by simp
  then have "(2 :: rat) powi (- 1075) \<le> M / 2 ^ 53" using assms(2) by (simp add: divide_right_mono)
  moreover have "\<bar>x\<bar> / 2 ^ 53 \<le> c * M / 2 ^ 53" using assms(1) by (intro divide_right_mono) simp_all
  moreover have "\<bar>rnd b64 x - x\<bar> \<le> \<bar>x\<bar> / 2 ^ 53 + 2 powi (- 1075)" using f64.rnd_error [of x] by simp
  ultimately show ?thesis by (simp add: ring_distribs add_divide_distrib)
qed

lemma sum_list_bounded:
  "\<forall>x\<in>set xs. bounded M x \<Longrightarrow> \<bar>sum_list (map fval xs)\<bar> \<le> of_nat (length xs) * M"
proof (induction xs)
  case (Cons x xs)
  then have "\<bar>fval x\<bar> \<le> M" "\<bar>sum_list (map fval xs)\<bar> \<le> of_nat (length xs) * M" by (auto simp: bounded_def)
  then show ?case by (simp add: ring_distribs)
qed simp

text \<open>One addition, and one subtraction followed by an addition.\<close>

lemma add_drift:
  assumes s: "is_fin s" "\<bar>fval s\<bar> \<le> (of_nat n + 3) * M" and v: "bounded M v"
    and M: "2 powi - 1022 \<le> M" "(of_nat n + 5) * M \<le> 2 powi 1023"
  shows "is_fin (fp_add b64 s v)" and "\<bar>fval (fp_add b64 s v) - (fval s + fval v)\<bar> \<le> drift M n / 2"
proof -
  have "(0 :: rat) < 2 powi - 1022" by simp
  then have M0: "0 < M" using M(1) by (rule less_le_trans)
  have "\<bar>fval v\<bar> \<le> M" using v by (simp add: bounded_def)
  then have a: "\<bar>fval s + fval v\<bar> \<le> (of_nat n + 4) * M"
    using s(2) unfolding ring_distribs by linarith
  also have "\<dots> \<le> (of_nat n + 5) * M" using M0 by (simp add: mult_right_mono)
  also note M(2)
  finally have r: "\<bar>rnd b64 (fval s + fval v)\<bar> < 2 powi emax b64" by (rule f64.rnd_below) simp_all
  have f: "is_fin v" using v by (simp add: bounded_def)
  show "is_fin (fp_add b64 s v)" by (rule f64.fp_add_fin(1) [OF s(1) f r])
  have "\<bar>rnd b64 (fval s + fval v) - (fval s + fval v)\<bar> \<le> drift M n / 2"
    using double_error [OF a M(1)] by (simp add: drift_def add.commute)
  then show "\<bar>fval (fp_add b64 s v) - (fval s + fval v)\<bar> \<le> drift M n / 2"
    by (simp only: f64.fp_add_fin(2) [OF s(1) f r])
qed

lemma bounded_neg: "bounded M v \<Longrightarrow> bounded M (fp_neg v)"
  by (simp add: bounded_def)

lemma push_drift:
  assumes s: "is_fin s" "\<bar>fval s\<bar> \<le> (of_nat n + 1) * M" and v: "bounded M v" "bounded M x"
    and M: "2 powi - 1022 \<le> M" "(of_nat n + 5) * M \<le> 2 powi 1023" and d: "drift M n \<le> M"
  shows "is_fin (fp_add b64 (fp_sub b64 s x) v)"
    and "\<bar>fval (fp_add b64 (fp_sub b64 s x) v) - (fval s - fval x + fval v)\<bar> \<le> drift M n"
proof -
  have "(0 :: rat) < 2 powi - 1022" by simp
  then have M0: "0 < M" using M(1) by (rule less_le_trans)
  have "\<bar>fval s\<bar> \<le> (of_nat n + 3) * M"
    using s(2) by (rule order_trans) (use M0 in \<open>simp add: mult_right_mono\<close>)
  note a = add_drift [OF s(1) this bounded_neg [OF v(2)] M, folded fp_sub_def]
  have "\<bar>fval (fp_sub b64 s x)\<bar> \<le> \<bar>fval s\<bar> + \<bar>fval x\<bar> + drift M n / 2"
    using a(2) unfolding fval_neg by linarith
  also have "\<dots> \<le> (of_nat n + 3) * M" using s(2) v(2) d M0 unfolding bounded_def ring_distribs by linarith
  finally have b: "\<bar>fval (fp_sub b64 s x)\<bar> \<le> (of_nat n + 3) * M" .
  note c = add_drift [OF a(1) b v(1) M]
  show "is_fin (fp_add b64 (fp_sub b64 s x) v)" by (rule c(1))
  show "\<bar>fval (fp_add b64 (fp_sub b64 s x) v) - (fval s - fval x + fval v)\<bar> \<le> drift M n"
    using a(2) c(2) unfolding fval_neg by linarith
qed

text \<open>The running sum after \<open>k\<close> updates.\<close>

definition near_sum :: "rat \<Rightarrow> nat \<Rightarrow> fp moving_average \<Rightarrow> bool" where
  "near_sum M k f \<longleftrightarrow> is_fin (ma_val f) \<and>
     \<bar>fval (ma_val f) - sum_list (map fval (ma_recent f))\<bar> \<le> of_nat k * drift M (ma_buffersize f)"

lemma ma_update_drift:
  assumes ok: "ma_safe f" "0 < ma_buffersize f" "near_sum M k f"
    and vs: "\<forall>x\<in>set (ma_recent f). bounded M x" "bounded M v"
    and M: "2 powi - 1022 \<le> M" "(of_nat (ma_buffersize f) + 5) * M \<le> 2 powi 1023"
    and k: "of_nat (Suc k) * drift M (ma_buffersize f) \<le> M"
    and u: "ma_update double_num v f = Some (a, f')"
  shows "near_sum M (Suc k) f'"
proof -
  let ?n = "ma_buffersize f" and ?S = "sum_list (map fval (ma_recent f))"
  have "(0 :: rat) < 2 powi - 1022" by simp
  then have M0: "0 < M" using M(1) by (rule less_le_trans)
  then have d0: "0 \<le> drift M ?n" by (simp add: drift_def)
  then have k0: "0 \<le> of_nat k * drift M ?n" by simp
  have d: "of_nat k * drift M ?n + drift M ?n \<le> M" using k by (simp add: ring_distribs)
  have l: "length (ma_buffer f) \<le> ?n" using ok(1) by (simp add: ma_safe_def)
  have "\<bar>?S\<bar> \<le> of_nat (length (ma_buffer f)) * M" using sum_list_bounded [OF vs(1)] by simp
  also have "\<dots> \<le> of_nat ?n * M" using l M0 by (simp add: mult_right_mono)
  finally have S: "\<bar>?S\<bar> \<le> of_nat ?n * M" .
  have s: "is_fin (ma_val f)" "\<bar>fval (ma_val f) - ?S\<bar> \<le> of_nat k * drift M ?n"
    using ok(3) by (simp_all add: near_sum_def)
  have s1: "\<bar>fval (ma_val f)\<bar> \<le> (of_nat ?n + 1) * M"
    using S s(2) d d0 by (simp add: ring_distribs)
  from ma_update_window [OF ok(1,2), of double_num v] u have w: "ma_buffersize f' = ?n"
    "ma_recent f' = (if length (ma_buffer f) < ?n then ma_recent f @ [v] else tl (ma_recent f) @ [v])"
    "if ma_buffer f = [] then ma_val f' = v
     else ma_val f' = (if length (ma_buffer f) < ?n then fp_add b64 (ma_val f) v
         else fp_add b64 (fp_sub b64 (ma_val f) (hd (ma_recent f))) v)"
    by (auto simp: double_num_def split: if_splits)
  show ?thesis
  proof (cases "ma_buffer f = []")
    case True
    then have "ma_recent f = []" by (simp add: ma_recent_def)
    then show ?thesis using True w vs(2) ok(2) d0 by (simp add: near_sum_def bounded_def)
  next
    case False
    show ?thesis
    proof (cases "length (ma_buffer f) < ?n")
      case True
      have "\<bar>fval (ma_val f)\<bar> \<le> (of_nat ?n + 3) * M"
        using s1 by (rule order_trans) (use M0 in \<open>simp add: mult_right_mono\<close>)
      note a = add_drift [OF s(1) this vs(2) M]
      have "\<bar>fval (fp_add b64 (ma_val f) v) - (?S + fval v)\<bar> \<le> drift M ?n + of_nat k * drift M ?n"
        using a(2) s(2) d0 by linarith
      then show ?thesis using False True w a(1) by (simp add: near_sum_def ring_distribs)
    next
      case full: False
      have ne: "ma_recent f \<noteq> []" using False by (simp add: ma_recent_def)
      then have x: "bounded M (hd (ma_recent f))" using vs(1) by simp
      have t: "sum_list (map fval (tl (ma_recent f))) = ?S - fval (hd (ma_recent f))"
        using ne by (cases "ma_recent f") simp_all
      have "drift M ?n \<le> M" using d k0 by linarith
      note p = push_drift [OF s(1) s1 vs(2) x M this]
      have "\<bar>fval (fp_add b64 (fp_sub b64 (ma_val f) (hd (ma_recent f))) v) - (?S - fval (hd (ma_recent f)) + fval v)\<bar>
          \<le> drift M ?n + of_nat k * drift M ?n"
        using p(2) s(2) by linarith
      then show ?thesis using False full w p(1) by (simp add: near_sum_def ring_distribs t)
    qed
  qed
qed

lemma drift_total: "k * (n + 5) \<le> 2 ^ 52 \<Longrightarrow> 0 < M \<Longrightarrow> of_nat k * drift M n \<le> M"
proof -
  assume k: "k * (n + 5) \<le> 2 ^ 52" and M: "0 < M"
  have "of_nat (k * (n + 5)) \<le> (of_nat (2 ^ 52) :: rat)" using k by (rule of_nat_mono)
  then have "of_nat k * (of_nat n + 5) \<le> (2 ^ 52 :: rat)" by simp
  then have "of_nat k * (of_nat n + 5) * M \<le> 2 ^ 52 * M" using M by (intro mult_right_mono) simp_all
  then show ?thesis by (simp add: drift_def mult.assoc)
qed

lemma ma_run_drift:
  assumes n: "0 < n" and vs: "\<forall>x\<in>set vs. bounded M x"
    and M: "2 powi - 1022 \<le> M" "(of_nat n + 5) * M \<le> 2 powi 1023"
    and k: "length vs * (n + 5) \<le> 2 ^ 52"
  shows "\<exists>f. ma_run double_num vs (MovingAverage double_num n) = Some f \<and> ma_safe f \<and>
    ma_buffersize f = n \<and> ma_recent f = lastn n vs \<and> near_sum M (length vs) f"
  using vs k
proof (induction vs rule: rev_induct)
  case Nil
  then show ?case using n
    by (simp add: MovingAverage_def ma_safe_def ma_recent_def lastn_def near_sum_def double_num_def)
next
  case (snoc v vs)
  have "(0 :: rat) < 2 powi - 1022" by simp
  then have M0: "0 < M" using M(1) by (rule less_le_trans)
  have "length vs * (n + 5) \<le> 2 ^ 52" using snoc.prems(2) by simp
  with snoc obtain f where f: "ma_run double_num vs (MovingAverage double_num n) = Some f" "ma_safe f"
    "ma_buffersize f = n" "ma_recent f = lastn n vs" "near_sum M (length vs) f" by auto
  obtain a g where u: "ma_update double_num v f = Some (a, g)"
    using ma_update_window [OF f(2), of double_num v] f(3) n by auto
  obtain g' where g: "ma_run double_num (vs @ [v]) (MovingAverage double_num n) = Some g'" "ma_safe g'"
    "ma_buffersize g' = n" "ma_recent g' = lastn n (vs @ [v])" using ma_run_window [OF n] by blast
  have e: "g' = g" using g(1) f(1) u by (simp add: ma_run_append)
  have w: "\<forall>x\<in>set (ma_recent f). bounded M x"
    using snoc.prems(1) set_drop_subset [of "length vs - n" vs] unfolding f(4) lastn_def by auto
  have "of_nat (Suc (length vs)) * drift M n \<le> M"
    by (rule drift_total) (use snoc.prems(2) M0 in simp_all)
  with ma_update_drift [OF f(2) _ f(5) w _ M(1) _ _ u] snoc.prems(1) n M(2)
  have "near_sum M (Suc (length vs)) g" by (simp add: f(3))
  with g e show ?case by simp
qed

section \<open>Properties\<close>

text \<open>
  C31. The median filter rejects outliers: its output is one of the last \<open>n\<close> values it was given,
  and whenever more than half of those values lie in an interval, so does the output. It never
  indexes out of its buffer. The window must hold no NaN.
\<close>

theorem median_follows_the_majority:
  fixes vs :: "fp list" and v :: fp
  assumes sz: "1 < n"
  defines "w \<equiv> lastn n (vs @ [v])"
  assumes "\<forall>x\<in>set w. \<not> is_nan x"
  shows "\<exists>m. fst (med_update double_num v (med_run double_num vs (MedianFilter double_num n))) = Some m \<and>
    m \<in> set w \<and>
    (\<forall>a b. \<not> is_nan a \<longrightarrow> \<not> is_nan b \<longrightarrow>
      length w < 2 * length (filter (\<lambda>x. fp_le a x \<and> fp_le x b) w) \<longrightarrow> fp_le a m \<and> fp_le m b)"
proof -
  let ?f = "med_run double_num vs (MedianFilter double_num n)"
  let ?g = "snd (med_update double_num v ?f)"
  have r: "med_ok ?g" "med_recent ?g = w" "med_size ?f = n"
    using med_run_window [OF sz, of double_num "vs @ [v]"] med_run_window [OF sz, of double_num vs]
      med_run_snoc [of double_num vs v] by (simp_all add: w_def)
  define xs where "xs = take (med_filled ?g) (med_buffer ?g)"
  have ms: "mset xs = mset w" using med_recent_mset [OF r(1)] r(2) by (simp add: xs_def)
  then have set: "set xs = set w" and len: "length xs = length w"
    by (metis set_mset_mset, metis size_mset)
  have ok: "list_all (comparable double_num) xs"
    using assms(3) by (simp add: list_all_iff set comparable_double)
  have filled: "med_filled ?g = length xs" using r(1) by (simp add: xs_def med_ok_def)
  have "fst (med_update double_num v ?f) = nth_element double_num xs (length xs div 2)"
    using sz r(3) filled by (simp add: med_update_def xs_def Let_def)
  then have m: "fst (med_update double_num v ?f) = Some (isort fp_lt xs ! (length xs div 2))"
    using ok by (simp add: nth_element_def num_lt_double)
  let ?m = "isort fp_lt xs ! (length xs div 2)"
  have ne: "xs \<noteq> []" using len sz by (auto simp: w_def)
  then have "?m \<in> set xs"
    by (metis div_less_dividend length_greater_0_conv length_isort nth_mem one_less_numeral_iff semiring_norm(76) set_isort)
  then have mw: "?m \<in> set w" by (simp add: set)
  have "fp_le a ?m \<and> fp_le ?m b"
    if "\<not> is_nan a" "\<not> is_nan b" "length w < 2 * length (filter (\<lambda>x. fp_le a x \<and> fp_le x b) w)" for a b
  proof -
    have "filter (\<lambda>x. fp_le a x \<and> fp_le x b) w = filter (\<lambda>x. fp_key a \<le> fp_key x \<and> fp_key x \<le> fp_key b) w"
      using that(1,2) assms(3) by (intro filter_cong) (simp_all add: fp_le_key)
    moreover have "length (filter P w) = length (filter P xs)" for P
      using ms by (metis mset_filter size_mset)
    ultimately have "length xs < 2 * length (filter (\<lambda>x. fp_key a \<le> fp_key x \<and> fp_key x \<le> fp_key b) xs)"
      using that(3) len by simp
    from double.median_in_majority [OF ok this] show ?thesis
      using that(1,2) mw assms(3) by (simp add: num_lt_double fp_le_key)
  qed
  with m mw show ?thesis by blast
qed

theorem median_follows_the_majority_witness:
  "\<exists>m. fst (med_update double_num (Inf False)
      (med_run double_num [Fin 7, Fin 1, Fin 2] (MedianFilter double_num 3))) = Some m \<and> fp_le (Fin 1) m \<and> fp_le m (Fin 2)"
proof -
  have w: "lastn 3 ([Fin 7, Fin 1, Fin 2] @ [Inf False]) = [Fin 1, Fin 2, Inf False]" by (simp add: lastn_def)
  have f: "filter (\<lambda>x. fp_le (Fin 1) x \<and> fp_le x (Fin 2)) [Fin 1, Fin 2, Inf False] = [Fin 1, Fin 2]"
    by (simp add: fp_le_def fp_lt_def)
  have "\<forall>x\<in>set [Fin 1, Fin 2, Inf False]. \<not> is_nan x" "(1 :: nat) < 3" by simp_all
  from median_follows_the_majority [of 3 "[Fin 7, Fin 1, Fin 2]" "Inf False", unfolded w, OF this(2) this(1)]
  obtain m where m: "fst (med_update double_num (Inf False)
      (med_run double_num [Fin 7, Fin 1, Fin 2] (MedianFilter double_num 3))) = Some m"
    and b: "\<forall>a b. \<not> is_nan a \<longrightarrow> \<not> is_nan b \<longrightarrow> length [Fin 1, Fin 2, Inf False] <
      2 * length (filter (\<lambda>x. fp_le a x \<and> fp_le x b) [Fin 1, Fin 2, Inf False]) \<longrightarrow> fp_le a m \<and> fp_le m b"
    by blast
  have "fp_le (Fin 1) m \<and> fp_le m (Fin 2)"
    using b [THEN spec, of "Fin 1", THEN spec, of "Fin 2"] unfolding f by simp
  with m show ?thesis by blast
qed

text \<open>
  C32. The moving average of doubles, as the node uses it, stays near the mean of its window. Fed with
  finite values of magnitude at most \<open>M\<close>, no update indexes out of the buffer or overflows, and the
  \<open>k\<close>-th result differs from the exact mean of the last \<open>n\<close> values (of all of them while there are
  fewer) by at most \<open>(k * (n + 5) / length w + 2) * M / 2 ^ 52\<close>: the running sum is never
  recomputed, so its rounding errors add up with the number of updates. \<open>M\<close> is any bound at least
  the smallest normal number and small enough that a sum of \<open>n + 5\<close> such values stays below
  \<open>2 ^ 1023\<close>, and \<open>k * (n + 5) \<le> 2 ^ 52\<close>.
\<close>

theorem moving_average_near_mean:
  fixes vs :: "fp list" and v :: fp and M :: rat
  assumes n: "0 < n" and vs: "\<forall>x\<in>set (vs @ [v]). is_fin x \<and> \<bar>fval x\<bar> \<le> M"
    and M: "2 powi - 1022 \<le> M" "(of_nat n + 5) * M \<le> 2 powi 1023"
    and k: "(length vs + 1) * (n + 5) \<le> 2 ^ 52"
  defines "w \<equiv> lastn n (vs @ [v])"
  shows "\<exists>f f' a. ma_run double_num vs (MovingAverage double_num n) = Some f \<and>
    ma_update double_num v f = Some (a, f') \<and> is_fin a \<and>
    \<bar>fval a - sum_list (map fval w) / of_nat (length w)\<bar>
      \<le> ((of_nat (length vs) + 1) * (of_nat n + 5) / of_nat (length w) + 2) * M / 2 ^ 52"
proof -
  have "(0 :: rat) < 2 powi - 1022" by simp
  then have M0: "0 < M" using M(1) by (rule less_le_trans)
  have "\<forall>x\<in>set vs. bounded M x" "length vs * (n + 5) \<le> 2 ^ 52" using vs k by (auto simp: bounded_def)
  from ma_run_drift [OF n this(1) M this(2)] obtain f where
    f: "ma_run double_num vs (MovingAverage double_num n) = Some f" "ma_safe f" "ma_buffersize f = n"
      "ma_recent f = lastn n vs" by blast
  from ma_update_window [OF f(2), of double_num v] f(3) n obtain a f' where
    u: "ma_update double_num v f = Some (a, f')" and
    a: "if ma_buffer f = [] then a = v \<and> ma_val f' = v
      else a = num_div double_num (ma_val f') (num_of double_num (length (ma_buffer f')))"
    by (auto split: if_splits)
  have "ma_run double_num (vs @ [v]) (MovingAverage double_num n) = Some f'"
    using f(1) u by (simp add: ma_run_append)
  moreover have v: "\<forall>x\<in>set (vs @ [v]). bounded M x" using vs by (auto simp: bounded_def)
  ultimately have f': "ma_buffersize f' = n" "ma_recent f' = w" "near_sum M (Suc (length vs)) f'"
    using ma_run_drift [OF n v M] k by (auto simp: w_def)
  let ?S = "sum_list (map fval w)" and ?L = "of_nat (length w) :: rat"
  let ?E = "of_nat (Suc (length vs)) * drift M n"
  have L: "length w = length (ma_buffer f')" "1 \<le> length w" "length w \<le> n"
    using arg_cong [OF f'(2), of length] n by (auto simp: w_def)
  then have L1: "1 \<le> ?L" "?L \<noteq> 0" by auto
  have "bounded M x" if "x \<in> set w" for x
    using that v set_drop_subset unfolding w_def lastn_def by fast
  then have S: "\<bar>?S\<bar> \<le> ?L * M" by (intro sum_list_bounded) blast
  have E: "?E \<le> M" by (rule drift_total) (use k M0 in simp_all)
  have s: "is_fin (ma_val f')" "\<bar>fval (ma_val f') - ?S\<bar> \<le> ?E" using f' by (simp_all add: near_sum_def)
  have bound: "((of_nat (length vs) + 1) * (of_nat n + 5) / ?L + 2) * M / 2 ^ 52 = ?E / ?L + 2 * M / 2 ^ 52"
  proof -
    have "(K / L + 2) * M / c = K * M / c / L + 2 * M / c" if "L \<noteq> 0" "c \<noteq> 0" for K L c :: rat
      using that by (simp add: field_simps)
    from this [of ?L "2 ^ 52" "(of_nat (length vs) + 1) * (of_nat n + 5)"] show ?thesis
      using L1(2) unfolding drift_def by (simp only: of_nat_Suc mult.assoc add.commute times_divide_eq_right) simp
  qed
  show ?thesis
  proof (cases "ma_buffer f = []")
    case True
    then have "lastn n vs = []" using f(4) by (simp add: ma_recent_def)
    then have "vs = []" using n length_lastn [of n vs] by (cases vs) (simp_all del: length_lastn)
    then have "w = [v]" using n by (simp add: w_def lastn_def)
    then show ?thesis using f(1) u a True vs M0 by (simp add: bound drift_def)
  next
    case False
    have l: "length w \<le> 2 ^ 52" using k L(3) by (rule_tac order_trans [of _ n]) auto
    then have "\<bar>int (length w)\<bar> \<le> 2 ^ 53" by simp
    then have o: "is_fin (fp_of_int b64 (int (length w)))" "fval (fp_of_int b64 (int (length w))) = ?L"
      using f64.fp_of_int_fin [of "int (length w)"] by simp_all
    let ?q = "fval (ma_val f') / ?L"
    have "\<bar>fval (ma_val f')\<bar> \<le> ?L * M + M" using S s(2) E by linarith
    also have "\<dots> \<le> ?L * (2 * M)" using L1(1) M0 mult_right_mono [of 1 ?L M] by simp
    finally have q: "\<bar>?q\<bar> \<le> 2 * M" using L1(1) M0 by (simp add: abs_divide divide_le_eq mult.commute)
    also have "\<dots> \<le> (of_nat n + 5) * M" using M0 by (simp add: mult_right_mono)
    also note M(2)
    finally have r: "\<bar>rnd b64 ?q\<bar> < 2 powi emax b64" by (rule f64.rnd_below) simp_all
    have e: "a = fp_div b64 (ma_val f') (fp_of_int b64 (int (length w)))"
      using a False L(1) by (simp add: double_num_def)
    have nz: "fval (fp_of_int b64 (int (length w))) \<noteq> 0" using L1(2) o(2) by simp
    note d = f64.fp_div_fin [OF s(1) o(1) nz, unfolded o(2), OF r]
    have fin: "is_fin a" and val: "fval a = rnd b64 ?q" using d by (simp_all only: e)
    have "\<bar>?q - ?S / ?L\<bar> = \<bar>fval (ma_val f') - ?S\<bar> / ?L"
      using L1(1) by (simp add: diff_divide_distrib [symmetric] abs_divide)
    also have "\<dots> \<le> ?E / ?L" using s(2) L1(1) by (intro divide_right_mono) simp_all
    finally have "\<bar>?q - ?S / ?L\<bar> \<le> ?E / ?L" .
    moreover have "\<bar>fval a - ?q\<bar> \<le> 2 * M / 2 ^ 52"
      using double_error [OF q M(1)] M0 by (simp add: val)
    ultimately have "\<bar>fval a - ?S / ?L\<bar> \<le> ?E / ?L + 2 * M / 2 ^ 52" by linarith
    then show ?thesis using f(1) u fin unfolding bound by blast
  qed
qed

theorem moving_average_near_mean_witness:
  "\<exists>f f' a. ma_run double_num [Fin 1, Fin 2] (MovingAverage double_num 2) = Some f \<and>
    ma_update double_num (Fin 4) f = Some (a, f') \<and> is_fin a \<and> \<bar>fval a - 3\<bar> \<le> 50 / 2 ^ 52"
proof -
  have lo: "(2 :: rat) powi - 1022 \<le> 4"
    using power_int_increasing [of "- 1022" 2 "2 :: rat"] by (simp add: power_int_def)
  have hi: "(of_nat 2 + 5) * 4 \<le> (2 :: rat) powi 1023"
    using power_int_increasing [of 5 1023 "2 :: rat"] by simp
  have w: "lastn 2 ([Fin 1, Fin 2] @ [Fin 4]) = [Fin 2, Fin 4]" by (simp add: lastn_def)
  have "\<exists>f f' a. ma_run double_num [Fin 1, Fin 2] (MovingAverage double_num 2) = Some f \<and>
    ma_update double_num (Fin 4) f = Some (a, f') \<and> is_fin a \<and>
    \<bar>fval a - sum_list (map fval [Fin 2, Fin 4]) / of_nat (length [Fin 2, Fin 4])\<bar>
      \<le> ((of_nat (length [Fin 1, Fin 2]) + 1) * (of_nat 2 + 5) / of_nat (length [Fin 2, Fin 4]) + 2) * 4 / 2 ^ 52"
    using moving_average_near_mean [of 2 "[Fin 1, Fin 2]" "Fin 4" 4, unfolded w, OF _ _ lo hi] by simp
  then show ?thesis by simp
qed

text \<open>
  Growing the window keeps the values; shrinking it is not remembered: the window size of
  the filter stays, so after the shrunken buffer has filled up again the average is over the old
  number of values. Here \<open>ws\<close> are the values given after the resize.
\<close>

theorem shrunken_window_grows_back:
  assumes ok: "ma_safe f" "0 < ma_buffersize f" and m: "0 < m" "m < length (ma_buffer f)"
    and ws: "ma_run N ws (ma_resize N m f) = Some g"
  shows "ma_buffersize g = ma_buffersize f \<and>
    length (ma_buffer g) = min (ma_buffersize f) (m + length ws)"
proof -
  let ?r = "ma_resize N m f"
  have r: "ma_safe ?r" "ma_buffersize ?r = ma_buffersize f" "length (ma_buffer ?r) = m"
    using ok m by (auto simp: ma_resize_def ma_safe_def Let_def)
  have "ma_safe g \<and> ma_buffersize g = ma_buffersize h \<and>
      length (ma_buffer g) = min (ma_buffersize h) (length (ma_buffer h) + length ws)"
    if "ma_safe h" "0 < ma_buffersize h" "ma_run N ws h = Some g" for h
    using that
  proof (induction ws arbitrary: h)
    case Nil
    then show ?case by (auto simp: ma_safe_def)
  next
    case (Cons v vs)
    obtain a h' where h: "ma_update N v h = Some (a, h')" "ma_safe h'" "ma_buffersize h' = ma_buffersize h"
      "ma_recent h' = (if length (ma_buffer h) < ma_buffersize h then ma_recent h @ [v] else tl (ma_recent h) @ [v])"
      using ma_update_window [OF Cons.prems(1,2)] by blast
    have "length (ma_buffer h') = (if length (ma_buffer h) < ma_buffersize h then Suc (length (ma_buffer h)) else length (ma_buffer h))"
      using arg_cong [OF h(4), of length] Cons.prems(1,2) by (auto simp: ma_safe_def split: if_splits)
    then have "length (ma_buffer h') = min (ma_buffersize h) (Suc (length (ma_buffer h)))"
      using Cons.prems(1) by (auto simp: ma_safe_def)
    moreover have "ma_run N vs h' = Some g" using Cons.prems(3) h(1) by simp
    ultimately show ?case using Cons.IH [OF h(2)] h(3) Cons.prems(2) by simp
  qed
  from this [OF r(1) _ ws] r(2,3) ok(2) show ?thesis by simp
qed

theorem shrunken_window_grows_back_witness:
  fixes N :: "'a num" and x :: 'a
  defines "f \<equiv> \<lparr>ma_buffersize = 4, ma_index = 0, ma_buffer = [x, x, x, x], ma_val = x\<rparr>"
  shows "\<exists>g. ma_run N [x, x, x] (ma_resize N 2 f) = Some g \<and> length (ma_buffer g) = 4"
proof -
  have "ma_safe (ma_resize N 2 f)" "0 < ma_buffersize (ma_resize N 2 f)"
    by (auto simp: f_def ma_resize_def ma_safe_def Let_def)
  then obtain g where g: "ma_run N [x, x, x] (ma_resize N 2 f) = Some g"
    using ma_run_defined by blast
  with shrunken_window_grows_back [OF _ _ _ _ g] show ?thesis by (simp add: f_def ma_safe_def)
qed

text \<open>
  Shrinking can keep the wrong values: the rotation is computed modulo \<open>2 ^ 32\<close> first, so
  after \<open>a\<close>, \<open>b\<close>, \<open>c\<close> in a window of three, shrinking to two keeps \<open>c\<close> and the oldest value,
  not \<open>b\<close> and \<open>c\<close>.
\<close>

theorem shrinking_may_drop_new_values:
  "map_option (\<lambda>f. ma_recent (ma_resize N 2 f)) (ma_run N [a, b, c] (MovingAverage N 3)) = Some [c, a]"
proof -
  have k: "((0 + 2 ^ 32 - 2) mod 2 ^ 32) mod 3 = (2 :: nat)" by simp
  have r: "take 2 (rotate 2 [a, b, c]) = [c, a]" by (simp add: numeral_2_eq_2 rotate1_def)
  have "ma_recent (ma_resize N 2 \<lparr>ma_buffersize = 3, ma_index = 0, ma_buffer = [a, b, c], ma_val = s\<rparr>) = [c, a]" for s
    unfolding ma_resize_def ma_recent_def Let_def by (simp add: k [simplified] r)
  moreover have "\<exists>s. ma_run N [a, b, c] (MovingAverage N 3) =
      Some \<lparr>ma_buffersize = 3, ma_index = 0, ma_buffer = [a, b, c], ma_val = s\<rparr>"
    by (simp add: ma_update_def MovingAverage_def Let_def)
  ultimately show ?thesis by auto
qed

end
