(* ===== verification/Node.thy ===== *)
theory Node
  imports CanCycle Filters
begin

text \<open>
  The data of the hardware node (\<open>cubemars_hardware_node.hpp\<close>): joint parameters, messages, the
  members of \<open>CubeMarsHardwareNode\<close>, and what the node takes from the ROS client library and the
  mathematical library, which is an argument of its operations.
\<close>

section \<open>Joint parameters\<close>

record FrictionParameters =
  tau_c :: fp
  tau_s :: fp
  v_s :: fp
  exponent_k :: fp
  k_a :: fp
  viscous_b :: fp

datatype VelFilterType = NONE | MOVING_AVERAGE | ALPHA_BETA

record JointParameters =
  pos_limit_min :: fp
  pos_limit_max :: fp
  transmission_ratio :: fp
  friction_parameters :: FrictionParameters
  vel_filter_size :: u32
  vel_filter_type :: VelFilterType
  pos_median_filter_size :: u32
  zero_position :: fp
  set_zero_position_on_startup :: bool
  msg_idx :: u32
  param_joint_name :: string

section \<open>Messages\<close>

text \<open>
  \<open>robot_control_msgs\<close> is not part of the sources: a command has five vectors and a stamp in
  nanoseconds, a state three vectors.
\<close>

record JointCommand =
  jc_position :: "fp list"
  jc_velocity :: "fp list"
  jc_effort :: "fp list"
  jc_kp :: "fp list"
  jc_kd :: "fp list"
  jc_stamp :: int

record JointState =
  js_position :: "fp list"
  js_velocity :: "fp list"
  js_effort :: "fp list"

text \<open>A command of zeros with one damping gain for all joints.\<close>

definition passive_command :: "nat \<Rightarrow> fp \<Rightarrow> JointCommand" where
  "passive_command len kd =
     \<lparr>jc_position = replicate len (Fin 0), jc_velocity = replicate len (Fin 0),
      jc_effort = replicate len (Fin 0), jc_kp = replicate len (Fin 0), jc_kd = replicate len kd,
      jc_stamp = 0\<rparr>"

text \<open>The values published besides the joint states: per joint message index, then per interface.\<close>

record diagnostics =
  joint_temp :: "fp list"
  joint_state_age :: "fp list"
  joint_rx_delivery :: "fp list"
  joint_rx_hw_timestamp :: "fp list"
  joint_reply_after_tx :: "fp list"
  joint_cmd_to_bus_latency :: "fp list"
  joint_motor_reply_latency :: "fp list"
  joint_enqueue_to_wire :: "fp list"
  unfiltered_velocity :: "fp list"
  unfiltered_position :: "fp list"
  can_interface_frequency :: "fp list"
  can_tx_fill_duration :: "fp list"
  can_rx_duration :: "fp list"
  can_processing :: "fp list"
  can_intercycle_gap :: "fp list"

section \<open>The client library\<close>

text \<open>
  The primary states and transitions of a lifecycle node, and the result of a callback. The
  machine itself belongs to \<open>rclcpp_lifecycle\<close>: which transitions a state offers, where a
  successful one leads, and where the node goes after the error callback are arguments.
\<close>

datatype lc_state = UNCONFIGURED | INACTIVE | ACTIVE | FINALIZED

datatype transition = Configure | Activate | Deactivate | Cleanup | Shutdown

datatype lc_return = LC_SUCCESS | LC_FAILURE | LC_ERROR

record lifecycle =
  allowed :: "lc_state \<Rightarrow> transition \<Rightarrow> bool"
  target :: "transition \<Rightarrow> lc_state"
  after_error :: "lc_return \<Rightarrow> lc_state"

text \<open>What the documentation of managed nodes promises.\<close>

definition documented :: "lifecycle \<Rightarrow> bool" where
  "documented L \<longleftrightarrow>
     (\<forall>s t. allowed L s t \<longleftrightarrow>
        (case t of Configure \<Rightarrow> s = UNCONFIGURED | Activate \<Rightarrow> s = INACTIVE | Deactivate \<Rightarrow> s = ACTIVE
                 | Cleanup \<Rightarrow> s = INACTIVE | Shutdown \<Rightarrow> s \<noteq> FINALIZED)) \<and>
     target L Configure = INACTIVE \<and> target L Activate = ACTIVE \<and> target L Deactivate = INACTIVE \<and>
     target L Cleanup = UNCONFIGURED \<and> target L Shutdown = FINALIZED \<and>
     after_error L LC_SUCCESS = UNCONFIGURED \<and> after_error L LC_FAILURE = FINALIZED \<and>
     after_error L LC_ERROR = FINALIZED"

text \<open>
  Besides the machine: the conversion to the element type of a message, and the functions of the
  mathematical library, whose rounding is not specified.
\<close>

record env =
  ev_lifecycle :: lifecycle
  ev_store :: "fp \<Rightarrow> fp"
  ev_tanh :: "fp \<Rightarrow> fp"
  ev_exp :: "fp \<Rightarrow> fp"
  ev_pow :: "fp \<Rightarrow> fp \<Rightarrow> fp"

section \<open>The node\<close>

text \<open>
  The members of the class, vectors of vectors as lists of lists indexed by interface and joint.
  A timer, a subscription and a registered callback are present or not; a communication thread is
  its running flag. The current state belongs to the base class. The last component is no member
  but where the callback of the subscription stands: the command that it has accepted and not stored
  yet, while other threads run.
\<close>

record node =
  current_state :: lc_state
  damping_on_motor_error :: bool
  max_can_errors_before_motor_shutdown :: u32
  node_tx_timestamping :: bool
  node_error_frames :: bool
  default_damping_KD :: fp
  publish_ros2_joint_state :: bool
  msg_received :: bool
  joint_cmd_ptr :: "JointCommand option"
  joint_state_msg :: JointState
  diag :: diagnostics
  num_joints :: nat
  joint_msg_length :: nat
  joint_commands_per_can_interface :: "joint_cmd list list"
  joint_states_per_can_interface :: "joint_state list list"
  joint_parameters_per_can_interface :: "JointParameters list list"
  num_can_errors_per_interfaces :: "u32 list"
  can_interfaces :: "driver option list"
  last_can_cycle_times :: "int list"
  last_cycle_end_ns_per_can_interface :: "int list"
  comm_threads :: "bool list"
  cleanup_requested :: bool
  joint_vel_filters_per_can_interface :: "fp moving_average list list"
  joint_ab_filters_per_can_interface :: "fp alpha_beta list list"
  joint_pos_median_filters_per_can_interface :: "fp median_filter list list"
  last_joint_rx_ns_per_can_interface :: "int list list"
  joint_rx_ns :: "int list"
  joint_rx_delivery_floor_ns :: "int list"
  joint_rx_hw_base_ns :: "int list"
  cmd_rx_ns :: int
  joint_name_to_can_iface_and_idx :: "(string \<times> nat \<times> nat) list"
  publish_timer :: bool
  watchdog_timer :: bool
  supervisor_timer :: bool
  joint_cmd_sub :: bool
  on_set_parameters_handle :: bool
  accepted :: "JointCommand option"

section \<open>Conversions\<close>

text \<open>A cast to \<open>unsigned int\<close> and the insertion of an \<open>int64_t\<close> into a set of \<open>int\<close>.\<close>

definition to_unsigned :: "int \<Rightarrow> u32" where
  "to_unsigned v = word_of_int v"

definition to_int32 :: "int \<Rightarrow> int" where
  "to_int32 v = sint (word_of_int v :: u32)"

text \<open>A difference of nanoseconds in microseconds, as a \<open>float\<close>.\<close>

definition micros :: "int \<Rightarrow> fp" where
  "micros ns = fp_conv b32 (fp_div b64 (fp_of_int b64 ns) (fp_of_int b64 1000))"

fun fp_abs :: "fp \<Rightarrow> fp" where
  "fp_abs NaN = NaN"
| "fp_abs (Inf s) = Inf False"
| "fp_abs NegZero = Fin 0"
| "fp_abs (Fin r) = Fin \<bar>r\<bar>"

text \<open>\<open>push_back\<close> on the vector of one interface, and \<open>resize\<close>.\<close>

definition push_at :: "nat \<Rightarrow> 'a \<Rightarrow> 'a list list \<Rightarrow> 'a list list" where
  "push_at k x xss = xss[k := xss ! k @ [x]]"

definition resize :: "nat \<Rightarrow> 'a \<Rightarrow> 'a list \<Rightarrow> 'a list" where
  "resize n x xs = take n xs @ replicate (n - length xs) x"

lemma length_resize [simp]: "length (resize n x xs) = n"
  by (simp add: resize_def)

lemma length_push_at [simp]: "length (push_at k x xss) = length xss"
  by (simp add: push_at_def)

lemma nth_push_at:
  "i < length xss \<Longrightarrow> push_at k x xss ! i = (if i = k then xss ! i @ [x] else xss ! i)"
  by (auto simp: push_at_def nth_list_update)

end
