(* ===== verification/NodeParams.thy ===== *)
theory NodeParams
  imports Node "HOL-Library.AList"
begin

text \<open>
  Parameters changed at run time (\<open>parse_per_joint_param\<close> and \<open>on_set_parameters_callback\<close> of
  \<open>cubemars_hardware_node.cpp\<close>): a batch is parsed and checked value by value, then checked
  against the values it leaves in place, and only then applied.
\<close>

datatype param_value = PBool bool | PInt int | PDouble fp | PString string | PStringArray "string list"

section \<open>Names\<close>

definition prefix_of_joints :: string where "prefix_of_joints = ''joint_defintions.''"

text \<open>The joint and the field of a parameter name.\<close>

definition parse_per_joint_param :: "string \<Rightarrow> (string \<times> string) option" where
  "parse_per_joint_param name =
     (if take (length prefix_of_joints) name \<noteq> prefix_of_joints then None
      else let rest = drop (length prefix_of_joints) name
      in if CHR ''.'' \<notin> set rest then None
         else let joint_name_out = takeWhile (\<lambda>c. c \<noteq> CHR ''.'') rest;
                  field_out = drop (length joint_name_out + 1) rest
         in if joint_name_out \<noteq> [] \<and> field_out \<noteq> [] then Some (joint_name_out, field_out) else None)"

section \<open>Pending updates\<close>

record PerJointUpdate =
  up_vel_filter_type :: "VelFilterType option"
  up_vel_filter_size :: "int option"
  up_pos_median_filter_size :: "int option"
  up_alpha :: "fp option"
  up_beta :: "fp option"
  up_tau_c :: "fp option"
  up_tau_s :: "fp option"
  up_v_s :: "fp option"
  up_k :: "fp option"
  up_k_a :: "fp option"
  up_b :: "fp option"
  up_pos_limit_min :: "fp option"
  up_pos_limit_max :: "fp option"

definition no_update :: PerJointUpdate where
  "no_update =
     \<lparr>up_vel_filter_type = None, up_vel_filter_size = None, up_pos_median_filter_size = None,
      up_alpha = None, up_beta = None, up_tau_c = None, up_tau_s = None, up_v_s = None, up_k = None,
      up_k_a = None, up_b = None, up_pos_limit_min = None, up_pos_limit_max = None\<rparr>"

text \<open>The map of updates is unordered; here it keeps the order of insertion.\<close>

record pending =
  joint_updates :: "(string \<times> PerJointUpdate) list"
  new_default_damping_KD :: "fp option"
  new_damping_on_motor_error :: "bool option"
  new_max_can_errors :: "int option"

definition no_pending :: pending where
  "no_pending = \<lparr>joint_updates = [], new_default_damping_KD = None, new_damping_on_motor_error = None,
     new_max_can_errors = None\<rparr>"

text \<open>The reason of a rejection, with the parameter or joint it names.\<close>

datatype reject =
  Must_be_double string | Must_be_bool string | Must_be_int string | Must_be_string string
  | Out_of_range string
  | Not_reconfigurable string
  | Unknown_joint string string
  | Unknown_field string string
  | Beta_too_large string fp
  | Limits_crossed string

section \<open>Pass 1: one parameter\<close>

definition filter_type_of :: "string \<Rightarrow> VelFilterType option" where
  "filter_type_of s =
     (if s = ''none'' then Some NONE
      else if s = ''moving_average'' then Some MOVING_AVERAGE
      else if s = ''alpha_beta'' then Some ALPHA_BETA
      else None)"

definition set_field :: "string \<Rightarrow> string \<Rightarrow> param_value \<Rightarrow> PerJointUpdate \<Rightarrow> reject + PerJointUpdate" where
  "set_field name field p u =
     (if field = ''vel_filter_type''
      then (case p of
              PString s \<Rightarrow>
                (case filter_type_of s of None \<Rightarrow> Inl (Out_of_range name)
                 | Some t \<Rightarrow> Inr (u\<lparr>up_vel_filter_type := Some t\<rparr>))
            | _ \<Rightarrow> Inl (Must_be_string name))
      else if field = ''vel_filter_size''
      then (case p of
              PInt v \<Rightarrow> (if v < 0 then Inl (Out_of_range name) else Inr (u\<lparr>up_vel_filter_size := Some v\<rparr>))
            | _ \<Rightarrow> Inl (Must_be_int name))
      else if field = ''pos_median_filter_size''
      then (case p of
              PInt v \<Rightarrow> (if v < 0 then Inl (Out_of_range name) else Inr (u\<lparr>up_pos_median_filter_size := Some v\<rparr>))
            | _ \<Rightarrow> Inl (Must_be_int name))
      else if field \<in> {''alpha'', ''beta'', ''tau_c'', ''tau_s'', ''v_s'', ''k'', ''k_a'', ''b'',
                       ''pos_limit_min'', ''pos_limit_max''}
      then (case p of
              PDouble v \<Rightarrow>
                (if field = ''alpha''
                 then (if fp_lt (Fin 0) v \<and> fp_le v (Fin 1) then Inr (u\<lparr>up_alpha := Some v\<rparr>)
                       else Inl (Out_of_range name))
                 else if field = ''beta''
                 then (if fp_le v (Fin 0) then Inl (Out_of_range name) else Inr (u\<lparr>up_beta := Some v\<rparr>))
                 else if field = ''tau_c'' then Inr (u\<lparr>up_tau_c := Some v\<rparr>)
                 else if field = ''tau_s'' then Inr (u\<lparr>up_tau_s := Some v\<rparr>)
                 else if field = ''v_s'' then Inr (u\<lparr>up_v_s := Some v\<rparr>)
                 else if field = ''k'' then Inr (u\<lparr>up_k := Some v\<rparr>)
                 else if field = ''k_a'' then Inr (u\<lparr>up_k_a := Some v\<rparr>)
                 else if field = ''b'' then Inr (u\<lparr>up_b := Some v\<rparr>)
                 else if field = ''pos_limit_min'' then Inr (u\<lparr>up_pos_limit_min := Some v\<rparr>)
                 else Inr (u\<lparr>up_pos_limit_max := Some v\<rparr>))
            | _ \<Rightarrow> Inl (Must_be_double name))
      else Inl (Unknown_field name field))"

definition parse_param :: "node \<Rightarrow> string \<times> param_value \<Rightarrow> pending \<Rightarrow> reject + pending" where
  "parse_param n param pend =
     (let name = fst param; p = snd param
      in if name = ''default_damping_KD''
         then (case p of PDouble v \<Rightarrow> Inr (pend\<lparr>new_default_damping_KD := Some v\<rparr>)
               | _ \<Rightarrow> Inl (Must_be_double name))
         else if name = ''damping_on_motor_error''
         then (case p of PBool v \<Rightarrow> Inr (pend\<lparr>new_damping_on_motor_error := Some v\<rparr>)
               | _ \<Rightarrow> Inl (Must_be_bool name))
         else if name = ''max_can_errors_before_motor_shutdown''
         then (case p of
                 PInt v \<Rightarrow> (if v < 1 then Inl (Out_of_range name)
                            else Inr (pend\<lparr>new_max_can_errors := Some v\<rparr>))
               | _ \<Rightarrow> Inl (Must_be_int name))
         else case parse_per_joint_param name of
                None \<Rightarrow> Inl (Not_reconfigurable name)
              | Some (joint, field) \<Rightarrow>
                  (case map_of (joint_name_to_can_iface_and_idx n) joint of
                     None \<Rightarrow> Inl (Unknown_joint name joint)
                   | Some _ \<Rightarrow>
                       (let u = (case map_of (joint_updates pend) joint of None \<Rightarrow> no_update | Some u \<Rightarrow> u)
                        in case set_field name field p u of
                             Inl r \<Rightarrow> Inl r
                           | Inr u \<Rightarrow> Inr (pend\<lparr>joint_updates := AList.update joint u (joint_updates pend)\<rparr>))))"

fun parse_params :: "node \<Rightarrow> (string \<times> param_value) list \<Rightarrow> pending \<Rightarrow> reject + pending" where
  "parse_params n [] pend = Inr pend"
| "parse_params n (p # ps) pend =
     (case parse_param n p pend of Inl r \<Rightarrow> Inl r | Inr pend \<Rightarrow> parse_params n ps pend)"

section \<open>Pass 2: the values after the batch\<close>

definition check_update :: "node \<Rightarrow> string \<times> PerJointUpdate \<Rightarrow> reject option" where
  "check_update n up =
     (let joint = fst up; u = snd up;
          (iface, idx) = the (map_of (joint_name_to_can_iface_and_idx n) joint);
          jp = joint_parameters_per_can_interface n ! iface ! idx;
          ab = joint_ab_filters_per_can_interface n ! iface ! idx;
          eff_alpha = (case up_alpha u of None \<Rightarrow> ab_alpha ab | Some a \<Rightarrow> a);
          eff_min = (case up_pos_limit_min u of None \<Rightarrow> pos_limit_min jp | Some v \<Rightarrow> v);
          eff_max = (case up_pos_limit_max u of None \<Rightarrow> pos_limit_max jp | Some v \<Rightarrow> v)
      in if (case up_beta u of None \<Rightarrow> False | Some b \<Rightarrow> \<not> fp_lt b (fp_mul b64 (Fin 2) eff_alpha))
         then Some (Beta_too_large joint eff_alpha)
         else if fp_lt eff_max eff_min then Some (Limits_crossed joint)
         else None)"

fun check_updates :: "node \<Rightarrow> (string \<times> PerJointUpdate) list \<Rightarrow> reject option" where
  "check_updates n [] = None"
| "check_updates n (u # us) = (case check_update n u of None \<Rightarrow> check_updates n us | Some r \<Rightarrow> Some r)"

section \<open>Pass 3: application\<close>

definition or_old :: "'a option \<Rightarrow> 'a \<Rightarrow> 'a" where
  "or_old new old = (case new of None \<Rightarrow> old | Some v \<Rightarrow> v)"

definition update_parameters :: "PerJointUpdate \<Rightarrow> JointParameters \<Rightarrow> JointParameters" where
  "update_parameters u jp =
     (let fr = friction_parameters jp
      in jp\<lparr>vel_filter_type := or_old (up_vel_filter_type u) (vel_filter_type jp),
            vel_filter_size := or_old (map_option to_unsigned (up_vel_filter_size u)) (vel_filter_size jp),
            pos_median_filter_size :=
              or_old (map_option to_unsigned (up_pos_median_filter_size u)) (pos_median_filter_size jp),
            friction_parameters :=
              \<lparr>tau_c = or_old (up_tau_c u) (tau_c fr), tau_s = or_old (up_tau_s u) (tau_s fr),
               v_s = or_old (up_v_s u) (v_s fr), exponent_k = or_old (up_k u) (exponent_k fr),
               k_a = or_old (up_k_a u) (k_a fr), viscous_b = or_old (up_b u) (viscous_b fr)\<rparr>,
            pos_limit_min := or_old (up_pos_limit_min u) (pos_limit_min jp),
            pos_limit_max := or_old (up_pos_limit_max u) (pos_limit_max jp)\<rparr>)"

definition update_ab :: "PerJointUpdate \<Rightarrow> fp alpha_beta \<Rightarrow> fp alpha_beta" where
  "update_ab u ab =
     (let ab = (case up_alpha u of None \<Rightarrow> ab | Some a \<Rightarrow> ab_set_alpha a ab)
      in case up_beta u of None \<Rightarrow> ab | Some b \<Rightarrow> ab_set_beta b ab)"

definition update_ma :: "PerJointUpdate \<Rightarrow> fp moving_average \<Rightarrow> fp moving_average" where
  "update_ma u ma =
     (case up_vel_filter_size u of None \<Rightarrow> ma | Some v \<Rightarrow> ma_resize double_num (unat (to_unsigned v)) ma)"

definition update_med :: "PerJointUpdate \<Rightarrow> fp median_filter \<Rightarrow> fp median_filter" where
  "update_med u med =
     (case up_pos_median_filter_size u of None \<Rightarrow> med | Some v \<Rightarrow> med_resize double_num (unat (to_unsigned v)) med)"

text \<open>An element of a vector of vectors.\<close>

definition modify :: "nat \<times> nat \<Rightarrow> ('a \<Rightarrow> 'a) \<Rightarrow> 'a list list \<Rightarrow> 'a list list" where
  "modify ix f xss = xss[fst ix := (xss ! fst ix)[snd ix := f (xss ! fst ix ! snd ix)]]"

definition apply_update :: "string \<times> PerJointUpdate \<Rightarrow> node \<Rightarrow> node" where
  "apply_update up n =
     (let u = snd up; ix = the (map_of (joint_name_to_can_iface_and_idx n) (fst up))
      in n\<lparr>joint_parameters_per_can_interface :=
             modify ix (update_parameters u) (joint_parameters_per_can_interface n),
           joint_vel_filters_per_can_interface :=
             modify ix (update_ma u) (joint_vel_filters_per_can_interface n),
           joint_ab_filters_per_can_interface :=
             modify ix (update_ab u) (joint_ab_filters_per_can_interface n),
           joint_pos_median_filters_per_can_interface :=
             modify ix (update_med u) (joint_pos_median_filters_per_can_interface n)\<rparr>)"

definition apply_pending :: "pending \<Rightarrow> node \<Rightarrow> node" where
  "apply_pending pend n =
     fold apply_update (joint_updates pend)
       (n\<lparr>default_damping_KD := or_old (new_default_damping_KD pend) (default_damping_KD n),
          damping_on_motor_error := or_old (new_damping_on_motor_error pend) (damping_on_motor_error n),
          max_can_errors_before_motor_shutdown :=
            or_old (map_option to_unsigned (new_max_can_errors pend)) (max_can_errors_before_motor_shutdown n)\<rparr>)"

definition on_set_parameters_callback ::
  "(string \<times> param_value) list \<Rightarrow> node \<Rightarrow> reject option \<times> node" where
  "on_set_parameters_callback params n =
     (case parse_params n params no_pending of
        Inl r \<Rightarrow> (Some r, n)
      | Inr pend \<Rightarrow>
          (case check_updates n (joint_updates pend) of
             Some r \<Rightarrow> (Some r, n)
           | None \<Rightarrow> (None, apply_pending pend n)))"

section \<open>Names of joint parameters\<close>

definition joint_param :: "string \<Rightarrow> string \<Rightarrow> string" where
  "joint_param j f = prefix_of_joints @ j @ ''.'' @ f"

lemma parse_per_joint_param_iff:
  "parse_per_joint_param name = Some (j, f) \<longleftrightarrow>
     name = joint_param j f \<and> j \<noteq> [] \<and> f \<noteq> [] \<and> CHR ''.'' \<notin> set j"
proof
  assume l: "parse_per_joint_param name = Some (j, f)"
  define rest where "rest = drop (length prefix_of_joints) name"
  have n: "name = prefix_of_joints @ rest"
    using l append_take_drop_id [of "length prefix_of_joints" name]
    unfolding rest_def parse_per_joint_param_def by (metis option.distinct(1))
  have j: "CHR ''.'' \<in> set rest" "j = takeWhile (\<lambda>c. c \<noteq> CHR ''.'') rest" "f = drop (length j + 1) rest"
    "j \<noteq> []" "f \<noteq> []"
    using l by (auto simp: parse_per_joint_param_def rest_def [symmetric] Let_def split: if_splits)
  have d: "dropWhile (\<lambda>c. c \<noteq> CHR ''.'') rest = CHR ''.'' # f"
  proof (cases "dropWhile (\<lambda>c. c \<noteq> CHR ''.'') rest")
    case Nil
    then show ?thesis using j(1) by (auto simp: dropWhile_eq_Nil_conv)
  next
    case (Cons c cs)
    then have "c = CHR ''.''" using hd_dropWhile [of "\<lambda>c. c \<noteq> CHR ''.''" rest] by simp
    moreover have "drop (length j) rest = c # cs" using Cons by (simp add: j(2) dropWhile_eq_drop)
    then have "f = cs" using drop_drop [of 1 "length j" rest] by (simp add: j(3))
    ultimately show ?thesis using Cons by simp
  qed
  have "rest = j @ ''.'' @ f" using takeWhile_dropWhile_id [of "\<lambda>c. c \<noteq> CHR ''.''" rest] d by (simp add: j(2))
  moreover have "CHR ''.'' \<notin> set j" using j(2) by (auto dest: set_takeWhileD)
  ultimately show "name = joint_param j f \<and> j \<noteq> [] \<and> f \<noteq> [] \<and> CHR ''.'' \<notin> set j"
    using n j(4,5) by (simp add: joint_param_def)
next
  assume r: "name = joint_param j f \<and> j \<noteq> [] \<and> f \<noteq> [] \<and> CHR ''.'' \<notin> set j"
  then have "takeWhile (\<lambda>c. c \<noteq> CHR ''.'') (j @ ''.'' @ f) = j"
    by (subst takeWhile_append2) auto
  then show "parse_per_joint_param name = Some (j, f)"
    using r by (simp add: parse_per_joint_param_def joint_param_def Let_def)
qed

section \<open>What a joint keeps in the node\<close>

text \<open>The parameters and filters of the joint at an index, and the shape of the vectors.\<close>

type_synonym joint_entry = "JointParameters \<times> fp moving_average \<times> fp alpha_beta \<times> fp median_filter"

definition entry :: "node \<Rightarrow> nat \<times> nat \<Rightarrow> joint_entry" where
  "entry n ix =
     (joint_parameters_per_can_interface n ! fst ix ! snd ix,
      joint_vel_filters_per_can_interface n ! fst ix ! snd ix,
      joint_ab_filters_per_can_interface n ! fst ix ! snd ix,
      joint_pos_median_filters_per_can_interface n ! fst ix ! snd ix)"

definition joints :: "node \<Rightarrow> (nat \<times> nat) set" where
  "joints n = (let s = map length (joint_parameters_per_can_interface n) in {(i, k). i < length s \<and> k < s ! i})"

definition filters_shape :: "node \<Rightarrow> bool" where
  "filters_shape n \<longleftrightarrow> (let s = map length (joint_parameters_per_can_interface n) in
     map length (joint_vel_filters_per_can_interface n) = s \<and>
     map length (joint_ab_filters_per_can_interface n) = s \<and>
     map length (joint_pos_median_filters_per_can_interface n) = s)"

definition names_ok :: "node \<Rightarrow> bool" where
  "names_ok n \<longleftrightarrow>
     distinct (map fst (joint_name_to_can_iface_and_idx n)) \<and>
     distinct (map snd (joint_name_to_can_iface_and_idx n)) \<and>
     set (map snd (joint_name_to_can_iface_and_idx n)) = joints n"

definition update_entry :: "PerJointUpdate \<Rightarrow> joint_entry \<Rightarrow> joint_entry" where
  "update_entry u = (\<lambda>(jp, ma, ab, med). (update_parameters u jp, update_ma u ma, update_ab u ab, update_med u med))"

lemma map_length_modify [simp]: "map length (modify ix f xss) = map length xss"
proof (rule nth_equalityI)
  fix i assume "i < length (map length (modify ix f xss))"
  then show "map length (modify ix f xss) ! i = map length xss ! i"
    by (cases "fst ix = i") (simp_all add: modify_def)
qed (simp add: modify_def)

lemma nth_modify:
  "i < length xss \<Longrightarrow> k < length (xss ! i) \<Longrightarrow>
   modify ix f xss ! i ! k = (if ix = (i, k) then f (xss ! i ! k) else xss ! i ! k)"
  by (cases ix; cases "fst ix = i"; cases "snd ix = k") (simp_all add: modify_def)

lemma shape_length:
  "map length xss = map length yss \<Longrightarrow> i < length yss \<Longrightarrow> i < length xss \<and> length (xss ! i) = length (yss ! i)"
  by (metis length_map nth_map)

lemma joints_iff:
  "(i, k) \<in> joints n \<longleftrightarrow> i < length (joint_parameters_per_can_interface n) \<and>
     k < length (joint_parameters_per_can_interface n ! i)"
  by (auto simp: joints_def Let_def)

lemma apply_update_shape:
  "filters_shape (apply_update up n) = filters_shape n" "joints (apply_update up n) = joints n"
  "joint_name_to_can_iface_and_idx (apply_update up n) = joint_name_to_can_iface_and_idx n"
  by (simp_all add: filters_shape_def joints_def apply_update_def Let_def)

lemma entry_apply_update:
  assumes "filters_shape n" and "ix \<in> joints n"
  shows "entry (apply_update (j, u) n) ix =
    (if the (map_of (joint_name_to_can_iface_and_idx n) j) = ix then update_entry u (entry n ix) else entry n ix)"
proof -
  obtain i k where ix: "ix = (i, k)" "i < length (joint_parameters_per_can_interface n)"
    "k < length (joint_parameters_per_can_interface n ! i)"
    using assms(2) by (cases ix) (auto simp: joints_iff)
  have "i < length (joint_vel_filters_per_can_interface n)" "k < length (joint_vel_filters_per_can_interface n ! i)"
    "i < length (joint_ab_filters_per_can_interface n)" "k < length (joint_ab_filters_per_can_interface n ! i)"
    "i < length (joint_pos_median_filters_per_can_interface n)"
    "k < length (joint_pos_median_filters_per_can_interface n ! i)"
    using assms(1) ix(2,3) unfolding filters_shape_def Let_def by (metis shape_length)+
  then show ?thesis
    using ix by (simp add: entry_def apply_update_def update_entry_def Let_def nth_modify)
qed

section \<open>What a batch does to a joint\<close>

lemma names_inj:
  assumes "names_ok n" and "map_of (joint_name_to_can_iface_and_idx n) j = Some ix"
    and "map_of (joint_name_to_can_iface_and_idx n) j' = Some ix"
  shows "j = j'"
proof -
  have "(j, ix) \<in> set (joint_name_to_can_iface_and_idx n)" "(j', ix) \<in> set (joint_name_to_can_iface_and_idx n)"
    using assms(2,3) by (auto dest: map_of_SomeD)
  moreover have "inj_on snd (set (joint_name_to_can_iface_and_idx n))"
    using assms(1) by (simp add: names_ok_def distinct_map)
  ultimately show ?thesis
    using inj_onD [of snd "set (joint_name_to_can_iface_and_idx n)" "(j, ix)" "(j', ix)"] by simp
qed

lemma names_joint:
  "names_ok n \<Longrightarrow> map_of (joint_name_to_can_iface_and_idx n) j = Some ix \<Longrightarrow> ix \<in> joints n"
  by (auto simp: names_ok_def dest!: map_of_SomeD) (metis image_eqI snd_conv)

lemma names_complete:
  assumes "names_ok n" and "ix \<in> joints n"
  obtains j where "map_of (joint_name_to_can_iface_and_idx n) j = Some ix"
proof -
  have "ix \<in> snd ` set (joint_name_to_can_iface_and_idx n)"
    using assms by (simp add: names_ok_def)
  then obtain j where "(j, ix) \<in> set (joint_name_to_can_iface_and_idx n)" by auto
  then show thesis using assms(1) that by (simp add: names_ok_def map_of_eq_Some_iff)
qed

lemma fold_apply_update:
  assumes "filters_shape n" and "names_ok n" and "distinct (map fst us)"
    and "\<forall>j\<in>fst ` set us. map_of (joint_name_to_can_iface_and_idx n) j \<noteq> None"
    and "map_of (joint_name_to_can_iface_and_idx n) j = Some ix"
  shows "entry (fold apply_update us n) ix =
      (case map_of us j of None \<Rightarrow> entry n ix | Some u \<Rightarrow> update_entry u (entry n ix))"
    and "filters_shape (fold apply_update us n)" and "names_ok (fold apply_update us n)"
    and "joints (fold apply_update us n) = joints n"
    and "joint_name_to_can_iface_and_idx (fold apply_update us n) = joint_name_to_can_iface_and_idx n"
proof -
  have nm: "names_ok (apply_update up m) = names_ok m" for up m
    by (simp add: names_ok_def apply_update_shape)
  have "entry (fold apply_update us n) ix =
      (case map_of us j of None \<Rightarrow> entry n ix | Some u \<Rightarrow> update_entry u (entry n ix)) \<and>
    filters_shape (fold apply_update us n) \<and> names_ok (fold apply_update us n) \<and>
    joints (fold apply_update us n) = joints n \<and>
    joint_name_to_can_iface_and_idx (fold apply_update us n) = joint_name_to_can_iface_and_idx n"
    using assms
  proof (induction us arbitrary: n)
    case (Cons up us)
    obtain j' u where up: "up = (j', u)" by force
    have ix: "ix \<in> joints n" using names_joint Cons.prems(2,5) .
    obtain ix' where ix': "map_of (joint_name_to_can_iface_and_idx n) j' = Some ix'"
      using Cons.prems(4) up by auto
    have same: "ix' = ix \<longleftrightarrow> j' = j"
      using names_inj [OF Cons.prems(2) Cons.prems(5), of j'] ix' Cons.prems(5) by auto
    have e: "entry (apply_update (j', u) n) ix = (if j' = j then update_entry u (entry n ix) else entry n ix)"
      using entry_apply_update [OF Cons.prems(1) ix, of j' u] ix' same by simp
    have "j \<notin> fst ` set us" if "j' = j" using Cons.prems(3) that up by auto
    then have none: "j' = j \<Longrightarrow> map_of us j = None" by (simp add: map_of_eq_None_iff)
    show ?case
      using Cons.IH [of "apply_update (j', u) n"] Cons.prems none
      by (auto simp: up apply_update_shape nm e split: option.split simp del: split_paired_Ex)
  qed simp
  then show "entry (fold apply_update us n) ix =
      (case map_of us j of None \<Rightarrow> entry n ix | Some u \<Rightarrow> update_entry u (entry n ix))"
    and "filters_shape (fold apply_update us n)" and "names_ok (fold apply_update us n)"
    and "joints (fold apply_update us n) = joints n"
    and "joint_name_to_can_iface_and_idx (fold apply_update us n) = joint_name_to_can_iface_and_idx n"
    by blast+
qed

section \<open>What parsing leaves\<close>

definition valid_update :: "PerJointUpdate \<Rightarrow> bool" where
  "valid_update u \<longleftrightarrow>
     (\<forall>a. up_alpha u = Some a \<longrightarrow> fp_lt (Fin 0) a \<and> fp_le a (Fin 1)) \<and>
     (\<forall>b. up_beta u = Some b \<longrightarrow> \<not> fp_le b (Fin 0)) \<and>
     (\<forall>v. up_vel_filter_size u = Some v \<longrightarrow> 0 \<le> v) \<and>
     (\<forall>v. up_pos_median_filter_size u = Some v \<longrightarrow> 0 \<le> v)"

definition pending_ok :: "node \<Rightarrow> pending \<Rightarrow> bool" where
  "pending_ok n pend \<longleftrightarrow> distinct (map fst (joint_updates pend)) \<and>
     (\<forall>(j, u)\<in>set (joint_updates pend). map_of (joint_name_to_can_iface_and_idx n) j \<noteq> None \<and> valid_update u) \<and>
     (\<forall>v. new_max_can_errors pend = Some v \<longrightarrow> 1 \<le> v)"

lemma set_update_subset: "set (AList.update k v xs) \<subseteq> insert (k, v) (set xs)"
  by (induction xs) (auto split: if_splits)

lemma set_field_valid: "set_field name field p u = Inr u' \<Longrightarrow> valid_update u \<Longrightarrow> valid_update u'"
  by (cases p) (auto simp: set_field_def valid_update_def split: if_splits option.splits)

lemma parse_param_ok:
  assumes "parse_param n p pend = Inr pend'" and "pending_ok n pend"
  shows "pending_ok n pend'"
proof -
  have global: "pending_ok n pend'" if "joint_updates pend' = joint_updates pend"
    "new_max_can_errors pend' = new_max_can_errors pend \<or> (\<exists>v\<ge>1. new_max_can_errors pend' = Some v)"
    using that assms(2) by (auto simp: pending_ok_def)
  consider "fst p \<in> {''default_damping_KD'', ''damping_on_motor_error'', ''max_can_errors_before_motor_shutdown''}"
    | j f where "fst p \<notin> {''default_damping_KD'', ''damping_on_motor_error'', ''max_can_errors_before_motor_shutdown''}"
      "parse_per_joint_param (fst p) = Some (j, f)"
    using assms(1) by (fastforce simp: parse_param_def Let_def split: if_splits option.splits)
  then show ?thesis
  proof cases
    case 1
    then show ?thesis using assms(1)
      by (intro global) (auto simp: parse_param_def Let_def split: if_splits param_value.splits)
  next
    case 2
    define u where "u = (case map_of (joint_updates pend) j of None \<Rightarrow> no_update | Some u \<Rightarrow> u)"
    obtain u' where s: "set_field (fst p) f (snd p) u = Inr u'"
      "pend' = pend\<lparr>joint_updates := AList.update j u' (joint_updates pend)\<rparr>"
      "map_of (joint_name_to_can_iface_and_idx n) j \<noteq> None"
      using assms(1) 2 by (auto simp: parse_param_def Let_def u_def split: option.splits sum.splits)
    have "valid_update u" using assms(2)
      by (auto simp: u_def pending_ok_def valid_update_def no_update_def split: option.splits dest!: map_of_SomeD)
    then have "valid_update u'" using set_field_valid [OF s(1)] by blast
    moreover have "set (AList.update j u' (joint_updates pend)) \<subseteq> insert (j, u') (set (joint_updates pend))"
      by (rule set_update_subset)
    ultimately show ?thesis using assms(2) s(2,3)
      by (auto simp: pending_ok_def distinct_update)
  qed
qed

lemma parse_params_ok: "parse_params n ps pend = Inr pend' \<Longrightarrow> pending_ok n pend \<Longrightarrow> pending_ok n pend'"
  by (induction ps arbitrary: pend) (auto split: sum.splits intro: parse_param_ok)

section \<open>The last value of a batch\<close>

definition pending_of :: "string \<Rightarrow> pending \<Rightarrow> PerJointUpdate" where
  "pending_of j pend = (case map_of (joint_updates pend) j of None \<Rightarrow> no_update | Some u \<Rightarrow> u)"

text \<open>How a value is read as a number, a flag, a size or a filter type.\<close>

definition number_of :: "param_value \<Rightarrow> fp option" where
  "number_of p = (case p of PDouble v \<Rightarrow> Some v | _ \<Rightarrow> None)"

definition flag_of :: "param_value \<Rightarrow> bool option" where
  "flag_of p = (case p of PBool v \<Rightarrow> Some v | _ \<Rightarrow> None)"

definition integer_of :: "param_value \<Rightarrow> int option" where
  "integer_of p = (case p of PInt v \<Rightarrow> Some v | _ \<Rightarrow> None)"

definition type_of :: "param_value \<Rightarrow> VelFilterType option" where
  "type_of p = (case p of PString s \<Rightarrow> filter_type_of s | _ \<Rightarrow> None)"

lemmas reader_defs = number_of_def flag_of_def integer_of_def type_of_def

text \<open>The last value a batch gives a parameter.\<close>

definition batch_value :: "(param_value \<Rightarrow> 'a option) \<Rightarrow> string \<Rightarrow> (string \<times> param_value) list \<Rightarrow> 'a option" where
  "batch_value read name ps = fold (\<lambda>(m, p) acc. if m = name then read p else acc) ps None"

lemma batch_value_simps [simp]:
  "batch_value read name [] = None"
  "batch_value read name (ps @ [(m, p)]) = (if m = name then read p else batch_value read name ps)"
  by (simp_all add: batch_value_def)

lemma parse_params_snoc:
  "parse_params n (ps @ [p]) pend =
     (case parse_params n ps pend of Inl r \<Rightarrow> Inl r | Inr pend' \<Rightarrow> parse_param n p pend')"
  by (induction ps arbitrary: pend) (auto split: sum.split)

lemma joint_param_not_global:
  "joint_param j f \<notin> {''default_damping_KD'', ''damping_on_motor_error'', ''max_can_errors_before_motor_shutdown''}"
  by (simp add: joint_param_def prefix_of_joints_def)

text \<open>What parsing one parameter does to the update of a joint.\<close>

lemma parse_param_joint:
  assumes "parse_param n (name, p) pend = Inr pend'"
  shows "(\<exists>f. name = joint_param j f \<and> j \<noteq> [] \<and> f \<noteq> [] \<and> CHR ''.'' \<notin> set j \<and>
            set_field name f p (pending_of j pend) = Inr (pending_of j pend')) \<or>
         ((\<forall>f. j \<noteq> [] \<longrightarrow> f \<noteq> [] \<longrightarrow> CHR ''.'' \<notin> set j \<longrightarrow> name \<noteq> joint_param j f) \<and>
            pending_of j pend' = pending_of j pend)"
proof (cases "name \<in> {''default_damping_KD'', ''damping_on_motor_error'', ''max_can_errors_before_motor_shutdown''}")
  case True
  then have "joint_updates pend' = joint_updates pend"
    using assms by (auto simp: parse_param_def Let_def split: if_splits param_value.splits)
  moreover have "name \<noteq> joint_param j f" for f using True joint_param_not_global [of j f] by auto
  ultimately show ?thesis by (simp add: pending_of_def)
next
  case False
  then obtain j' f' where pj: "parse_per_joint_param name = Some (j', f')"
    using assms by (auto simp: parse_param_def Let_def split: option.splits)
  then obtain u' where s: "set_field name f' p (pending_of j' pend) = Inr u'"
    "pend' = pend\<lparr>joint_updates := AList.update j' u' (joint_updates pend)\<rparr>"
    using assms False by (auto simp: parse_param_def Let_def pending_of_def split: option.splits sum.splits)
  note nm = parse_per_joint_param_iff [of name]
  have "j = j' \<or> (\<forall>f. j \<noteq> [] \<longrightarrow> f \<noteq> [] \<longrightarrow> CHR ''.'' \<notin> set j \<longrightarrow> name \<noteq> joint_param j f)"
    using nm pj by (metis option.inject prod.inject)
  moreover have "pending_of j pend' = (if j = j' then u' else pending_of j pend)"
    using s(2) by (simp add: pending_of_def update_conv')
  ultimately show ?thesis using s(1) pj nm by auto
qed

text \<open>
  The interface of a field of a joint: setting it stores the value as it is read, setting any other
  field leaves it. A client then reads off the last value of a batch.
\<close>

locale joint_field =
  fixes field :: string and read :: "param_value \<Rightarrow> 'a option" and sel :: "PerJointUpdate \<Rightarrow> 'a option"
  assumes no_update_sel: "sel no_update = None"
    and set_field_sel: "set_field name f p u = Inr u' \<Longrightarrow> sel u' = (if f = field then read p else sel u)"
    and field_named: "field \<noteq> []"
begin

lemma parse_params_sel:
  assumes "parse_params n ps no_pending = Inr pend" and "j \<noteq> []" and "CHR ''.'' \<notin> set j"
  shows "sel (pending_of j pend) = batch_value read (joint_param j field) ps"
  using assms(1)
proof (induction ps arbitrary: pend rule: rev_induct)
  case Nil
  then show ?case by (auto simp: pending_of_def no_pending_def no_update_sel)
next
  case (snoc p ps)
  obtain name v where p: "p = (name, v)" by force
  obtain pend0 where 0: "parse_params n ps no_pending = Inr pend0" "parse_param n (name, v) pend0 = Inr pend"
    using snoc.prems by (auto simp: parse_params_snoc p split: sum.splits)
  have ih: "sel (pending_of j pend0) = batch_value read (joint_param j field) ps" by (rule snoc.IH [OF 0(1)])
  from parse_param_joint [OF 0(2), of j] show ?case
  proof (elim disjE exE conjE)
    fix f assume f: "name = joint_param j f" "set_field name f v (pending_of j pend0) = Inr (pending_of j pend)"
    then have "name = joint_param j field \<longleftrightarrow> f = field" by (auto simp: joint_param_def)
    then show ?thesis using set_field_sel [OF f(2)] ih by (simp add: p)
  next
    assume "\<forall>f. j \<noteq> [] \<longrightarrow> f \<noteq> [] \<longrightarrow> CHR ''.'' \<notin> set j \<longrightarrow> name \<noteq> joint_param j f"
      "pending_of j pend = pending_of j pend0"
    then show ?thesis using assms(2,3) field_named ih by (simp add: p)
  qed
qed

end

lemmas field_facts = no_update_def set_field_def reader_defs

interpretation limit_min: joint_field "''pos_limit_min''" number_of up_pos_limit_min
  by unfold_locales (auto simp: field_facts split: if_splits param_value.splits option.splits)
interpretation limit_max: joint_field "''pos_limit_max''" number_of up_pos_limit_max
  by unfold_locales (auto simp: field_facts split: if_splits param_value.splits option.splits)
interpretation alpha: joint_field "''alpha''" number_of up_alpha
  by unfold_locales (auto simp: field_facts split: if_splits param_value.splits option.splits)
interpretation beta: joint_field "''beta''" number_of up_beta
  by unfold_locales (auto simp: field_facts split: if_splits param_value.splits option.splits)
interpretation coulomb: joint_field "''tau_c''" number_of up_tau_c
  by unfold_locales (auto simp: field_facts split: if_splits param_value.splits option.splits)
interpretation stiction: joint_field "''tau_s''" number_of up_tau_s
  by unfold_locales (auto simp: field_facts split: if_splits param_value.splits option.splits)
interpretation stribeck: joint_field "''v_s''" number_of up_v_s
  by unfold_locales (auto simp: field_facts split: if_splits param_value.splits option.splits)
interpretation exponent: joint_field "''k''" number_of up_k
  by unfold_locales (auto simp: field_facts split: if_splits param_value.splits option.splits)
interpretation steepness: joint_field "''k_a''" number_of up_k_a
  by unfold_locales (auto simp: field_facts split: if_splits param_value.splits option.splits)
interpretation viscous: joint_field "''b''" number_of up_b
  by unfold_locales (auto simp: field_facts split: if_splits param_value.splits option.splits)
interpretation filter_type: joint_field "''vel_filter_type''" type_of up_vel_filter_type
  by unfold_locales (auto simp: field_facts split: if_splits param_value.splits option.splits)
interpretation filter_size: joint_field "''vel_filter_size''" integer_of up_vel_filter_size
  by unfold_locales (auto simp: field_facts split: if_splits param_value.splits option.splits)
interpretation median_size: joint_field "''pos_median_filter_size''" integer_of up_pos_median_filter_size
  by unfold_locales (auto simp: field_facts split: if_splits param_value.splits option.splits)

text \<open>The same for a parameter of the whole node.\<close>

locale node_field =
  fixes field :: string and read :: "param_value \<Rightarrow> 'a option" and sel :: "pending \<Rightarrow> 'a option"
  assumes no_pending_sel: "sel no_pending = None"
    and parse_param_sel: "parse_param n (name, p) pend = Inr pend' \<Longrightarrow>
      sel pend' = (if name = field then read p else sel pend)"
begin

lemma parse_params_sel:
  "parse_params n ps no_pending = Inr pend \<Longrightarrow> sel pend = batch_value read field ps"
proof (induction ps arbitrary: pend rule: rev_induct)
  case (snoc p ps)
  obtain name v where p: "p = (name, v)" by force
  obtain pend0 where 0: "parse_params n ps no_pending = Inr pend0" "parse_param n (name, v) pend0 = Inr pend"
    using snoc.prems by (auto simp: parse_params_snoc p split: sum.splits)
  show ?case using snoc.IH [OF 0(1)] parse_param_sel [OF 0(2)] by (simp add: p)
qed (simp add: no_pending_sel)

end

interpretation damping: node_field "''default_damping_KD''" number_of new_default_damping_KD
  by unfold_locales (auto simp: no_pending_def parse_param_def reader_defs Let_def
    split: if_splits param_value.splits option.splits sum.splits)
interpretation on_error: node_field "''damping_on_motor_error''" flag_of new_damping_on_motor_error
  by unfold_locales (auto simp: no_pending_def parse_param_def reader_defs Let_def
    split: if_splits param_value.splits option.splits sum.splits)
interpretation max_errors: node_field "''max_can_errors_before_motor_shutdown''" integer_of new_max_can_errors
  by unfold_locales (auto simp: no_pending_def parse_param_def reader_defs Let_def
    split: if_splits param_value.splits option.splits sum.splits)

section \<open>The invariant of the joints\<close>

text \<open>A moving average never indexes past its buffer; its window is at least the configured one.\<close>

definition joint_entry_ok :: "joint_entry \<Rightarrow> bool" where
  "joint_entry_ok = (\<lambda>(jp, ma, ab, med).
     \<not> fp_lt (pos_limit_max jp) (pos_limit_min jp) \<and>
     fp_lt (Fin 0) (ab_alpha ab) \<and> fp_le (ab_alpha ab) (Fin 1) \<and> fp_lt (Fin 0) (ab_beta ab) \<and>
     ma_safe ma \<and> unat (vel_filter_size jp) \<le> ma_buffersize ma \<and>
     med_size med = unat (pos_median_filter_size jp) \<and> (1 < med_size med \<longrightarrow> med_ok med))"

definition params_ok :: "node \<Rightarrow> bool" where
  "params_ok n \<longleftrightarrow> filters_shape n \<and> names_ok n \<and> (\<forall>ix\<in>joints n. joint_entry_ok (entry n ix)) \<and>
     1 \<le> unat (max_can_errors_before_motor_shutdown n)"

lemma ma_resize_safe:
  assumes "ma_safe f"
  shows "ma_safe (ma_resize N sz f) \<and> sz \<le> ma_buffersize (ma_resize N sz f)"
  using assms by (auto simp: ma_safe_def ma_resize_def Let_def split: if_splits)

lemma update_entry_ok:
  assumes "joint_entry_ok (entry n ix)" and "valid_update u"
    and "map_of (joint_name_to_can_iface_and_idx n) j = Some ix" and "check_update n (j, u) = None"
  shows "joint_entry_ok (update_entry u (entry n ix))"
proof -
  obtain i k where ix: "ix = (i, k)" by force
  obtain jp ma ab med where e: "entry n ix = (jp, ma, ab, med)" by (metis prod_cases4)
  have en: "jp = joint_parameters_per_can_interface n ! i ! k" "ab = joint_ab_filters_per_can_interface n ! i ! k"
    using e ix by (auto simp: entry_def)
  have o: "joint_entry_ok (jp, ma, ab, med)" using assms(1) e by simp
  have lim: "\<not> fp_lt (or_old (up_pos_limit_max u) (pos_limit_max jp)) (or_old (up_pos_limit_min u) (pos_limit_min jp))"
    using assms(3,4) en ix by (auto simp: check_update_def or_old_def Let_def split: if_splits)
  have al: "fp_lt (Fin 0) (ab_alpha (update_ab u ab)) \<and> fp_le (ab_alpha (update_ab u ab)) (Fin 1)"
    using o assms(2)
    by (auto simp: update_ab_def joint_entry_ok_def valid_update_def ab_set_alpha_def ab_set_beta_def Let_def split: option.split)
  have "fp_lt (Fin 0) b" if b: "up_beta u = Some b" for b
  proof -
    have "\<not> fp_le b (Fin 0)" "fp_lt b (fp_mul b64 (Fin 2) (or_old (up_alpha u) (ab_alpha ab)))"
      using assms(2-4) en ix b by (auto simp: valid_update_def check_update_def or_old_def Let_def split: if_splits)
    then show ?thesis
      by (cases b; cases "fp_mul b64 (Fin 2) (or_old (up_alpha u) (ab_alpha ab))") (auto simp: fp_lt_def fp_le_def)
  qed
  then have be: "fp_lt (Fin 0) (ab_beta (update_ab u ab))"
    using o by (auto simp: update_ab_def joint_entry_ok_def ab_set_alpha_def ab_set_beta_def Let_def split: option.split)
  have ma: "ma_safe (update_ma u ma) \<and>
      unat (or_old (map_option to_unsigned (up_vel_filter_size u)) (vel_filter_size jp)) \<le> ma_buffersize (update_ma u ma)"
    using o ma_resize_safe [of ma] by (auto simp: update_ma_def joint_entry_ok_def or_old_def split: option.split)
  have med: "med_size (update_med u med) =
      unat (or_old (map_option to_unsigned (up_pos_median_filter_size u)) (pos_median_filter_size jp)) \<and>
      (1 < med_size (update_med u med) \<longrightarrow> med_ok (update_med u med))"
    using o by (auto simp: update_med_def joint_entry_ok_def or_old_def med_resize_def med_ok_def split: option.split)
  show ?thesis
    using lim al be ma med by (simp add: e update_entry_def joint_entry_ok_def update_parameters_def Let_def)
qed

lemma check_updates_None: "check_updates n us = None \<longleftrightarrow> (\<forall>u\<in>set us. check_update n u = None)"
  by (induction us) (auto split: option.split)

lemma parse_params_max:
  "parse_params n ps pend = Inr pend' \<Longrightarrow> new_max_can_errors pend' = Some v \<Longrightarrow>
     new_max_can_errors pend = Some v \<or> (''max_can_errors_before_motor_shutdown'', PInt v) \<in> set ps"
proof (induction ps arbitrary: pend)
  case (Cons p ps)
  obtain pend1 where 1: "parse_param n p pend = Inr pend1" "parse_params n ps pend1 = Inr pend'"
    using Cons.prems(1) by (auto split: sum.splits)
  have "new_max_can_errors pend1 = new_max_can_errors pend \<or>
      (\<exists>v. p = (''max_can_errors_before_motor_shutdown'', PInt v) \<and> new_max_can_errors pend1 = Some v)"
    using 1(1) by (cases p) (auto simp: parse_param_def Let_def split: if_splits param_value.splits option.splits sum.splits)
  then show ?case using Cons.IH [OF 1(2) Cons.prems(2)] by auto
qed simp

lemma fold_apply_update_max [simp]:
  "max_can_errors_before_motor_shutdown (fold apply_update us n) = max_can_errors_before_motor_shutdown n"
  by (induction us arbitrary: n) (simp_all add: apply_update_def Let_def)

text \<open>An accepted batch, read off the joint entries.\<close>

lemma accepted_batch:
  assumes "on_set_parameters_callback ps n = (None, n')" and "filters_shape n" and "names_ok n"
  obtains pend where "parse_params n ps no_pending = Inr pend" and "pending_ok n pend"
    and "\<forall>u\<in>set (joint_updates pend). check_update n u = None" and "n' = apply_pending pend n"
    and "filters_shape n'" and "names_ok n'" and "joints n' = joints n"
    and "\<And>j ix. map_of (joint_name_to_can_iface_and_idx n) j = Some ix \<Longrightarrow>
      entry n' ix = update_entry (pending_of j pend) (entry n ix)"
proof -
  obtain pend where p: "parse_params n ps no_pending = Inr pend" "check_updates n (joint_updates pend) = None"
    "n' = apply_pending pend n"
    using assms(1) by (auto simp: on_set_parameters_callback_def split: sum.splits option.splits)
  have "pending_ok n no_pending" by (simp add: pending_ok_def no_pending_def)
  then have ok: "pending_ok n pend" by (rule parse_params_ok [OF p(1)])
  define m where "m = n\<lparr>default_damping_KD := or_old (new_default_damping_KD pend) (default_damping_KD n),
      damping_on_motor_error := or_old (new_damping_on_motor_error pend) (damping_on_motor_error n),
      max_can_errors_before_motor_shutdown :=
        or_old (map_option to_unsigned (new_max_can_errors pend)) (max_can_errors_before_motor_shutdown n)\<rparr>"
  have m: "filters_shape m" "names_ok m" "joints m = joints n" "entry m = entry n"
    "joint_name_to_can_iface_and_idx m = joint_name_to_can_iface_and_idx n"
    using assms(2,3)
    by (simp_all add: m_def filters_shape_def names_ok_def joints_def entry_def fun_eq_iff)
  have n': "n' = fold apply_update (joint_updates pend) m" using p(3) by (simp add: apply_pending_def m_def)
  have d: "distinct (map fst (joint_updates pend))"
    "\<forall>j\<in>fst ` set (joint_updates pend). map_of (joint_name_to_can_iface_and_idx m) j \<noteq> None"
    using ok by (auto simp: pending_ok_def m(5))
  have shape: "filters_shape n' \<and> names_ok n' \<and> joints n' = joints n"
  proof -
    have "filters_shape (fold apply_update us m') \<and> names_ok (fold apply_update us m') \<and>
        joints (fold apply_update us m') = joints m'" if "filters_shape m'" "names_ok m'" for us m'
      using that by (induction us arbitrary: m') (simp_all add: names_ok_def apply_update_shape)
    then show ?thesis using m by (simp add: n')
  qed
  have id: "update_entry no_update e = e" for e
    by (cases e) (simp add: update_entry_def update_parameters_def update_ma_def update_ab_def
      update_med_def no_update_def or_old_def Let_def)
  have "entry n' ix = update_entry (pending_of j pend) (entry n ix)"
    if "map_of (joint_name_to_can_iface_and_idx n) j = Some ix" for j ix
    using fold_apply_update(1) [OF m(1,2) d, of j ix] that
    by (auto simp: n' m pending_of_def id split: option.split)
  with p ok shape show thesis by (intro that) (auto simp: check_updates_None)
qed

section \<open>Properties\<close>

text \<open>
  C27. A parameter name is read as joint and field exactly when it is the prefix, a joint name
  without a dot, a dot and a field, neither of them empty.
\<close>

theorem parameter_name_roundtrip:
  "parse_per_joint_param name = Some (j, f) \<longleftrightarrow>
     name = joint_param j f \<and> j \<noteq> [] \<and> f \<noteq> [] \<and> CHR ''.'' \<notin> set j"
  by (rule parse_per_joint_param_iff)

lemma accepted_entries:
  assumes ok: "names_ok n" "\<forall>ix\<in>joints n. joint_entry_ok (entry n ix)"
    and p: "pending_ok n pend" "\<forall>u\<in>set (joint_updates pend). check_update n u = None"
    and e: "\<And>j ix. map_of (joint_name_to_can_iface_and_idx n) j = Some ix \<Longrightarrow>
      entry n' ix = update_entry (pending_of j pend) (entry n ix)"
    and ix: "ix \<in> joints n"
  shows "joint_entry_ok (entry n' ix)"
proof -
  obtain j where j: "map_of (joint_name_to_can_iface_and_idx n) j = Some ix"
    using names_complete [OF ok(1) ix] .
  show ?thesis
  proof (cases "map_of (joint_updates pend) j")
    case None
    then have "entry n' ix = entry n ix"
      using e [OF j] by (cases "entry n ix") (simp add: pending_of_def update_entry_def
        update_parameters_def update_ma_def update_ab_def update_med_def no_update_def or_old_def Let_def)
    then show ?thesis using ok(2) ix by simp
  next
    case (Some u)
    then have "(j, u) \<in> set (joint_updates pend)" by (rule map_of_SomeD)
    then have "valid_update u" "check_update n (j, u) = None" using p by (auto simp: pending_ok_def)
    then show ?thesis
      using update_entry_ok [OF _ _ j] ok(2) ix e [OF j] Some by (simp add: pending_of_def)
  qed
qed

lemma accepted_max_errors:
  assumes "parse_params n ps no_pending = Inr pend" and "pending_ok n pend"
    and "\<forall>v. (''max_can_errors_before_motor_shutdown'', PInt v) \<in> set ps \<longrightarrow> v < 2 ^ 32"
    and "1 \<le> unat (max_can_errors_before_motor_shutdown n)"
  shows "1 \<le> unat (max_can_errors_before_motor_shutdown (apply_pending pend n))"
proof -
  have v: "1 \<le> v \<and> v < 2 ^ 32" if "new_max_can_errors pend = Some v" for v
    using parse_params_max [OF assms(1), of v] that assms(2,3) by (auto simp: no_pending_def pending_ok_def)
  have "max_can_errors_before_motor_shutdown (apply_pending pend n) =
      or_old (map_option to_unsigned (new_max_can_errors pend)) (max_can_errors_before_motor_shutdown n)"
    by (simp add: apply_pending_def fold_apply_update_max)
  moreover have "1 \<le> unat (to_unsigned v)" if "1 \<le> v \<and> v < 2 ^ 32" for v
  proof -
    have "uint (to_unsigned v) = v" using that by (simp add: to_unsigned_def uint_word_of_int)
    then have "int (unat (to_unsigned v)) = v" by simp
    then show ?thesis using that by linarith
  qed
  ultimately show ?thesis
    using v assms(4) by (cases "new_max_can_errors pend") (simp_all add: or_old_def)
qed

text \<open>
  C12. What is in order stays so under changes at run time, whatever batch arrives: the limits of
  the positions of a joint do not cross, its \<open>alpha\<close> lies in (0, 1] and its \<open>beta\<close> is positive, its
  median filter has the configured size and a buffer that fits it, its moving average has at least
  the configured size and never indexes past its buffer, and the error limit is at least one. That
  \<open>beta\<close> stays below twice \<open>alpha\<close> is not among it, since an \<open>alpha\<close> alone is not checked
  against the \<open>beta\<close> in place. A rejected batch changes nothing. An error limit in the batch is
  below \<open>2 ^ 32\<close>: beyond that the cast to \<open>unsigned int\<close> can make it zero.
\<close>

theorem parameters_keep_invariant:
  assumes "params_ok n" and "on_set_parameters_callback ps n = (r, n')"
    and "\<forall>v. (''max_can_errors_before_motor_shutdown'', PInt v) \<in> set ps \<longrightarrow> v < 2 ^ 32"
  shows "params_ok n' \<and> (r \<noteq> None \<longrightarrow> n' = n)"
proof (cases r)
  case (Some x)
  then have "n' = n" using assms(2) by (auto simp: on_set_parameters_callback_def split: sum.splits option.splits)
  then show ?thesis using assms(1) by simp
next
  case None
  have ok: "filters_shape n" "names_ok n" "\<forall>ix\<in>joints n. joint_entry_ok (entry n ix)"
    "1 \<le> unat (max_can_errors_before_motor_shutdown n)"
    using assms(1) by (simp_all add: params_ok_def)
  from accepted_batch [OF assms(2) [unfolded None] ok(1,2)] obtain pend where
    p: "parse_params n ps no_pending = Inr pend" "pending_ok n pend"
      "\<forall>u\<in>set (joint_updates pend). check_update n u = None" "n' = apply_pending pend n"
      "filters_shape n'" "names_ok n'" "joints n' = joints n"
    and e: "\<And>j ix. map_of (joint_name_to_can_iface_and_idx n) j = Some ix \<Longrightarrow>
      entry n' ix = update_entry (pending_of j pend) (entry n ix)" by blast
  have "joint_entry_ok (entry n' ix)" if "ix \<in> joints n" for ix
    by (rule accepted_entries [OF ok(2,3) p(2,3) e that])
  moreover have "1 \<le> unat (max_can_errors_before_motor_shutdown n')"
    using accepted_max_errors [OF p(1,2) assms(3) ok(4)] p(4) by simp
  ultimately show ?thesis using p None by (simp add: params_ok_def)
qed

section \<open>Examples\<close>

definition demo_parameters :: "u32 \<Rightarrow> string \<Rightarrow> JointParameters" where
  "demo_parameters i name =
     \<lparr>pos_limit_min = Fin (-1), pos_limit_max = Fin 1, transmission_ratio = Fin 1,
      friction_parameters = \<lparr>tau_c = Fin 0, tau_s = Fin 0, v_s = Fin 1, exponent_k = Fin 1, k_a = Fin 1, viscous_b = Fin 0\<rparr>,
      vel_filter_size = 0, vel_filter_type = ALPHA_BETA, pos_median_filter_size = 0,
      zero_position = Fin 0, set_zero_position_on_startup = False, msg_idx = i, param_joint_name = name\<rparr>"

definition blank_diagnostics :: diagnostics where
  "blank_diagnostics =
     \<lparr>joint_temp = [NaN], joint_state_age = [NaN], joint_rx_delivery = [NaN], joint_rx_hw_timestamp = [NaN],
      joint_reply_after_tx = [NaN], joint_cmd_to_bus_latency = [NaN], joint_motor_reply_latency = [NaN],
      joint_enqueue_to_wire = [NaN], unfiltered_velocity = [NaN], unfiltered_position = [NaN],
      can_interface_frequency = [NaN], can_tx_fill_duration = [NaN], can_rx_duration = [NaN],
      can_processing = [NaN], can_intercycle_gap = [NaN]\<rparr>"

text \<open>A configured node with one joint on one interface.\<close>

definition demo_node :: "lc_state \<Rightarrow> rx_outcome list \<Rightarrow> node" where
  "demo_node s q =
     \<lparr>current_state = s, damping_on_motor_error = True, max_can_errors_before_motor_shutdown = 1,
      node_tx_timestamping = True, node_error_frames = False, default_damping_KD = Fin 1,
      publish_ros2_joint_state = False, msg_received = False,
      joint_cmd_ptr = Some (passive_command 1 (Fin 0)),
      joint_state_msg = \<lparr>js_position = [Fin 0], js_velocity = [Fin 0], js_effort = [Fin 0]\<rparr>,
      diag = blank_diagnostics, num_joints = 1, joint_msg_length = 1,
      joint_commands_per_can_interface = [[\<lparr>cmd_pos = Fin 0, cmd_vel = Fin 0, cmd_torque = Fin 0, cmd_kp = Fin 0, cmd_kd = Fin 0\<rparr>]],
      joint_states_per_can_interface = [[blank_state]],
      joint_parameters_per_can_interface = [[demo_parameters 0 ''hip'']],
      num_can_errors_per_interfaces = [0],
      can_interfaces = [Some (demo_driver [demo_motor 1 V2] q)],
      last_can_cycle_times = [0], last_cycle_end_ns_per_can_interface = [0], comm_threads = [True],
      cleanup_requested = False,
      joint_vel_filters_per_can_interface = [[MovingAverage double_num 0]],
      joint_ab_filters_per_can_interface = [[AlphaBetaFilter double_num (Fin 1) (Fin 1)]],
      joint_pos_median_filters_per_can_interface = [[MedianFilter double_num 0]],
      last_joint_rx_ns_per_can_interface = [[0]], joint_rx_ns = [0], joint_rx_delivery_floor_ns = [2 ^ 63 - 1],
      joint_rx_hw_base_ns = [0], cmd_rx_ns = 0,
      joint_name_to_can_iface_and_idx = [(''hip'', 0, 0)], publish_timer = True,
      watchdog_timer = (s = ACTIVE), supervisor_timer = True, joint_cmd_sub = True,
      on_set_parameters_handle = True, accepted = None\<rparr>"

lemma demo_node_joints: "joints (demo_node s q) = {(0, 0)}"
  by (auto simp: joints_def demo_node_def)

lemma demo_node_entry:
  "entry (demo_node s q) (0, 0) =
     (demo_parameters 0 ''hip'', MovingAverage double_num 0, AlphaBetaFilter double_num (Fin 1) (Fin 1), MedianFilter double_num 0)"
  by (simp add: entry_def demo_node_def)

lemma demo_node_names: "joint_name_to_can_iface_and_idx (demo_node s q) = [(''hip'', 0, 0)]"
  by (simp add: demo_node_def)

lemma demo_node_vectors:
  "joint_parameters_per_can_interface (demo_node s q) = [[demo_parameters 0 ''hip'']]"
  "joint_ab_filters_per_can_interface (demo_node s q) = [[AlphaBetaFilter double_num (Fin 1) (Fin 1)]]"
  by (simp_all add: demo_node_def)

lemma demo_entry_ok:
  "joint_entry_ok (demo_parameters 0 ''hip'', MovingAverage double_num 0, AlphaBetaFilter double_num (Fin 1) (Fin 1), MedianFilter double_num 0)"
  by (simp add: joint_entry_ok_def demo_parameters_def AlphaBetaFilter_def MovingAverage_def MedianFilter_def
    ma_safe_def fp_lt_def fp_le_def)

lemma demo_node_params_ok: "params_ok (demo_node s q)"
proof -
  have "filters_shape (demo_node s q)" by (simp add: filters_shape_def demo_node_def)
  moreover have "max_can_errors_before_motor_shutdown (demo_node s q) = 1" by (simp add: demo_node_def)
  ultimately show ?thesis
    by (simp add: params_ok_def names_ok_def demo_node_names demo_node_joints demo_node_entry demo_entry_ok)
qed

theorem parameters_keep_invariant_witness:
  "params_ok (snd (on_set_parameters_callback [(joint_param ''hip'' ''pos_limit_min'', PDouble (Fin 0))] (demo_node ACTIVE [])))"
proof -
  obtain r n' where h: "on_set_parameters_callback [(joint_param ''hip'' ''pos_limit_min'', PDouble (Fin 0))]
    (demo_node ACTIVE []) = (r, n')" by force
  show ?thesis using parameters_keep_invariant [OF demo_node_params_ok h] h by simp
qed

text \<open>The parts of the node that a batch may change.\<close>

lemma apply_pending_frame:
  "apply_pending pend n =
     n\<lparr>default_damping_KD := or_old (new_default_damping_KD pend) (default_damping_KD n),
       damping_on_motor_error := or_old (new_damping_on_motor_error pend) (damping_on_motor_error n),
       max_can_errors_before_motor_shutdown :=
         or_old (map_option to_unsigned (new_max_can_errors pend)) (max_can_errors_before_motor_shutdown n),
       joint_parameters_per_can_interface := joint_parameters_per_can_interface (apply_pending pend n),
       joint_vel_filters_per_can_interface := joint_vel_filters_per_can_interface (apply_pending pend n),
       joint_ab_filters_per_can_interface := joint_ab_filters_per_can_interface (apply_pending pend n),
       joint_pos_median_filters_per_can_interface := joint_pos_median_filters_per_can_interface (apply_pending pend n)\<rparr>"
proof -
  have "\<exists>ps mas abs meds. fold apply_update us m =
      m\<lparr>joint_parameters_per_can_interface := ps, joint_vel_filters_per_can_interface := mas,
        joint_ab_filters_per_can_interface := abs, joint_pos_median_filters_per_can_interface := meds\<rparr>" for us m
  proof (induction us arbitrary: m)
    case Nil
    have "m = m\<lparr>joint_parameters_per_can_interface := joint_parameters_per_can_interface m,
        joint_vel_filters_per_can_interface := joint_vel_filters_per_can_interface m,
        joint_ab_filters_per_can_interface := joint_ab_filters_per_can_interface m,
        joint_pos_median_filters_per_can_interface := joint_pos_median_filters_per_can_interface m\<rparr>" by simp
    then show ?case unfolding fold_simps id_apply by blast
  next
    case (Cons u us)
    obtain ps mas abs meds where "fold apply_update us (apply_update u m) = (apply_update u m)
      \<lparr>joint_parameters_per_can_interface := ps, joint_vel_filters_per_can_interface := mas,
        joint_ab_filters_per_can_interface := abs, joint_pos_median_filters_per_can_interface := meds\<rparr>"
      using Cons.IH by blast
    then have "fold apply_update (u # us) m = m\<lparr>joint_parameters_per_can_interface := ps,
        joint_vel_filters_per_can_interface := mas, joint_ab_filters_per_can_interface := abs,
        joint_pos_median_filters_per_can_interface := meds\<rparr>"
      by (simp add: apply_update_def Let_def)
    then show ?case by blast
  qed
  then obtain ps mas abs meds where e: "apply_pending pend n =
     n\<lparr>default_damping_KD := or_old (new_default_damping_KD pend) (default_damping_KD n),
       damping_on_motor_error := or_old (new_damping_on_motor_error pend) (damping_on_motor_error n),
       max_can_errors_before_motor_shutdown :=
         or_old (map_option to_unsigned (new_max_can_errors pend)) (max_can_errors_before_motor_shutdown n),
       joint_parameters_per_can_interface := ps, joint_vel_filters_per_can_interface := mas,
       joint_ab_filters_per_can_interface := abs, joint_pos_median_filters_per_can_interface := meds\<rparr>"
    unfolding apply_pending_def by metis
  show ?thesis unfolding e by simp
qed

text \<open>
  C13. A batch that is accepted takes effect as a whole: every field of a joint that can be changed
  (limits, filter type, both filter sizes with the windows resized, both gains, all six friction
  parameters) and every parameter of the whole node has the last value the batch gives it, or its
  old value when the batch does not name it; all other parameters of the joint and all other parts
  of the node are as before. A gain \<open>beta\<close> given in the batch is below twice the \<open>alpha\<close> then in
  force.
\<close>

theorem accepted_batch_takes_effect:
  assumes "params_ok n" and "on_set_parameters_callback ps n = (None, n')"
    and "map_of (joint_name_to_can_iface_and_idx n) j = Some ix" and "j \<noteq> []" and "CHR ''.'' \<notin> set j"
    and "entry n ix = (jp, ma, ab, med)" and "entry n' ix = (jp', ma', ab', med')"
  defines "given \<equiv> \<lambda>field. batch_value number_of (joint_param j field) ps"
    and "sized \<equiv> \<lambda>field. map_option to_unsigned (batch_value integer_of (joint_param j field) ps)"
    and "fr \<equiv> friction_parameters jp"
  shows "jp' = jp\<lparr>vel_filter_type := or_old (batch_value type_of (joint_param j ''vel_filter_type'') ps) (vel_filter_type jp),
      vel_filter_size := or_old (sized ''vel_filter_size'') (vel_filter_size jp),
      pos_median_filter_size := or_old (sized ''pos_median_filter_size'') (pos_median_filter_size jp),
      friction_parameters :=
        \<lparr>tau_c = or_old (given ''tau_c'') (tau_c fr), tau_s = or_old (given ''tau_s'') (tau_s fr),
         v_s = or_old (given ''v_s'') (v_s fr), exponent_k = or_old (given ''k'') (exponent_k fr),
         k_a = or_old (given ''k_a'') (k_a fr), viscous_b = or_old (given ''b'') (viscous_b fr)\<rparr>,
      pos_limit_min := or_old (given ''pos_limit_min'') (pos_limit_min jp),
      pos_limit_max := or_old (given ''pos_limit_max'') (pos_limit_max jp)\<rparr> \<and>
    ab' = ab\<lparr>ab_alpha := or_old (given ''alpha'') (ab_alpha ab), ab_beta := or_old (given ''beta'') (ab_beta ab)\<rparr> \<and>
    ma' = (case sized ''vel_filter_size'' of None \<Rightarrow> ma | Some v \<Rightarrow> ma_resize double_num (unat v) ma) \<and>
    med' = (case sized ''pos_median_filter_size'' of None \<Rightarrow> med | Some v \<Rightarrow> med_resize double_num (unat v) med) \<and>
    n' = n\<lparr>default_damping_KD := or_old (batch_value number_of ''default_damping_KD'' ps) (default_damping_KD n),
      damping_on_motor_error := or_old (batch_value flag_of ''damping_on_motor_error'' ps) (damping_on_motor_error n),
      max_can_errors_before_motor_shutdown := or_old (map_option to_unsigned
        (batch_value integer_of ''max_can_errors_before_motor_shutdown'' ps)) (max_can_errors_before_motor_shutdown n),
      joint_parameters_per_can_interface := joint_parameters_per_can_interface n',
      joint_vel_filters_per_can_interface := joint_vel_filters_per_can_interface n',
      joint_ab_filters_per_can_interface := joint_ab_filters_per_can_interface n',
      joint_pos_median_filters_per_can_interface := joint_pos_median_filters_per_can_interface n'\<rparr> \<and>
    (given ''beta'' \<noteq> None \<longrightarrow> fp_lt (ab_beta ab') (fp_mul b64 (Fin 2) (ab_alpha ab')))"
proof -
  have ok: "filters_shape n" "names_ok n" using assms(1) by (simp_all add: params_ok_def)
  from accepted_batch [OF assms(2) ok] obtain pend where
    p: "parse_params n ps no_pending = Inr pend" "\<forall>u\<in>set (joint_updates pend). check_update n u = None"
      "n' = apply_pending pend n"
    and e: "entry n' ix = update_entry (pending_of j pend) (entry n ix)" using assms(3) by metis
  note of_joint = limit_min.parse_params_sel limit_max.parse_params_sel alpha.parse_params_sel beta.parse_params_sel
    coulomb.parse_params_sel stiction.parse_params_sel stribeck.parse_params_sel exponent.parse_params_sel
    steepness.parse_params_sel viscous.parse_params_sel filter_type.parse_params_sel filter_size.parse_params_sel
    median_size.parse_params_sel
  note sel = of_joint [OF p(1) assms(4,5), symmetric]
  note whole = damping.parse_params_sel [OF p(1)] on_error.parse_params_sel [OF p(1)] max_errors.parse_params_sel [OF p(1)]
  define u where "u = pending_of j pend"
  have new: "jp' = update_parameters u jp" "ma' = update_ma u ma" "ab' = update_ab u ab" "med' = update_med u med"
    using e assms(6,7) by (simp_all add: update_entry_def u_def)
  have ab': "ab' = ab\<lparr>ab_alpha := or_old (up_alpha u) (ab_alpha ab), ab_beta := or_old (up_beta u) (ab_beta ab)\<rparr>"
    by (auto simp: new(3) update_ab_def ab_set_alpha_def ab_set_beta_def or_old_def Let_def split: option.split)
  have below: "fp_lt (ab_beta ab') (fp_mul b64 (Fin 2) (ab_alpha ab'))" if b: "up_beta u \<noteq> None"
  proof -
    have "map_of (joint_updates pend) j = Some u"
      using b by (auto simp: u_def pending_of_def no_update_def split: option.splits)
    then have "check_update n (j, u) = None" using p(2) by (auto dest: map_of_SomeD)
    moreover have "ab = joint_ab_filters_per_can_interface n ! fst ix ! snd ix" using assms(6) by (simp add: entry_def)
    ultimately show ?thesis using assms(3) b
      by (cases ix) (auto simp: ab' check_update_def or_old_def Let_def split: if_splits)
  qed
  show ?thesis unfolding given_def sized_def fr_def sel u_def [symmetric] whole [symmetric]
  proof (intro conjI)
    show "n' = n\<lparr>default_damping_KD := or_old (new_default_damping_KD pend) (default_damping_KD n),
      damping_on_motor_error := or_old (new_damping_on_motor_error pend) (damping_on_motor_error n),
      max_can_errors_before_motor_shutdown := or_old (map_option to_unsigned (new_max_can_errors pend))
        (max_can_errors_before_motor_shutdown n),
      joint_parameters_per_can_interface := joint_parameters_per_can_interface n',
      joint_vel_filters_per_can_interface := joint_vel_filters_per_can_interface n',
      joint_ab_filters_per_can_interface := joint_ab_filters_per_can_interface n',
      joint_pos_median_filters_per_can_interface := joint_pos_median_filters_per_can_interface n'\<rparr>"
      unfolding p(3) by (rule apply_pending_frame)
  qed (use below in \<open>auto simp: new(1,2,4) ab' update_parameters_def update_ma_def update_med_def Let_def split: option.split\<close>)
qed

theorem accepted_batch_takes_effect_witness:
  "pos_limit_max (fst (entry (snd (on_set_parameters_callback
     [(joint_param ''hip'' ''pos_limit_max'', PDouble (Fin 5)), (joint_param ''hip'' ''pos_limit_max'', PDouble (Fin 3))]
     (demo_node ACTIVE []))) (0, 0))) = Fin 3"
proof -
  let ?ps = "[(joint_param ''hip'' ''pos_limit_max'', PDouble (Fin 5)), (joint_param ''hip'' ''pos_limit_max'', PDouble (Fin 3))]"
  obtain r n' where r: "on_set_parameters_callback ?ps (demo_node ACTIVE []) = (r, n')" by force
  have pj: "parse_per_joint_param (joint_param ''hip'' ''pos_limit_max'') = Some (''hip'', ''pos_limit_max'')"
    by (simp add: parse_per_joint_param_iff)
  have ng: "joint_param ''hip'' ''pos_limit_max'' \<notin> {''default_damping_KD'', ''damping_on_motor_error'',
      ''max_can_errors_before_motor_shutdown''}" by (rule joint_param_not_global)
  have "parse_params (demo_node ACTIVE []) ?ps no_pending = Inr (no_pending\<lparr>joint_updates :=
      [(''hip'', no_update\<lparr>up_pos_limit_max := Some (Fin 3)\<rparr>)]\<rparr>)"
    using pj ng by (simp add: parse_param_def set_field_def no_pending_def demo_node_names no_update_def)
  then have "r = None"
    using r by (simp add: on_set_parameters_callback_def check_update_def demo_node_names demo_node_vectors
      no_pending_def demo_parameters_def no_update_def fp_lt_def)
  with r have r': "on_set_parameters_callback ?ps (demo_node ACTIVE []) = (None, n')" by simp
  obtain jp' ma' ab' med' where e: "entry n' (0, 0) = (jp', ma', ab', med')" by (metis prod_cases4)
  have "pos_limit_max jp' = or_old (batch_value number_of (joint_param ''hip'' ''pos_limit_max'') ?ps) (pos_limit_max (demo_parameters 0 ''hip''))"
    using accepted_batch_takes_effect [OF demo_node_params_ok r' _ _ _ demo_node_entry e, of "''hip''", THEN conjunct1]
    by (simp add: demo_node_names)
  then show ?thesis using r' e by (simp add: batch_value_def or_old_def number_of_def)
qed

end
