(* ===== verification/NodeLifecycle.thy ===== *)
theory NodeLifecycle
  imports NodeParams
begin

text \<open>
  The lifecycle callbacks of the hardware node, its communication threads, and the callbacks that
  trigger transitions: watchdog, supervisor and the subscription of commands.
\<close>

section \<open>Communication threads\<close>

text \<open>
  A thread is its running flag: stopping joins the thread, so none is left running when a call
  below returns.
\<close>

definition start_comm_thread :: "nat \<Rightarrow> node \<Rightarrow> node" where
  "start_comm_thread k n =
     (if comm_threads n ! k then n else n\<lparr>comm_threads := (comm_threads n)[k := True]\<rparr>)"

definition stop_comm_thread :: "nat \<Rightarrow> node \<Rightarrow> node" where
  "stop_comm_thread k n = n\<lparr>comm_threads := (comm_threads n)[k := False]\<rparr>"

definition stop_all_comm_threads :: "node \<Rightarrow> node" where
  "stop_all_comm_threads n = n\<lparr>comm_threads := map (\<lambda>_. False) (comm_threads n)\<rparr>"

section \<open>Calls on an interface\<close>

text \<open>A call on the interface at an index; a null pointer is undefined behaviour.\<close>

definition can_call :: "nat \<Rightarrow> call \<Rightarrow> node \<Rightarrow> (exn, unit) outcome \<times> node" where
  "can_call i f n =
     (case can_interfaces n ! i of
        None \<Rightarrow> (UB, n)
      | Some d \<Rightarrow> (let (r, d') = f d in (r, n\<lparr>can_interfaces := (can_interfaces n)[i := Some d']\<rparr>)))"

text \<open>
  Calls for interface and joint in the order given, each with a handler of its own: an exception
  is noted and the next call follows. The result says whether one failed.
\<close>

fun each_caught :: "(nat \<times> nat \<Rightarrow> call) \<Rightarrow> (nat \<times> nat) list \<Rightarrow> node \<Rightarrow> bool \<times> node" where
  "each_caught f [] n = (False, n)"
| "each_caught f (ij # ijs) n =
     (let (r, n) = can_call (fst ij) (f ij) n; (failed, n) = each_caught f ijs n
      in (\<not> is_ok r \<or> failed, n))"

text \<open>The pairs of indices of a vector of vectors.\<close>

definition indices :: "'a list list \<Rightarrow> (nat \<times> nat) list" where
  "indices xss = concat (map (\<lambda>i. map (Pair i) [0..<length (xss ! i)]) [0..<length xss])"

section \<open>Lifecycle callbacks\<close>

definition on_activate :: "node \<Rightarrow> lc_return \<times> node" where
  "on_activate n =
     (if \<not> msg_received n then (LC_FAILURE, n) else (LC_SUCCESS, n\<lparr>watchdog_timer := True\<rparr>))"

definition on_deactivate :: "node \<Rightarrow> lc_return \<times> node" where
  "on_deactivate n =
     (let damping = passive_command (joint_msg_length n) (default_damping_KD n)
      in (LC_SUCCESS, n\<lparr>joint_cmd_ptr := Some damping, watchdog_timer := False, msg_received := False\<rparr>))"

text \<open>Every motor is disabled on its own, so that one that does not answer stops no other.\<close>

definition disable_motors :: "node \<Rightarrow> bool \<times> node" where
  "disable_motors n =
     each_caught (\<lambda>(i, j). end_motor_control_mode j)
       (concat (map (\<lambda>i. map (Pair i) [0..<length (joint_commands_per_can_interface n ! i)])
         [0..<length (can_interfaces n)])) n"

definition cleared_diagnostics :: "diagnostics \<Rightarrow> diagnostics" where
  "cleared_diagnostics d =
     d\<lparr>joint_temp := [], joint_state_age := [], joint_rx_delivery := [], joint_rx_hw_timestamp := [],
       joint_reply_after_tx := [], joint_cmd_to_bus_latency := [], joint_motor_reply_latency := [],
       joint_enqueue_to_wire := [], unfiltered_velocity := [], unfiltered_position := [],
       can_tx_fill_duration := [], can_rx_duration := [], can_processing := [], can_intercycle_gap := []\<rparr>"

text \<open>What clean-up and the error handler clear alike.\<close>

definition clear_joints :: "node \<Rightarrow> node" where
  "clear_joints n =
     n\<lparr>joint_parameters_per_can_interface := [], joint_vel_filters_per_can_interface := [],
       joint_ab_filters_per_can_interface := [], joint_pos_median_filters_per_can_interface := [],
       last_joint_rx_ns_per_can_interface := [], joint_name_to_can_iface_and_idx := [],
       num_can_errors_per_interfaces := [], joint_states_per_can_interface := [],
       joint_commands_per_can_interface := [], last_cycle_end_ns_per_can_interface := [],
       joint_rx_ns := [], joint_rx_delivery_floor_ns := [], joint_rx_hw_base_ns := [],
       joint_cmd_ptr := None, joint_state_msg := \<lparr>js_position = [], js_velocity = [], js_effort = []\<rparr>,
       diag := cleared_diagnostics (diag n), joint_cmd_sub := False\<rparr>"

definition on_cleanup :: "node \<Rightarrow> lc_return \<times> node" where
  "on_cleanup n =
     (let n = n\<lparr>on_set_parameters_handle := False, publish_timer := False\<rparr>;
          n = (stop_all_comm_threads n)\<lparr>comm_threads := []\<rparr>;
          n = snd (disable_motors n);
          n = n\<lparr>can_interfaces := [], last_can_cycle_times := []\<rparr>
      in (LC_SUCCESS, clear_joints n))"

definition on_shutdown :: "lc_state \<Rightarrow> node \<Rightarrow> lc_return \<times> node" where
  "on_shutdown previous_state n =
     (let n = (if previous_state = ACTIVE then snd (on_deactivate n) else n);
          n = (if previous_state = ACTIVE \<or> previous_state = INACTIVE then snd (on_cleanup n) else n)
      in (LC_SUCCESS, n))"

definition on_error :: "lc_state \<Rightarrow> node \<Rightarrow> lc_return \<times> node" where
  "on_error previous_state n =
     (case previous_state of
        UNCONFIGURED \<Rightarrow>
          (let n = n\<lparr>on_set_parameters_handle := False, publish_timer := False\<rparr>;
               n = (stop_all_comm_threads n)\<lparr>comm_threads := []\<rparr>
           in (LC_SUCCESS, clear_joints n))
      | _ \<Rightarrow> (LC_FAILURE, n))"

section \<open>Transitions\<close>

text \<open>
  A transition that the state does not offer does nothing. A successful callback leads to the
  target, a failing one back, and one with an error to the error callback.
\<close>

definition trigger :: "env \<Rightarrow> transition \<Rightarrow> (node \<Rightarrow> lc_return \<times> node) \<Rightarrow> node \<Rightarrow> node" where
  "trigger E t callback n =
     (let L = ev_lifecycle E; s = current_state n
      in if \<not> allowed L s t then n
         else case callback n of
                (LC_SUCCESS, n') \<Rightarrow> n'\<lparr>current_state := target L t\<rparr>
              | (LC_FAILURE, n') \<Rightarrow> n'\<lparr>current_state := s\<rparr>
              | (LC_ERROR, n') \<Rightarrow> (let (r, n'') = on_error s n' in n''\<lparr>current_state := after_error L r\<rparr>))"

definition activate :: "env \<Rightarrow> node \<Rightarrow> node" where "activate E = trigger E Activate on_activate"
definition deactivate :: "env \<Rightarrow> node \<Rightarrow> node" where "deactivate E = trigger E Deactivate on_deactivate"
definition cleanup :: "env \<Rightarrow> node \<Rightarrow> node" where "cleanup E = trigger E Cleanup on_cleanup"

definition shutdown :: "env \<Rightarrow> node \<Rightarrow> node" where
  "shutdown E n = trigger E Shutdown (on_shutdown (current_state n)) n"

section \<open>Timers and the subscription\<close>

definition watchdog_timer_callback :: "env \<Rightarrow> node \<Rightarrow> node" where
  "watchdog_timer_callback E n =
     (let n = (if \<not> msg_received n then deactivate E n else n) in n\<lparr>msg_received := False\<rparr>)"

definition supervisor_callback :: "env \<Rightarrow> node \<Rightarrow> node" where
  "supervisor_callback E n =
     (if cleanup_requested n then cleanup E (n\<lparr>cleanup_requested := False\<rparr>) else n)"

definition command_sizes_ok :: "node \<Rightarrow> JointCommand \<Rightarrow> bool" where
  "command_sizes_ok n cmd \<longleftrightarrow>
     length (jc_position cmd) = joint_msg_length n \<and> length (jc_velocity cmd) = joint_msg_length n \<and>
     length (jc_effort cmd) = joint_msg_length n \<and> length (jc_kp cmd) = joint_msg_length n \<and>
     length (jc_kd cmd) = joint_msg_length n"

text \<open>
  The callback in two halves, because a deactivation by another thread can fall between them: the
  check of sizes and state, and the store.
\<close>

definition accept_command :: "JointCommand \<Rightarrow> node \<Rightarrow> bool \<times> node" where
  "accept_command cmd n =
     (if \<not> command_sizes_ok n cmd then (False, n)
      else let n = n\<lparr>msg_received := True\<rparr> in (current_state n = ACTIVE, n))"

definition store_command :: "int \<Rightarrow> JointCommand \<Rightarrow> node \<Rightarrow> node" where
  "store_command now cmd n = n\<lparr>cmd_rx_ns := now, joint_cmd_ptr := Some cmd\<rparr>"

text \<open>The halves as steps of their own: up to the check of the state, and the store.\<close>

definition begin_command :: "JointCommand \<Rightarrow> node \<Rightarrow> node" where
  "begin_command cmd n =
     (let (active, n) = accept_command cmd n in if active then n\<lparr>accepted := Some cmd\<rparr> else n)"

definition end_command :: "int \<Rightarrow> JointCommand \<Rightarrow> node \<Rightarrow> node" where
  "end_command now cmd n = store_command now cmd (n\<lparr>accepted := None\<rparr>)"

text \<open>The second result is the controller latency that is published, if any.\<close>

definition joint_cmd_msg_callback :: "int \<Rightarrow> int \<Rightarrow> JointCommand \<Rightarrow> node \<Rightarrow> node \<times> fp option" where
  "joint_cmd_msg_callback now ros_now cmd n =
     (if \<not> command_sizes_ok n cmd then (n, None)
      else let (active, n) = accept_command cmd n;
               n = (if active then store_command now cmd n else n)
      in (n, if 0 < jc_stamp cmd then Some (micros (ros_now - jc_stamp cmd)) else None))"

text \<open>Without interference the two halves are the callback.\<close>

lemma command_callback_halves:
  assumes "accepted n = None"
  shows "fst (joint_cmd_msg_callback now ros_now cmd n) =
    (case accepted (begin_command cmd n) of None \<Rightarrow> begin_command cmd n
     | Some cmd' \<Rightarrow> end_command now cmd' (begin_command cmd n))"
  using assms
  by (auto simp: joint_cmd_msg_callback_def begin_command_def end_command_def accept_command_def store_command_def Let_def)

end
