(* ===== verification/NodeCycle.thy ===== *)
theory NodeCycle
  imports NodeLifecycle
begin

text \<open>
  The cycle of a communication thread (\<open>can_cycle_callback\<close> of \<open>cubemars_hardware_node.cpp\<close>):
  commands from the latest message, one exchange on the bus, the error policy, the filters, and the
  states that are published. \<open>None\<close> is undefined behaviour: an index past the end of a vector or a
  median of NaN.
\<close>

section \<open>Commands\<close>

text \<open>The Stribeck model, in \<open>double\<close>.\<close>

definition friction_torque :: "env \<Rightarrow> FrictionParameters \<Rightarrow> fp \<Rightarrow> fp" where
  "friction_torque E fr vel =
     (let sign_vel = ev_tanh E (fp_mul b64 (k_a fr) vel);
          decay = ev_exp E (fp_neg (ev_pow E (fp_div b64 (fp_abs vel) (v_s fr)) (exponent_k fr)))
      in fp_add b64
           (fp_add b64 (fp_mul b64 (tau_c fr) sign_vel)
             (fp_mul b64 (fp_mul b64 (fp_sub b64 (tau_s fr) (tau_c fr)) decay) sign_vel))
           (fp_mul b64 (viscous_b fr) vel))"

text \<open>The command of a joint as the message has it; the members of \<open>joint_cmd_t\<close> are \<open>float\<close>.\<close>

definition message_command :: "JointCommand \<Rightarrow> JointParameters \<Rightarrow> joint_cmd option" where
  "message_command cmd p =
     (let idx = unat (msg_idx p)
      in if idx < length (jc_kd cmd) \<and> idx < length (jc_kp cmd) \<and> idx < length (jc_position cmd) \<and>
            idx < length (jc_velocity cmd) \<and> idx < length (jc_effort cmd)
         then Some \<lparr>cmd_pos = fp_conv b32 (fp_sub b64 (jc_position cmd ! idx) (zero_position p)),
                    cmd_vel = fp_conv b32 (jc_velocity cmd ! idx),
                    cmd_torque = fp_conv b32 (jc_effort cmd ! idx),
                    cmd_kp = fp_conv b32 (jc_kp cmd ! idx), cmd_kd = fp_conv b32 (jc_kd cmd ! idx)\<rparr>
         else None)"

text \<open>Friction compensation and transmission, which only an active node applies.\<close>

definition to_motor :: "env \<Rightarrow> JointParameters \<Rightarrow> joint_state \<Rightarrow> joint_cmd \<Rightarrow> joint_cmd" where
  "to_motor E p st cmd =
     (let torque = fp_conv b32 (fp_add b64 (cmd_torque cmd) (friction_torque E (friction_parameters p) (st_vel st)))
      in cmd\<lparr>cmd_pos := fp_conv b32 (fp_mul b64 (cmd_pos cmd) (transmission_ratio p)),
             cmd_vel := fp_conv b32 (fp_mul b64 (cmd_vel cmd) (transmission_ratio p)),
             cmd_torque := fp_conv b32 (fp_mul b64 torque (fp_div b64 (Fin 1) (transmission_ratio p)))\<rparr>)"

definition cycle_command :: "env \<Rightarrow> node \<Rightarrow> nat \<Rightarrow> JointCommand \<Rightarrow> nat \<Rightarrow> joint_cmd option" where
  "cycle_command E n k cmd i =
     (let params = joint_parameters_per_can_interface n ! k; states = joint_states_per_can_interface n ! k
      in if length params \<le> i \<or> length states \<le> i then None
         else map_option (if current_state n = ACTIVE then to_motor E (params ! i) (states ! i) else id)
                (message_command cmd (params ! i)))"

section \<open>Error policy\<close>

text \<open>Faults of the motors and failures of the communication, joint by joint.\<close>

fun check_status :: "env \<Rightarrow> joint_state list \<Rightarrow> node \<Rightarrow> u32 \<times> node" where
  "check_status E [] n = (0, n)"
| "check_status E (st # sts) n =
     (let n = (if device_status st \<noteq> NO_FAULT \<and> current_state n = ACTIVE \<and> damping_on_motor_error n
               then deactivate E n else n);
          (errors, n) = check_status E sts n
      in (if communication_status st \<noteq> SUCCESS then errors + 1 else errors, n))"

text \<open>An active node falls back to damping; an inactive one asks the supervisor for a clean-up.\<close>

definition give_up :: "env \<Rightarrow> node \<Rightarrow> node" where
  "give_up E n = (if current_state n = ACTIVE then deactivate E n else n\<lparr>cleanup_requested := True\<rparr>)"

text \<open>The counter of an interface; the result says whether the cycle goes on.\<close>

definition count_errors :: "env \<Rightarrow> nat \<Rightarrow> u32 \<Rightarrow> node \<Rightarrow> bool \<times> node" where
  "count_errors E k errors n =
     (let cnt = num_can_errors_per_interfaces n ! k
      in if errors = 0 \<and> 0 < cnt
         then (True, n\<lparr>num_can_errors_per_interfaces := (num_can_errors_per_interfaces n)[k := 0]\<rparr>)
         else if max_can_errors_before_motor_shutdown n \<le> cnt + errors then (False, give_up E n)
         else (True, n\<lparr>num_can_errors_per_interfaces := (num_can_errors_per_interfaces n)[k := cnt + errors]\<rparr>))"

section \<open>Filters\<close>

text \<open>Outliers of the position; a joint that did not answer feeds no stale value to its window.\<close>

definition median_joint ::
  "JointParameters \<Rightarrow> joint_state \<times> fp median_filter \<Rightarrow> (joint_state \<times> fp median_filter) option" where
  "median_joint p = (\<lambda>(st, med).
     if 1 < unat (pos_median_filter_size p) \<and> communication_status st = SUCCESS
     then (case med_update double_num (st_pos st) med of
             (None, _) \<Rightarrow> None
           | (Some v, med') \<Rightarrow> Some (st\<lparr>st_pos := fp_conv b32 v\<rparr>, med'))
     else Some (st, med))"

definition seconds_between :: "int \<Rightarrow> int \<Rightarrow> fp" where
  "seconds_between t0 t1 = fp_div b64 (fp_of_int b64 (t1 - t0)) (fp_of_int b64 1000000000)"

definition velocity_joint ::
  "JointParameters \<Rightarrow> joint_state \<times> fp moving_average \<times> fp alpha_beta \<times> int
     \<Rightarrow> (joint_state \<times> fp moving_average \<times> fp alpha_beta \<times> int) option" where
  "velocity_joint p = (\<lambda>(st, ma, ab, last_ns).
     case vel_filter_type p of
       MOVING_AVERAGE \<Rightarrow>
         (if 1 < unat (vel_filter_size p)
          then (case ma_update double_num (st_vel st) ma of
                  None \<Rightarrow> None
                | Some (v, ma') \<Rightarrow> Some (st\<lparr>st_vel := fp_conv b32 v\<rparr>, ma', ab, last_ns))
          else Some (st, ma, ab, last_ns))
     | ALPHA_BETA \<Rightarrow>
         (if communication_status st = SUCCESS
          then let rx_ns = rx_timestamp_ns st;
                   joint_dt = (if last_ns = 0 then Fin 0 else seconds_between last_ns rx_ns);
                   ab = ab_update double_num (st_pos st) joint_dt ab
               in Some (st\<lparr>st_pos := fp_conv b32 (ab_x ab), st_vel := fp_conv b32 (ab_v ab)\<rparr>, ma, ab, rx_ns)
          else Some (st, ma, ab, last_ns))
     | NONE \<Rightarrow> Some (st, ma, ab, last_ns))"

text \<open>The loops over the joints of an interface.\<close>

definition median_stage :: "nat \<Rightarrow> node \<Rightarrow> node option" where
  "median_stage k n =
     (let states = joint_states_per_can_interface n ! k;
          meds = joint_pos_median_filters_per_can_interface n ! k
      in case those (map (\<lambda>i. median_joint (joint_parameters_per_can_interface n ! k ! i) (states ! i, meds ! i))
                  [0..<length states]) of
           None \<Rightarrow> None
         | Some xs \<Rightarrow> Some (n
             \<lparr>joint_states_per_can_interface := (joint_states_per_can_interface n)[k := map fst xs],
              joint_pos_median_filters_per_can_interface :=
                (joint_pos_median_filters_per_can_interface n)[k := map snd xs]\<rparr>))"

definition velocity_stage :: "nat \<Rightarrow> node \<Rightarrow> node option" where
  "velocity_stage k n =
     (let states = joint_states_per_can_interface n ! k; mas = joint_vel_filters_per_can_interface n ! k;
          abs = joint_ab_filters_per_can_interface n ! k; lasts = last_joint_rx_ns_per_can_interface n ! k
      in case those (map (\<lambda>i. velocity_joint (joint_parameters_per_can_interface n ! k ! i)
                    (states ! i, mas ! i, abs ! i, lasts ! i)) [0..<length states]) of
           None \<Rightarrow> None
         | Some xs \<Rightarrow> Some (n
             \<lparr>joint_states_per_can_interface := (joint_states_per_can_interface n)[k := map fst xs],
              joint_vel_filters_per_can_interface :=
                (joint_vel_filters_per_can_interface n)[k := map (\<lambda>x. fst (snd x)) xs],
              joint_ab_filters_per_can_interface :=
                (joint_ab_filters_per_can_interface n)[k := map (\<lambda>x. fst (snd (snd x))) xs],
              last_joint_rx_ns_per_can_interface :=
                (last_joint_rx_ns_per_can_interface n)[k := map (\<lambda>x. snd (snd (snd x))) xs]\<rparr>))"

section \<open>States\<close>

text \<open>Position and velocity before any filter, in the units of the joint; NaN without a reply.\<close>

definition publish_unfiltered :: "JointParameters \<Rightarrow> joint_state \<Rightarrow> fp \<times> fp \<Rightarrow> diagnostics \<Rightarrow> diagnostics option" where
  "publish_unfiltered p st snapshot d =
     (let idx = unat (msg_idx p); fresh = communication_status st = SUCCESS; ratio = transmission_ratio p;
          pos = fp_conv b32 (fp_add b64 (fp_div b64 (fst snapshot) ratio) (zero_position p));
          vel = fp_conv b32 (fp_div b64 (snd snapshot) ratio)
      in if idx < length (unfiltered_velocity d) \<and> idx < length (unfiltered_position d)
         then Some (d\<lparr>unfiltered_velocity := (unfiltered_velocity d)[idx := if fresh then vel else NaN],
                      unfiltered_position := (unfiltered_position d)[idx := if fresh then pos else NaN]\<rparr>)
         else None)"

text \<open>From the units of the motor to those of the joint.\<close>

definition to_joint :: "JointParameters \<Rightarrow> joint_state \<Rightarrow> joint_state" where
  "to_joint p st =
     (let r = fp_div b64 (Fin 1) (transmission_ratio p)
      in st\<lparr>st_pos := fp_conv b32 (fp_mul b64 (st_pos st) r), st_vel := fp_conv b32 (fp_mul b64 (st_vel st) r),
            st_torque := fp_conv b32 (fp_mul b64 (st_torque st) (transmission_ratio p))\<rparr>)"

definition transmission_stage :: "nat \<Rightarrow> node \<Rightarrow> node" where
  "transmission_stage k n =
     n\<lparr>joint_states_per_can_interface := (joint_states_per_can_interface n)
         [k := map2 to_joint (joint_parameters_per_can_interface n ! k) (joint_states_per_can_interface n ! k)]\<rparr>"

text \<open>The vectors that the write-back of a joint indexes.\<close>

definition report_in_range :: "nat \<Rightarrow> joint_state \<Rightarrow> node \<Rightarrow> bool" where
  "report_in_range idx st n \<longleftrightarrow>
     (let fresh = communication_status st = SUCCESS; hw = 0 < rx_hw_timestamp_ns st; d = diag n
      in idx < length (js_position (joint_state_msg n)) \<and> idx < length (js_velocity (joint_state_msg n)) \<and>
         idx < length (js_effort (joint_state_msg n)) \<and> idx < length (joint_temp d) \<and>
         idx < length (joint_motor_reply_latency d) \<and> idx < length (joint_rx_delivery d) \<and>
         idx < length (joint_rx_hw_timestamp d) \<and> idx < length (joint_cmd_to_bus_latency d) \<and>
         idx < length (joint_reply_after_tx d) \<and> idx < length (joint_enqueue_to_wire d) \<and>
         (fresh \<longrightarrow> idx < length (joint_rx_ns n)) \<and>
         (fresh \<and> hw \<and> 0 < rx_timestamp_ns st \<longrightarrow> idx < length (joint_rx_delivery_floor_ns n)) \<and>
         (fresh \<and> hw \<longrightarrow> idx < length (joint_rx_hw_base_ns n)))"

text \<open>
  The latencies of a joint. The delay of the kernel is the residual over the least difference so
  far, the card's clock counts from the first reply.
\<close>

definition report_latencies :: "nat \<Rightarrow> int \<Rightarrow> int \<Rightarrow> joint_state \<Rightarrow> node \<Rightarrow> node" where
  "report_latencies idx cmd_ns tx_fill_end st n =
     (let fresh = communication_status st = SUCCESS; d = diag n;
          tx = send_timestamp_ns st; rx = rx_timestamp_ns st; hw = rx_hw_timestamp_ns st;
          offset_ns = rx - hw; delivered = fresh \<and> 0 < rx \<and> 0 < hw;
          floors = (if delivered
                    then (joint_rx_delivery_floor_ns n)[idx := min offset_ns (joint_rx_delivery_floor_ns n ! idx)]
                    else joint_rx_delivery_floor_ns n);
          bases = (if fresh \<and> 0 < hw \<and> joint_rx_hw_base_ns n ! idx = 0
                   then (joint_rx_hw_base_ns n)[idx := hw] else joint_rx_hw_base_ns n)
      in n\<lparr>joint_rx_delivery_floor_ns := floors, joint_rx_hw_base_ns := bases,
           diag := d
             \<lparr>joint_motor_reply_latency :=
                (joint_motor_reply_latency d)[idx := if fresh \<and> 0 < tx \<and> tx \<le> rx then micros (rx - tx) else NaN],
              joint_rx_delivery :=
                (joint_rx_delivery d)[idx := if delivered then micros (offset_ns - floors ! idx) else NaN],
              joint_rx_hw_timestamp :=
                (joint_rx_hw_timestamp d)[idx := if fresh \<and> 0 < hw then micros (hw - bases ! idx) else NaN],
              joint_cmd_to_bus_latency :=
                (joint_cmd_to_bus_latency d)[idx := if 0 < tx \<and> 0 < cmd_ns then micros (tx - cmd_ns) else NaN],
              joint_reply_after_tx :=
                (joint_reply_after_tx d)[idx :=
                   if 0 < dequeue_timestamp_ns st \<and> 0 < tx_fill_end
                   then micros (dequeue_timestamp_ns st - tx_fill_end) else NaN],
              joint_enqueue_to_wire :=
                (joint_enqueue_to_wire d)[idx :=
                   if 0 < tx \<and> 0 < enqueue_timestamp_ns st
                   then micros (tx - enqueue_timestamp_ns st) else NaN]\<rparr>\<rparr>)"

text \<open>One joint of the write-back: the message keeps the time of the last reply on a failure.\<close>

definition report_joint :: "env \<Rightarrow> int \<Rightarrow> int \<Rightarrow> JointParameters \<Rightarrow> joint_state \<Rightarrow> node \<Rightarrow> node option" where
  "report_joint E cmd_ns tx_fill_end p st n =
     (let idx = unat (msg_idx p); m = joint_state_msg n; d = diag n
      in if \<not> report_in_range idx st n then None
         else Some (report_latencies idx cmd_ns tx_fill_end st
           (n\<lparr>joint_state_msg :=
                \<lparr>js_position = (js_position m)[idx := ev_store E (fp_add b64 (st_pos st) (zero_position p))],
                 js_velocity = (js_velocity m)[idx := ev_store E (st_vel st)],
                 js_effort = (js_effort m)[idx := ev_store E (st_torque st)]\<rparr>,
              diag := d\<lparr>joint_temp := (joint_temp d)[idx := st_temp st]\<rparr>,
              joint_rx_ns := (if communication_status st = SUCCESS
                              then (joint_rx_ns n)[idx := rx_timestamp_ns st] else joint_rx_ns n)\<rparr>)))"

text \<open>A loop over joints that stops at an index out of range.\<close>

fun each_joint :: "('a \<Rightarrow> 'b \<Rightarrow> 'b option) \<Rightarrow> 'a list \<Rightarrow> 'b \<Rightarrow> 'b option" where
  "each_joint f [] b = Some b"
| "each_joint f (x # xs) b = (case f x b of None \<Rightarrow> None | Some b' \<Rightarrow> each_joint f xs b')"

definition unfiltered_stage :: "nat \<Rightarrow> (fp \<times> fp) list \<Rightarrow> node \<Rightarrow> node option" where
  "unfiltered_stage k snapshots n =
     map_option (\<lambda>d. n\<lparr>diag := d\<rparr>)
       (each_joint (\<lambda>(p, st, snapshot). publish_unfiltered p st snapshot)
         (zip (joint_parameters_per_can_interface n ! k) (zip (joint_states_per_can_interface n ! k) snapshots))
         (diag n))"

definition write_back :: "env \<Rightarrow> nat \<Rightarrow> int \<Rightarrow> node \<Rightarrow> node option" where
  "write_back E k tx_fill_end n =
     each_joint (\<lambda>(p, st). report_joint E (cmd_rx_ns n) tx_fill_end p st)
       (zip (joint_parameters_per_can_interface n ! k) (joint_states_per_can_interface n ! k)) n"

text \<open>The limits are compared with the positions as the message holds them.\<close>

definition violates_limits :: "nat \<Rightarrow> node \<Rightarrow> bool" where
  "violates_limits k n \<longleftrightarrow>
     (\<exists>p \<in> set (joint_parameters_per_can_interface n ! k).
        let x = js_position (joint_state_msg n) ! unat (msg_idx p)
        in fp_lt x (pos_limit_min p) \<or> fp_lt (pos_limit_max p) x)"


definition check_limits :: "env \<Rightarrow> nat \<Rightarrow> node \<Rightarrow> bool \<times> node" where
  "check_limits E k n =
     (if current_state n = ACTIVE \<and> violates_limits k n then (False, deactivate E n) else (True, n))"

section \<open>The cycle\<close>

text \<open>What the cycle reads of the clocks: the time of the node, and its own start and end.\<close>

record cycle_clock =
  ros_now_ns :: int
  cycle_entry_ns :: int
  cycle_end_ns :: int

text \<open>The diagnostics of an interface.\<close>

definition diagnostics_fit :: "nat \<Rightarrow> node \<Rightarrow> bool" where
  "diagnostics_fit k n \<longleftrightarrow>
     (let d = diag n
      in k < length (can_interface_frequency d) \<and> k < length (can_tx_fill_duration d) \<and>
         k < length (can_rx_duration d) \<and> k < length (can_processing d) \<and>
         k < length (can_intercycle_gap d) \<and> k < length (last_cycle_end_ns_per_can_interface n))"

definition cycle_diagnostics :: "nat \<Rightarrow> cycle_clock \<Rightarrow> fp \<Rightarrow> driver \<Rightarrow> node \<Rightarrow> node option" where
  "cycle_diagnostics k c frequency drv n =
     (if \<not> diagnostics_fit k n then None
      else let tx_ns = tx_fill_duration_ns drv; rx_ns = rx_duration_ns drv; d = diag n;
               prev_end_ns = last_cycle_end_ns_per_can_interface n ! k
      in Some (n\<lparr>last_cycle_end_ns_per_can_interface :=
                    (last_cycle_end_ns_per_can_interface n)[k := cycle_end_ns c],
                  diag := d
                    \<lparr>can_interface_frequency := (can_interface_frequency d)[k := fp_conv b32 frequency],
                     can_tx_fill_duration := (can_tx_fill_duration d)[k := micros tx_ns],
                     can_rx_duration := (can_rx_duration d)[k := micros rx_ns],
                     can_processing :=
                       (can_processing d)[k := micros (cycle_end_ns c - cycle_entry_ns c - tx_ns - rx_ns)],
                     can_intercycle_gap :=
                       (can_intercycle_gap d)[k :=
                          if 0 < prev_end_ns then micros (cycle_entry_ns c - prev_end_ns) else NaN]\<rparr>\<rparr>))"

text \<open>
  The vectors of an interface, which the loops of the cycle index together; a vector that is
  missing or shorter than the others is undefined behaviour.
\<close>

definition aligned :: "nat \<Rightarrow> node \<Rightarrow> bool" where
  "aligned k n \<longleftrightarrow>
     k < length (joint_commands_per_can_interface n) \<and> k < length (joint_states_per_can_interface n) \<and>
     k < length (joint_parameters_per_can_interface n) \<and> k < length (last_can_cycle_times n) \<and>
     k < length (comm_threads n) \<and> k < length (can_interfaces n) \<and>
     k < length (num_can_errors_per_interfaces n) \<and> k < length (joint_vel_filters_per_can_interface n) \<and>
     k < length (joint_ab_filters_per_can_interface n) \<and>
     k < length (joint_pos_median_filters_per_can_interface n) \<and>
     k < length (last_joint_rx_ns_per_can_interface n) \<and>
     (let m = length (joint_commands_per_can_interface n ! k)
      in length (joint_states_per_can_interface n ! k) = m \<and>
         length (joint_parameters_per_can_interface n ! k) = m \<and>
         length (joint_vel_filters_per_can_interface n ! k) = m \<and>
         length (joint_ab_filters_per_can_interface n ! k) = m \<and>
         length (joint_pos_median_filters_per_can_interface n ! k) = m \<and>
         length (last_joint_rx_ns_per_can_interface n ! k) = m)"

text \<open>Filters, publication and limits: the part of the cycle that a failure skips.\<close>

definition process_replies :: "env \<Rightarrow> cycle_clock \<Rightarrow> nat \<Rightarrow> fp \<Rightarrow> driver \<Rightarrow> node \<Rightarrow> node option" where
  "process_replies E c k frequency drv n =
     (let snapshots = map (\<lambda>st. (st_pos st, st_vel st)) (joint_states_per_can_interface n ! k)
      in case median_stage k n of
           None \<Rightarrow> None
         | Some n \<Rightarrow>
       (case velocity_stage k n of
          None \<Rightarrow> None
        | Some n \<Rightarrow>
       (case unfiltered_stage k snapshots n of
          None \<Rightarrow> None
        | Some n \<Rightarrow>
       (let n = transmission_stage k n
        in if \<not> comm_threads n ! k then Some n
           else case write_back E k (tx_fill_end_ns drv) n of
                  None \<Rightarrow> None
                | Some n \<Rightarrow>
       (let (go_on, n) = check_limits E k n
        in if \<not> go_on then Some n else cycle_diagnostics k c frequency drv n)))))"

text \<open>After the exchange: the status of the motors, the error counter, the replies.\<close>

definition after_exchange :: "env \<Rightarrow> cycle_clock \<Rightarrow> nat \<Rightarrow> fp \<Rightarrow> driver \<Rightarrow> node \<Rightarrow> node option" where
  "after_exchange E c k frequency drv n =
     (let (errors, n) = check_status E (joint_states_per_can_interface n ! k) n;
          (go_on, n) = count_errors E k errors n
      in if \<not> go_on then Some n else process_replies E c k frequency drv n)"

text \<open>
  The exchange with the latest command. An exception of the driver ends the cycle; a joint that
  fails says so in its state.
\<close>

definition exchange :: "env \<Rightarrow> cycle_clock \<Rightarrow> nat \<Rightarrow> fp \<Rightarrow> JointCommand \<Rightarrow> node \<Rightarrow> node option" where
  "exchange E c k frequency cmd n =
     (case those (map (cycle_command E n k cmd) [0..<length (joint_commands_per_can_interface n ! k)]) of
        None \<Rightarrow> None
      | Some cmds \<Rightarrow>
          (case can_interfaces n ! k of
             None \<Rightarrow> None
           | Some drv \<Rightarrow>
               (let (r, drv) = send_and_receive cmds (joint_states_per_can_interface n ! k) drv;
                    n = n\<lparr>joint_commands_per_can_interface := (joint_commands_per_can_interface n)[k := cmds],
                          can_interfaces := (can_interfaces n)[k := Some drv]\<rparr>
                in case r of
                     UB \<Rightarrow> None
                   | Throw _ \<Rightarrow> Some (give_up E n)
                   | Ok states \<Rightarrow>
                       after_exchange E c k frequency drv
                         (n\<lparr>joint_states_per_can_interface :=
                              (joint_states_per_can_interface n)[k := states]\<rparr>))))"

definition can_cycle_callback :: "env \<Rightarrow> cycle_clock \<Rightarrow> nat \<Rightarrow> node \<Rightarrow> node option" where
  "can_cycle_callback E c k n =
     (if current_state n \<noteq> ACTIVE \<and> current_state n \<noteq> INACTIVE then Some n
      else if \<not> aligned k n then None
      else let dt = seconds_between (last_can_cycle_times n ! k) (ros_now_ns c);
               n = n\<lparr>last_can_cycle_times := (last_can_cycle_times n)[k := ros_now_ns c]\<rparr>
      in if \<not> comm_threads n ! k then Some n
         else case joint_cmd_ptr n of
                None \<Rightarrow> Some n
              | Some cmd \<Rightarrow> exchange E c k (fp_div b64 (Fin 1) dt) cmd n)"

text \<open>
  The thread of an interface runs the cycle until it is told to stop: one reading of the clocks for
  each iteration, the flag tested before each.
\<close>

fun comm_loop :: "env \<Rightarrow> nat \<Rightarrow> cycle_clock list \<Rightarrow> node \<Rightarrow> node option" where
  "comm_loop E k [] n = Some n"
| "comm_loop E k (c # cs) n =
     (if \<not> comm_threads n ! k then Some n
      else case can_cycle_callback E c k n of None \<Rightarrow> None | Some n \<Rightarrow> comm_loop E k cs n)"

section \<open>Publication\<close>

text \<open>
  The published stamp is the oldest of the replies in the message, in seconds and nanoseconds; a
  message without a reply carries the current time.
\<close>

fun oldest_rx :: "int \<Rightarrow> int list \<Rightarrow> int" where
  "oldest_rx oldest [] = oldest"
| "oldest_rx oldest (rx # rxs) =
     oldest_rx (if 0 < rx \<and> (oldest = 0 \<or> rx < oldest) then rx else oldest) rxs"

definition stamp_of :: "int \<Rightarrow> int \<times> int" where
  "stamp_of ns = (to_int32 (ns div 1000000000), ns mod 1000000000)"

record publication =
  pub_stamp :: "int \<times> int"
  pub_state :: JointState
  pub_diag :: diagnostics
  pub_ros2 :: "JointState option"

definition joint_state_publish_callback :: "int \<Rightarrow> int \<Rightarrow> node \<Rightarrow> (publication \<times> node) option" where
  "joint_state_publish_callback pub_now_ns now_ns n =
     (let ages = map (\<lambda>rx. if 0 < rx then micros (pub_now_ns - rx) else NaN) (joint_rx_ns n);
          m = length (joint_rx_ns n); old = oldest_rx 0 (joint_rx_ns n)
      in if length (joint_state_age (diag n)) < m then None
         else let n = n\<lparr>diag := diag n\<lparr>joint_state_age := ages @ drop m (joint_state_age (diag n))\<rparr>\<rparr>
         in Some (\<lparr>pub_stamp = stamp_of (if 0 < old then old else now_ns), pub_state = joint_state_msg n,
                   pub_diag = diag n,
                   pub_ros2 = (if publish_ros2_joint_state n then Some (joint_state_msg n) else None)\<rparr>, n))"

text \<open>The name of the classes of an error frame.\<close>

definition canErrorFrameToString :: "u32 \<Rightarrow> string" where
  "canErrorFrameToString i =
     (let s = concat (map (\<lambda>(b, t). if bit i b then t else [])
        [(0, ''TX_TIMEOUT ''), (1, ''LOSTARB ''), (2, ''CTRL ''), (3, ''PROT ''), (4, ''TRX ''), (5, ''ACK ''),
         (6, ''BUSOFF ''), (7, ''BUSERROR ''), (8, ''RESTARTED '')])
      in if s = [] then ''(unknown)'' else s)"

end
