(* ===== verification/NodeConfigure.thy ===== *)
theory NodeConfigure
  imports NodeLifecycle "HOL-Library.Char_ord" "HOL-Library.List_Lexorder"
begin

text \<open>
  The configuration of the hardware node (\<open>on_configure\<close> of \<open>cubemars_hardware_node.cpp\<close>): the
  parameters are read and validated joint by joint, the vectors are sized and filled, the
  interfaces are opened, the motors enabled and the communication threads started. The parameter
  server is an argument: the value it has for a name, if any.
\<close>

section \<open>Parameters\<close>

text \<open>
  A parameter without a value throws when it is read, and so does one of another type. Exceptions
  that \<open>on_configure\<close> does not catch reach the client library, which treats them as the result
  \<open>ERROR\<close>, so all of them end alike.
\<close>

type_synonym params = "string \<Rightarrow> param_value option"

text \<open>A declaration with a default leaves a value that is there alone.\<close>

definition declared :: "params \<Rightarrow> string \<Rightarrow> param_value \<Rightarrow> param_value" where
  "declared P name v = (case P name of Some x \<Rightarrow> x | None \<Rightarrow> v)"

fun as_bool :: "param_value \<Rightarrow> bool option" where
  "as_bool (PBool b) = Some b" | "as_bool _ = None"

fun as_int :: "param_value \<Rightarrow> int option" where
  "as_int (PInt i) = Some i" | "as_int _ = None"

fun as_double :: "param_value \<Rightarrow> fp option" where
  "as_double (PDouble x) = Some x" | "as_double _ = None"

fun as_string :: "param_value \<Rightarrow> string option" where
  "as_string (PString s) = Some s" | "as_string _ = None"

fun as_string_array :: "param_value \<Rightarrow> string list option" where
  "as_string_array (PStringArray ss) = Some ss" | "as_string_array _ = None"

definition max_double :: fp where
  "max_double = Fin ((2 - 1 / 2 ^ 52) * 2 ^ 1023)"

section \<open>Steps that may leave the callback\<close>

text \<open>The left value is what the callback returns.\<close>

definition andThen :: "'e + 'a \<Rightarrow> ('a \<Rightarrow> 'e + 'b) \<Rightarrow> 'e + 'b" where
  "andThen r f = (case r of Inl e \<Rightarrow> Inl e | Inr x \<Rightarrow> f x)"

definition need :: "'a option \<Rightarrow> lc_return + 'a" where
  "need r = (case r of None \<Rightarrow> Inl LC_ERROR | Some x \<Rightarrow> Inr x)"

text \<open>A member that takes the value of a parameter.\<close>

definition member :: "'a option \<Rightarrow> ('a \<Rightarrow> node \<Rightarrow> node) \<Rightarrow> node \<Rightarrow> (lc_return \<times> node) + node" where
  "member r f n = (case r of None \<Rightarrow> Inl (LC_ERROR, n) | Some x \<Rightarrow> Inr (f x n))"

definition read_globals :: "params \<Rightarrow> node \<Rightarrow> (lc_return \<times> node) + string list \<times> node" where
  "read_globals P n =
     andThen (member (as_bool (declared P ''damping_on_motor_error'' (PBool True)))
       (\<lambda>b. damping_on_motor_error_update (\<lambda>_. b)) n) (\<lambda>n.
     andThen (member (as_int (declared P ''max_can_errors_before_motor_shutdown'' (PInt 1)))
       (\<lambda>v. max_can_errors_before_motor_shutdown_update (\<lambda>_. to_unsigned v)) n) (\<lambda>n.
     andThen (member (as_bool (declared P ''enable_tx_timestamping'' (PBool True)))
       (\<lambda>b. node_tx_timestamping_update (\<lambda>_. b)) n) (\<lambda>n.
     andThen (member (as_bool (declared P ''enable_can_error_frames'' (PBool False)))
       (\<lambda>b. node_error_frames_update (\<lambda>_. b)) n) (\<lambda>n.
     case Option.bind (P ''joints'') as_string_array of
       None \<Rightarrow> Inl (LC_ERROR, n)
     | Some joint_names \<Rightarrow>
     andThen (member (Option.bind (P ''default_damping_KD'') as_double)
       (\<lambda>x. default_damping_KD_update (\<lambda>_. x)) n) (\<lambda>n.
     andThen (member (as_int (declared P ''frequency'' (PInt 1000))) (\<lambda>_ n. n) n) (\<lambda>n.
     andThen (member (as_int (declared P ''watchdog_frequency'' (PInt 100))) (\<lambda>_ n. n) n) (\<lambda>n.
     andThen (member (as_bool (declared P ''publish_ros2_joint_state'' (PBool False)))
       (\<lambda>b. publish_ros2_joint_state_update (\<lambda>_. b)) n) (\<lambda>n.
     Inr (joint_names, n)))))))))"

section \<open>Validation of the joints\<close>

text \<open>The parameter of a joint; the default is absent where the declaration gives only a type.\<close>

definition of_joint :: "params \<Rightarrow> (param_value \<Rightarrow> 'a option) \<Rightarrow> string \<Rightarrow> string \<Rightarrow> 'a option \<Rightarrow> lc_return + 'a" where
  "of_joint P as joint field v =
     need (case P (prefix_of_joints @ joint @ ''.'' @ field) of None \<Rightarrow> v | Some x \<Rightarrow> as x)"

text \<open>
  What the loop has seen: the interfaces, the message indices as inserted into a set of \<open>int\<close>, the
  identifiers on each interface, and the greatest message index.
\<close>

record seen =
  seen_interfaces :: "string list"
  seen_msg_idxs :: "int list"
  seen_can_ids :: "(string \<times> int) list"
  max_msg_idx :: u32

definition validate_joint :: "params \<Rightarrow> nat \<times> string \<Rightarrow> seen \<Rightarrow> lc_return + seen" where
  "validate_joint P ij v =
     (let joint = snd ij in
      andThen (of_joint P as_string joint ''can_interface'' None) (\<lambda>iface.
      andThen (of_joint P as_int joint ''msg_idx'' (Some (int (fst ij)))) (\<lambda>idx.
      if to_int32 idx \<in> set (seen_msg_idxs v) then Inl LC_FAILURE
      else if idx < 0 then Inl LC_FAILURE
      else andThen (of_joint P as_int joint ''can_id'' None) (\<lambda>cid.
      if (iface, to_int32 cid) \<in> set (seen_can_ids v) then Inl LC_FAILURE
      else andThen (of_joint P as_string joint ''motor_type'' None) (\<lambda>_.
      andThen (of_joint P as_double joint ''transmission_ratio'' (Some (Fin 1))) (\<lambda>ratio.
      if fp_le ratio (Fin 0) then Inl LC_FAILURE
      else Inr \<lparr>seen_interfaces = seen_interfaces v @ [iface], seen_msg_idxs = seen_msg_idxs v @ [to_int32 idx],
                seen_can_ids = seen_can_ids v @ [(iface, to_int32 cid)],
                max_msg_idx = (if uint (max_msg_idx v) < idx then to_unsigned idx else max_msg_idx v)\<rparr>))))))"

fun validate_joints :: "params \<Rightarrow> (nat \<times> string) list \<Rightarrow> seen \<Rightarrow> lc_return + seen" where
  "validate_joints P [] v = Inr v"
| "validate_joints P (ij # ijs) v = andThen (validate_joint P ij v) (validate_joints P ijs)"

definition nothing_seen :: seen where
  "nothing_seen = \<lparr>seen_interfaces = [], seen_msg_idxs = [], seen_can_ids = [], max_msg_idx = 0\<rparr>"

text \<open>A \<open>std::set\<close> of names, in its order.\<close>

definition interface_names :: "seen \<Rightarrow> string list" where
  "interface_names v = sort (remdups (seen_interfaces v))"

section \<open>Vectors\<close>

text \<open>\<open>assign\<close> replaces the elements, \<open>resize\<close> keeps those that are there.\<close>

definition size_vectors :: "int \<Rightarrow> nat \<Rightarrow> nat \<Rightarrow> nat \<Rightarrow> node \<Rightarrow> node" where
  "size_vectors now joint_count interfaces len n =
     n\<lparr>joint_msg_length := len, num_joints := joint_count,
       joint_commands_per_can_interface := resize interfaces [] (joint_commands_per_can_interface n),
       joint_states_per_can_interface := resize interfaces [] (joint_states_per_can_interface n),
       joint_parameters_per_can_interface := resize interfaces [] (joint_parameters_per_can_interface n),
       joint_vel_filters_per_can_interface := resize interfaces [] (joint_vel_filters_per_can_interface n),
       joint_ab_filters_per_can_interface := resize interfaces [] (joint_ab_filters_per_can_interface n),
       joint_pos_median_filters_per_can_interface := resize interfaces [] (joint_pos_median_filters_per_can_interface n),
       last_joint_rx_ns_per_can_interface := resize interfaces [] (last_joint_rx_ns_per_can_interface n),
       num_can_errors_per_interfaces := resize interfaces 0 (num_can_errors_per_interfaces n),
       can_interfaces := resize interfaces None (can_interfaces n),
       last_can_cycle_times := resize interfaces now (last_can_cycle_times n),
       last_cycle_end_ns_per_can_interface := resize interfaces 0 (last_cycle_end_ns_per_can_interface n),
       comm_threads := replicate interfaces False,
       joint_cmd_ptr := Some (passive_command len (Fin 0)),
       joint_state_msg :=
         \<lparr>js_position = resize len (Fin 0) (js_position (joint_state_msg n)),
          js_velocity = resize len (Fin 0) (js_velocity (joint_state_msg n)),
          js_effort = resize len (Fin 0) (js_effort (joint_state_msg n))\<rparr>,
       joint_rx_ns := replicate len 0, joint_rx_delivery_floor_ns := replicate len (2 ^ 63 - 1),
       joint_rx_hw_base_ns := replicate len 0,
       diag := (let d = diag n in
         \<lparr>joint_temp = resize len (Fin 0) (joint_temp d), joint_state_age = resize len NaN (joint_state_age d),
          joint_rx_delivery = resize len NaN (joint_rx_delivery d),
          joint_rx_hw_timestamp = resize len NaN (joint_rx_hw_timestamp d),
          joint_reply_after_tx = resize len NaN (joint_reply_after_tx d),
          joint_cmd_to_bus_latency = resize len NaN (joint_cmd_to_bus_latency d),
          joint_motor_reply_latency = resize len NaN (joint_motor_reply_latency d),
          joint_enqueue_to_wire = resize len NaN (joint_enqueue_to_wire d),
          unfiltered_velocity = resize len NaN (unfiltered_velocity d),
          unfiltered_position = resize len NaN (unfiltered_position d),
          can_interface_frequency = resize interfaces (Fin 0) (can_interface_frequency d),
          can_tx_fill_duration = resize interfaces NaN (can_tx_fill_duration d),
          can_rx_duration = resize interfaces NaN (can_rx_duration d),
          can_processing = resize interfaces NaN (can_processing d),
          can_intercycle_gap = resize interfaces NaN (can_intercycle_gap d)\<rparr>)\<rparr>"

section \<open>Joints\<close>

record joint_setup =
  su_config :: joint_config
  su_interface :: nat
  su_parameters :: JointParameters
  su_alpha :: fp
  su_beta :: fp

definition read_joint :: "params \<Rightarrow> string list \<Rightarrow> nat \<times> string \<Rightarrow> lc_return + joint_setup" where
  "read_joint P names ij =
     (let joint = snd ij; real = (\<lambda>field v. of_joint P as_double joint field (Some v)) in
      andThen (of_joint P as_string joint ''motor_type'' None) (\<lambda>motor_type.
      andThen (need (map_of joint_config_per_motor_type motor_type)) (\<lambda>cfg.
      andThen (of_joint P as_int joint ''can_id'' None) (\<lambda>cid.
      andThen (of_joint P as_bool joint ''invert'' (Some False)) (\<lambda>inv.
      andThen (of_joint P as_int joint ''msg_idx'' (Some (int (fst ij)))) (\<lambda>idx.
      andThen (of_joint P as_string joint ''can_interface'' None) (\<lambda>iface.
      andThen (need (find_index (\<lambda>x. x = iface) names)) (\<lambda>k.
      andThen (of_joint P as_int joint ''vel_filter_size'' (Some 0)) (\<lambda>vel_size.
      andThen (of_joint P as_string joint ''vel_filter_type'' (Some ''moving_average'')) (\<lambda>type_str.
      case filter_type_of type_str of
        None \<Rightarrow> Inl LC_FAILURE
      | Some vel_type \<Rightarrow>
      andThen (real ''alpha'' (fp_lit b64 0.85)) (\<lambda>alpha.
      andThen (real ''beta'' (fp_lit b64 0.005)) (\<lambda>beta.
      andThen (of_joint P as_int joint ''pos_median_filter_size'' (Some 0)) (\<lambda>median_size.
      if to_int32 median_size < 0 then Inl LC_FAILURE
      else
      andThen (real ''pos_limit_min'' (fp_neg max_double)) (\<lambda>limit_min.
      andThen (real ''pos_limit_max'' max_double) (\<lambda>limit_max.
      andThen (real ''transmission_ratio'' (Fin 1)) (\<lambda>ratio.
      andThen (real ''tau_c'' (Fin 0)) (\<lambda>c.
      andThen (real ''tau_s'' (Fin 0)) (\<lambda>s.
      andThen (real ''v_s'' (Fin 1)) (\<lambda>vs.
      andThen (real ''k'' (Fin 1)) (\<lambda>k_exp.
      andThen (real ''k_a'' (Fin 1)) (\<lambda>ka.
      andThen (real ''b'' (Fin 0)) (\<lambda>b.
      andThen (real ''zero_position'' (Fin 0)) (\<lambda>zero_pos.
      andThen (of_joint P as_bool joint ''set_zero_position_on_configure'' (Some False)) (\<lambda>set_zero.
      Inr \<lparr>su_config = cfg\<lparr>can_id := to_unsigned cid, invert := inv\<rparr>, su_interface = k,
           su_parameters =
             \<lparr>pos_limit_min = limit_min, pos_limit_max = limit_max, transmission_ratio = ratio,
              friction_parameters = \<lparr>tau_c = c, tau_s = s, v_s = vs, exponent_k = k_exp, k_a = ka, viscous_b = b\<rparr>,
              vel_filter_size = to_unsigned vel_size, vel_filter_type = vel_type,
              pos_median_filter_size = to_unsigned (to_int32 median_size), zero_position = zero_pos,
              set_zero_position_on_startup = set_zero, msg_idx = to_unsigned idx, param_joint_name = joint\<rparr>,
           su_alpha = alpha, su_beta = beta\<rparr>))))))))))))))))))))))))"

text \<open>A joint that has been read goes to the end of the vectors of its interface.\<close>

definition add_joint :: "joint_setup \<Rightarrow> joint_config list list \<times> node \<Rightarrow> joint_config list list \<times> node" where
  "add_joint su = (\<lambda>(cfgs, n).
     let k = su_interface su; p = su_parameters su; pos = length (joint_parameters_per_can_interface n ! k)
     in (push_at k (su_config su) cfgs,
         n\<lparr>joint_commands_per_can_interface := push_at k
             \<lparr>cmd_pos = Fin 0, cmd_vel = Fin 0, cmd_torque = Fin 0, cmd_kp = Fin 0, cmd_kd = Fin 0\<rparr>
             (joint_commands_per_can_interface n),
           joint_states_per_can_interface := push_at k
             \<lparr>st_pos = Fin 0, st_vel = Fin 0, st_torque = Fin 0, st_temp = Fin 0, device_status = NO_FAULT,
              communication_status = SUCCESS, com_errno = 0, rx_timestamp_ns = 0, send_timestamp_ns = 0,
              dequeue_timestamp_ns = 0, enqueue_timestamp_ns = 0, rx_hw_timestamp_ns = 0\<rparr>
             (joint_states_per_can_interface n),
           joint_parameters_per_can_interface := push_at k p (joint_parameters_per_can_interface n),
           joint_vel_filters_per_can_interface :=
             push_at k (MovingAverage double_num (unat (vel_filter_size p))) (joint_vel_filters_per_can_interface n),
           joint_ab_filters_per_can_interface :=
             push_at k (AlphaBetaFilter double_num (su_alpha su) (su_beta su)) (joint_ab_filters_per_can_interface n),
           joint_pos_median_filters_per_can_interface :=
             push_at k (MedianFilter double_num (unat (pos_median_filter_size p)))
               (joint_pos_median_filters_per_can_interface n),
           last_joint_rx_ns_per_can_interface := push_at k 0 (last_joint_rx_ns_per_can_interface n),
           joint_name_to_can_iface_and_idx :=
             AList.update (param_joint_name p) (k, pos) (joint_name_to_can_iface_and_idx n)\<rparr>))"

text \<open>A rejection half-way leaves the joints before it in the vectors.\<close>

fun add_joints ::
  "params \<Rightarrow> string list \<Rightarrow> (nat \<times> string) list \<Rightarrow> joint_config list list \<times> node
     \<Rightarrow> (lc_return \<times> node) + joint_config list list \<times> node" where
  "add_joints P names [] acc = Inr acc"
| "add_joints P names (ij # ijs) acc =
     (case read_joint P names ij of
        Inl r \<Rightarrow> Inl (r, snd acc)
      | Inr su \<Rightarrow> add_joints P names ijs (add_joint su acc))"

section \<open>Interfaces\<close>

text \<open>
  The operating system: the results of the system calls of a constructor, by interface, and the
  socket that it obtains.
\<close>

type_synonym os = "string \<Rightarrow> (syscall \<Rightarrow> int) \<times> sock"

text \<open>The settings all interfaces share, in the order of the constructor.\<close>

definition interface_settings :: "params \<Rightarrow> (bool \<times> int \<times> int \<times> int) option" where
  "interface_settings P =
     (case (as_bool (declared P ''enable_loopback'' (PBool True)),
            as_int (declared P ''can_socket_timeout_sec'' (PInt 0)),
            as_int (declared P ''can_socket_timeout_usec'' (PInt 1000)),
            as_int (declared P ''can_initial_connection_trials'' (PInt 10))) of
        (Some loopback, Some sec, Some usec, Some trials) \<Rightarrow> Some (loopback, sec, usec, trials)
      | _ \<Rightarrow> None)"

text \<open>
  The loop over the names; a constructor that throws destroys the interfaces before it. The result
  is undefined behaviour, or what the callback returns, or the node.
\<close>

fun open_interfaces ::
  "os \<Rightarrow> params \<Rightarrow> joint_config list list \<Rightarrow> (nat \<times> string) list \<Rightarrow> node \<Rightarrow> ((lc_return \<times> node) + node) option" where
  "open_interfaces sys P cfgs [] n = Some (Inr n)"
| "open_interfaces sys P cfgs ((k, name) # ks) n =
     (case interface_settings P of
        None \<Rightarrow> Some (Inl (LC_ERROR, n))
      | Some (loopback, sec, usec, trials) \<Rightarrow>
          (case fst (CubemarsCan (fst (sys name)) (snd (sys name)) name (of_bool loopback) (cfgs ! k) sec usec
                  (to_unsigned trials) (node_tx_timestamping n) (node_error_frames n)) of
             UB \<Rightarrow> None
           | Throw _ \<Rightarrow> Some (Inl (LC_ERROR, n\<lparr>can_interfaces := []\<rparr>))
           | Ok drv \<Rightarrow> open_interfaces sys P cfgs ks (n\<lparr>can_interfaces := (can_interfaces n)[k := Some drv]\<rparr>)))"

section \<open>Motors\<close>

definition enable_motors :: "node \<Rightarrow> bool \<times> node" where
  "enable_motors n =
     each_caught (\<lambda>(i, j). start_motor_control_mode j
         (set_zero_position_on_startup (joint_parameters_per_can_interface n ! i ! j)))
       (indices (joint_parameters_per_can_interface n)) n"

text \<open>
  After a failure all motors are disabled; the message of a failing one indexes the configurations
  of its interface.
\<close>

definition roll_back :: "joint_config list list \<Rightarrow> node \<Rightarrow> (lc_return \<times> node) option" where
  "roll_back cfgs n =
     (if \<exists>(i, j) \<in> set (indices (joint_parameters_per_can_interface n)). length (cfgs ! i) \<le> j then None
      else let n = snd (each_caught (\<lambda>(i, j). end_motor_control_mode j)
             (indices (joint_parameters_per_can_interface n)) n)
      in Some (LC_ERROR, n\<lparr>can_interfaces := []\<rparr>))"

definition start_threads :: "node \<Rightarrow> node" where
  "start_threads n = fold start_comm_thread [0..<length (can_interfaces n)] n"

section \<open>The callback\<close>

definition start_motors :: "joint_config list list \<Rightarrow> node \<Rightarrow> (lc_return \<times> node) option" where
  "start_motors cfgs n =
     (let (failure, n) = enable_motors (n\<lparr>publish_timer := True, joint_cmd_sub := True\<rparr>)
      in if failure then roll_back cfgs n
         else Some (LC_SUCCESS, start_threads (n\<lparr>on_set_parameters_handle := True, supervisor_timer := True\<rparr>)))"

definition on_configure :: "os \<Rightarrow> params \<Rightarrow> int \<Rightarrow> node \<Rightarrow> (lc_return \<times> node) option" where
  "on_configure sys P now n =
     (case read_globals P n of
        Inl r \<Rightarrow> Some r
      | Inr (joint_names, n) \<Rightarrow>
     (let numbered = zip [0..<length joint_names] joint_names
      in case validate_joints P numbered nothing_seen of
           Inl r \<Rightarrow> Some (r, n)
         | Inr v \<Rightarrow>
     (let names = interface_names v;
          n = size_vectors now (length joint_names) (length names) (unat (max_msg_idx v + 1)) n
      in case add_joints P names numbered (replicate (length names) [], n) of
           Inl r \<Rightarrow> Some r
         | Inr (cfgs, n) \<Rightarrow>
     (case open_interfaces sys P cfgs (zip [0..<length names] names) n of
        None \<Rightarrow> None
      | Some (Inl r) \<Rightarrow> Some r
      | Some (Inr n) \<Rightarrow> start_motors cfgs n))))"

definition configure :: "env \<Rightarrow> os \<Rightarrow> params \<Rightarrow> int \<Rightarrow> node \<Rightarrow> node option" where
  "configure E sys P now n =
     (if \<not> allowed (ev_lifecycle E) (current_state n) Configure then Some n
      else map_option (\<lambda>r. trigger E Configure (\<lambda>_. r) n) (on_configure sys P now n))"

section \<open>Examples\<close>

text \<open>A node before its first configuration.\<close>

definition fresh_node :: node where
  "fresh_node =
     (clear_joints (demo_node UNCONFIGURED []))
       \<lparr>can_interfaces := [], last_can_cycle_times := [], comm_threads := [], publish_timer := False,
        supervisor_timer := False, on_set_parameters_handle := False\<rparr>"

definition demo_params :: params where
  "demo_params = map_of
     [(''joints'', PStringArray [''hip'']), (''default_damping_KD'', PDouble (Fin 1)),
      (''joint_defintions.hip.can_interface'', PString ''can0''),
      (''joint_defintions.hip.can_id'', PInt 1),
      (''joint_defintions.hip.motor_type'', PString ''AK10-9'')]"

definition demo_os :: "rx_outcome list \<Rightarrow> os" where
  "demo_os q = (\<lambda>_. ((\<lambda>_. 0), working_bus q))"

lemma demo_globals:
  "read_globals demo_params n = Inr ([''hip''], n\<lparr>damping_on_motor_error := True,
     max_can_errors_before_motor_shutdown := 1, node_tx_timestamping := True, node_error_frames := False,
     default_damping_KD := Fin 1, publish_ros2_joint_state := False\<rparr>)"
  by (simp add: read_globals_def demo_params_def declared_def member_def andThen_def to_unsigned_def)

lemma demo_valid:
  "validate_joints demo_params (zip [0..<length [''hip'']] [''hip'']) nothing_seen =
     Inr \<lparr>seen_interfaces = [''can0''], seen_msg_idxs = [0], seen_can_ids = [(''can0'', 1)], max_msg_idx = 0\<rparr>"
  by (simp add: validate_joint_def demo_params_def of_joint_def prefix_of_joints_def need_def andThen_def
    nothing_seen_def to_int32_def fp_le_def fp_lt_def)

definition demo_setup :: joint_setup where
  "demo_setup = (case read_joint demo_params [''can0''] (0, ''hip'') of Inr su \<Rightarrow> su)"

lemma demo_setup:
  "read_joint demo_params [''can0''] (0, ''hip'') = Inr demo_setup \<and> su_interface demo_setup = 0 \<and>
   can_id (su_config demo_setup) = 1 \<and> series_type (su_config demo_setup) = V2 \<and>
   msg_idx (su_parameters demo_setup) = 0 \<and> \<not> set_zero_position_on_startup (su_parameters demo_setup)"
  by (simp add: read_joint_def demo_setup_def demo_params_def of_joint_def prefix_of_joints_def need_def andThen_def
    to_int32_def to_unsigned_def joint_config_per_motor_type_def filter_type_of_def)

lemma demo_names: "interface_names \<lparr>seen_interfaces = [''can0''], seen_msg_idxs = [0], seen_can_ids = [(''can0'', 1)], max_msg_idx = 0\<rparr> = [''can0'']"
  by (simp add: interface_names_def)

lemma demo_settings: "interface_settings demo_params = Some (True, 0, 1000, 10)"
  by (simp add: interface_settings_def demo_params_def declared_def)

definition demo_opened :: "rx_outcome list \<Rightarrow> driver" where
  "demo_opened q = initial_driver (working_bus q) ''can0'' 1 [su_config demo_setup] 0 1000 10 True False"

lemma demo_constructor:
  "fst (CubemarsCan (\<lambda>_. 0) (working_bus q) ''can0'' 1 [su_config demo_setup] 0 1000 (to_unsigned 10) True False) =
     Ok (demo_opened q)"
  by (simp add: CubemarsCan_def demo_opened_def IFNAMSIZ_def to_unsigned_def)

lemma demo_start:
  "fst (start_motor_control_mode 0 False (demo_opened (reply_v2 1 0 # q))) = Ok ()"
  "is_throw (fst (start_motor_control_mode 0 False (demo_opened [])))"
  using demo_setup
  by (simp_all add: start_motor_control_mode_def demo_opened_def initial_driver_def seq_def returns_def enable_def
    send_control_frameV2_def sys_write_def working_bus_def await_reply_def read_frame_def sys_recv_def reply_v2_def
    reply_id_v2_def START_MOTOR_CONTROL_MODE_def Let_def)

definition demo_before_start :: "rx_outcome list \<Rightarrow> node" where
  "demo_before_start q =
     (case open_interfaces (demo_os q) demo_params [[su_config demo_setup]] [(0, ''can0'')]
        (snd (add_joint demo_setup ([[]], size_vectors 5 1 1 1 (snd (case read_globals demo_params fresh_node of Inr r \<Rightarrow> r)))))
      of Some (Inr n) \<Rightarrow> n)"

lemma demo_before_start:
  "on_configure (demo_os q) demo_params 5 fresh_node = start_motors [[su_config demo_setup]] (demo_before_start q)"
  "joint_parameters_per_can_interface (demo_before_start q) = [[su_parameters demo_setup]]"
  "can_interfaces (demo_before_start q) = [Some (demo_opened q)]"
  using demo_setup demo_constructor [of q]
  by (simp_all add: on_configure_def demo_before_start_def demo_globals demo_valid [simplified] demo_names demo_settings
    add_joint_def push_at_def size_vectors_def resize_def demo_os_def fresh_node_def clear_joints_def Let_def)

lemma demo_configured:
  "map_option fst (on_configure (demo_os (reply_v2 1 0 # q)) demo_params 5 fresh_node) = Some LC_SUCCESS"
  using demo_start(1) [of q] demo_setup
  by (simp add: demo_before_start start_motors_def enable_motors_def indices_def can_call_def split_beta)

end
