(* ===== verification/NodeOrigin.thy ===== *)
theory NodeOrigin
  imports NodeLifecycle
begin

text \<open>
  The services that move the origin of the motors (\<open>set_all_motors_origin_here_callback\<close> and
  \<open>set_motor_origin_here_callback\<close> of \<open>cubemars_hardware_node.cpp\<close>). \<open>None\<close> is undefined
  behaviour: an index past the end of \<open>can_interfaces_\<close>, a null pointer, or the release of a mutex
  that is not held.
\<close>

datatype origin_message =
  Not_configured | Can_error | All_set | Not_found int | Motor_set int string

record response =
  success :: bool
  message :: origin_message

text \<open>The loop over interfaces that ends the mode of all their motors; an index past the end is \<open>UB\<close>.\<close>

fun end_interfaces :: "nat list \<Rightarrow> node \<Rightarrow> (exn, unit) outcome \<times> node" where
  "end_interfaces [] n = (Ok (), n)"
| "end_interfaces (i # is) n =
     (if length (can_interfaces n) \<le> i then (UB, n)
      else case can_call i end_all n of (Ok _, n) \<Rightarrow> end_interfaces is n | (r, n) \<Rightarrow> (r, n))"

text \<open>Emergency: the interfaces are destroyed when all motors could be disabled.\<close>

definition emergency_stop :: "nat list \<Rightarrow> node \<Rightarrow> node option" where
  "emergency_stop is n =
     (case end_interfaces is n of
        (UB, _) \<Rightarrow> None
      | (Ok _, n) \<Rightarrow> Some (n\<lparr>can_interfaces := []\<rparr>)
      | (Throw _, n) \<Rightarrow> Some n)"

section \<open>All motors\<close>

text \<open>The joints of one interface, one after the other.\<close>

definition calibrate_interface :: "nat \<Rightarrow> node \<Rightarrow> (exn, unit) outcome \<times> node" where
  "calibrate_interface i n =
     can_call i
       (for_each (\<lambda>j. seq (end_motor_control_mode j) (start_motor_control_mode j True))
         [0..<length (joint_parameters_per_can_interface n ! i)]) n"

text \<open>
  The loop over the interfaces, whose number shrinks when a handler destroys them. The flag is the
  mutex: a handler releases it and the loop goes on.
\<close>

fun calibrate_all :: "env \<Rightarrow> nat list \<Rightarrow> bool \<times> node \<Rightarrow> (bool \<times> node) option" where
  "calibrate_all E [] (held, n) = Some (held, n)"
| "calibrate_all E (i # is) (held, n) =
     (if length (can_interfaces n) \<le> i then Some (held, n)
      else case calibrate_interface i n of
             (UB, _) \<Rightarrow> None
           | (Ok _, n) \<Rightarrow> calibrate_all E is (held, n)
           | (Throw _, n) \<Rightarrow>
               (case emergency_stop [0..<length (can_interfaces n) + 1] n of
                  None \<Rightarrow> None
                | Some n \<Rightarrow> if \<not> held then None else calibrate_all E is (False, cleanup E n)))"

definition restart_threads :: "node \<Rightarrow> node" where
  "restart_threads n = fold start_comm_thread [0..<length (can_interfaces n)] n"

definition set_all_motors_origin_here_callback :: "env \<Rightarrow> node \<Rightarrow> (response \<times> node) option" where
  "set_all_motors_origin_here_callback E n =
     (if current_state n \<noteq> INACTIVE then Some (\<lparr>success = False, message = Not_configured\<rparr>, n)
      else let n = stop_all_comm_threads n
      in case calibrate_all E [0..<length (can_interfaces n)] (True, n) of
           None \<Rightarrow> None
         | Some (held, n) \<Rightarrow>
             (if \<not> held then None
              else Some (\<lparr>success = True, message = All_set\<rparr>, restart_threads n)))"

section \<open>One motor\<close>

text \<open>The first joint with the message index of the request.\<close>

definition find_motor :: "int \<Rightarrow> node \<Rightarrow> (nat \<times> nat) option" where
  "find_motor motor n =
     find (\<lambda>(i, j). msg_idx (joint_parameters_per_can_interface n ! i ! j) = to_unsigned motor)
       (indices (joint_parameters_per_can_interface n))"

text \<open>All motors of the interface are disabled, then enabled again, one of them with a new origin.\<close>

definition recalibrate :: "nat \<Rightarrow> nat \<Rightarrow> call" where
  "recalibrate m chosen =
     seq (for_each end_motor_control_mode [0..<m])
       (for_each (\<lambda>j. start_motor_control_mode j (j = chosen)) [0..<m])"

definition set_motor_origin_here_callback :: "env \<Rightarrow> int \<Rightarrow> node \<Rightarrow> (response \<times> node) option" where
  "set_motor_origin_here_callback E motor n =
     (if current_state n \<noteq> INACTIVE then Some (\<lparr>success = False, message = Not_configured\<rparr>, n)
      else case find_motor motor n of
             None \<Rightarrow> Some (\<lparr>success = False, message = Not_found motor\<rparr>, n)
           | Some (iface, target_joint) \<Rightarrow>
      (let n = stop_comm_thread iface n; ps = joint_parameters_per_can_interface n ! iface
       in if length (can_interfaces n) \<le> iface then None
          else case can_call iface (recalibrate (length ps) target_joint) n of
                 (UB, _) \<Rightarrow> None
               | (Ok _, n) \<Rightarrow>
                   Some (\<lparr>success = True, message = Motor_set motor (param_joint_name (ps ! target_joint))\<rparr>,
                         start_comm_thread iface n)
               | (Throw _, n) \<Rightarrow>
                   map_option (\<lambda>n. (\<lparr>success = False, message = Can_error\<rparr>, cleanup E n))
                     (emergency_stop [0..<length (can_interfaces n)] n)))"

end
