(* ===== verification/NodeSystem.thy ===== *)
theory NodeSystem
  imports NodeCycle NodeConfigure NodeOrigin
begin

text \<open>
  The hardware node as a whole: the events that reach it, one step per callback, and what holds in
  every state that a sequence of events leads to. The machine of the client library is assumed to
  be the documented one.
\<close>

section \<open>Events\<close>

datatype event =
  Ev_configure os params int
  | Ev_activate | Ev_deactivate | Ev_cleanup | Ev_shutdown
  | Ev_command JointCommand
  | Ev_store int
  | Ev_set_parameters "(string \<times> param_value) list"
  | Ev_watchdog | Ev_supervisor
  | Ev_cycle cycle_clock nat
  | Ev_publish int int
  | Ev_origin_all
  | Ev_origin int

text \<open>
  A callback runs when what triggers it is there: its timer, its subscription, its thread. A step
  is missing where the callback has undefined behaviour.

  The callback of the subscription is two steps, between which other threads run. The callbacks of
  the executor share the default callback group, which runs one of them at a time, beside the
  communication threads; the model uses this only for those that build the node up or take it down,
  which wait for a command that is being accepted. All others, the watchdog and every deactivation
  among them, may fall between the two steps.
\<close>

inductive node_step :: "env \<Rightarrow> node \<Rightarrow> event \<Rightarrow> node \<Rightarrow> bool" for E where
  configure_step: "accepted n = None \<Longrightarrow> configure E sys P now n = Some n' \<Longrightarrow>
    node_step E n (Ev_configure sys P now) n'"
| activate_step: "node_step E n Ev_activate (activate E n)"
| deactivate_step: "node_step E n Ev_deactivate (deactivate E n)"
| cleanup_step: "accepted n = None \<Longrightarrow> node_step E n Ev_cleanup (cleanup E n)"
| shutdown_step: "accepted n = None \<Longrightarrow> node_step E n Ev_shutdown (shutdown E n)"
| command_step: "joint_cmd_sub n \<Longrightarrow> accepted n = None \<Longrightarrow>
    node_step E n (Ev_command cmd) (begin_command cmd n)"
| store_step: "accepted n = Some cmd \<Longrightarrow> node_step E n (Ev_store now) (end_command now cmd n)"
| parameters_step: "on_set_parameters_handle n \<Longrightarrow>
    node_step E n (Ev_set_parameters ps) (snd (on_set_parameters_callback ps n))"
| watchdog_step: "watchdog_timer n \<Longrightarrow> node_step E n Ev_watchdog (watchdog_timer_callback E n)"
| supervisor_step: "supervisor_timer n \<Longrightarrow> accepted n = None \<Longrightarrow>
    node_step E n Ev_supervisor (supervisor_callback E n)"
| cycle_step: "k < length (comm_threads n) \<Longrightarrow> comm_threads n ! k \<Longrightarrow>
    can_cycle_callback E c k n = Some n' \<Longrightarrow> node_step E n (Ev_cycle c k) n'"
| publish_step: "publish_timer n \<Longrightarrow> joint_state_publish_callback t t' n = Some (p, n') \<Longrightarrow>
    node_step E n (Ev_publish t t') n'"
| origin_all_step: "joint_cmd_sub n \<Longrightarrow> accepted n = None \<Longrightarrow>
    set_all_motors_origin_here_callback E n = Some (r, n') \<Longrightarrow>
    node_step E n Ev_origin_all n'"
| origin_step: "joint_cmd_sub n \<Longrightarrow> accepted n = None \<Longrightarrow>
    set_motor_origin_here_callback E motor n = Some (r, n') \<Longrightarrow>
    node_step E n (Ev_origin motor) n'"

inductive node_run :: "env \<Rightarrow> node \<Rightarrow> event list \<Rightarrow> node \<Rightarrow> bool" for E where
  run_nil: "node_run E n [] n"
| run_cons: "node_step E n ev m \<Longrightarrow> node_run E m evs n' \<Longrightarrow> node_run E n (ev # evs) n'"

inductive_cases run_nilE: "node_run E n [] n'"
inductive_cases run_consE: "node_run E n (ev # evs) n'"

lemma node_run_append:
  "node_run E n (xs @ ys) n' \<longleftrightarrow> (\<exists>m. node_run E n xs m \<and> node_run E m ys n')"
proof (induction xs arbitrary: n)
  case Nil
  then show ?case by (auto intro: run_nil elim: run_nilE)
next
  case (Cons x xs)
  then show ?case by (auto elim!: run_consE) (metis run_cons)+
qed

section \<open>Transitions of the documented machine\<close>

lemma deactivate_eq:
  "documented (ev_lifecycle E) \<Longrightarrow> deactivate E n =
    (if current_state n = ACTIVE
     then n\<lparr>current_state := INACTIVE, msg_received := False, watchdog_timer := False,
           joint_cmd_ptr := Some (passive_command (joint_msg_length n) (default_damping_KD n))\<rparr> else n)"
  by (simp add: deactivate_def trigger_def documented_def on_deactivate_def Let_def)

lemma activate_eq:
  "documented (ev_lifecycle E) \<Longrightarrow> activate E n =
    (if current_state n = INACTIVE \<and> msg_received n
     then n\<lparr>current_state := ACTIVE, watchdog_timer := True\<rparr> else n)"
  by (simp add: activate_def trigger_def documented_def on_activate_def Let_def)

lemma cleanup_eq:
  "documented (ev_lifecycle E) \<Longrightarrow> cleanup E n =
    (if current_state n = INACTIVE then (snd (on_cleanup n))\<lparr>current_state := UNCONFIGURED\<rparr> else n)"
  by (simp add: cleanup_def trigger_def documented_def on_cleanup_def Let_def)

lemma shutdown_eq:
  "documented (ev_lifecycle E) \<Longrightarrow> shutdown E n =
    (if current_state n = FINALIZED then n
     else (snd (on_shutdown (current_state n) n))\<lparr>current_state := FINALIZED\<rparr>)"
  by (simp add: shutdown_def trigger_def documented_def on_shutdown_def Let_def)

section \<open>What a callback leaves of the control state\<close>

text \<open>The part of the state that decides what the motors are told.\<close>

definition control :: "node \<Rightarrow> lc_state \<times> JointCommand option \<times> bool \<times> nat \<times> fp \<times> bool \<times> JointCommand option" where
  "control n = (current_state n, joint_cmd_ptr n, msg_received n, joint_msg_length n, default_damping_KD n,
     watchdog_timer n, accepted n)"

text \<open>A callback of a communication thread leaves it alone or falls back to damping.\<close>

definition falls_back :: "env \<Rightarrow> node \<Rightarrow> node \<Rightarrow> bool" where
  "falls_back E n n' \<longleftrightarrow> control n' = control n \<or> current_state n = ACTIVE \<and> control n' = control (deactivate E n)"

lemma control_eqD:
  "control n' = control n \<Longrightarrow> current_state n' = current_state n \<and> joint_cmd_ptr n' = joint_cmd_ptr n \<and>
     msg_received n' = msg_received n \<and> joint_msg_length n' = joint_msg_length n \<and>
     default_damping_KD n' = default_damping_KD n \<and> watchdog_timer n' = watchdog_timer n \<and>
     accepted n' = accepted n"
  by (simp add: control_def)

lemma falls_back_refl [simp]: "control n' = control n \<Longrightarrow> falls_back E n n'"
  by (simp add: falls_back_def)

lemma falls_back_trans:
  assumes "documented (ev_lifecycle E)" and "falls_back E n m" and "falls_back E m n'"
  shows "falls_back E n n'"
  using assms by (auto simp: falls_back_def deactivate_eq control_def split: if_splits)

lemma falls_back_deactivate: "documented (ev_lifecycle E) \<Longrightarrow> falls_back E n (deactivate E n)"
  by (auto simp: falls_back_def deactivate_eq)

lemma falls_back_cong: "control n' = control m' \<Longrightarrow> falls_back E n m' \<Longrightarrow> falls_back E n n'"
  by (simp add: falls_back_def)

section \<open>Frames\<close>

lemma map_option_SomeD: "map_option f x = Some y \<Longrightarrow> \<exists>z. x = Some z \<and> y = f z"
  by auto

lemma each_joint_frame:
  assumes "\<And>x b b'. f x b = Some b' \<Longrightarrow> g b' = g b"
  shows "each_joint f xs b = Some b' \<Longrightarrow> g b' = g b"
  using assms by (induction xs arbitrary: b) (auto split: option.splits)

text \<open>
  What the stages of a cycle after the exchange leave alone: every part of the node that does not
  depend on the states, the filters and what is published.
\<close>

locale cycle_part =
  fixes part :: "node \<Rightarrow> 'a"
  assumes joints: "part (n\<lparr>joint_states_per_can_interface := sts\<rparr>) = part n"
      "part (n\<lparr>joint_pos_median_filters_per_can_interface := meds\<rparr>) = part n"
      "part (n\<lparr>joint_vel_filters_per_can_interface := mas\<rparr>) = part n"
      "part (n\<lparr>joint_ab_filters_per_can_interface := ab\<rparr>) = part n"
      "part (n\<lparr>last_joint_rx_ns_per_can_interface := lasts\<rparr>) = part n"
    and reports: "part (n\<lparr>diag := d\<rparr>) = part n" "part (n\<lparr>joint_state_msg := m\<rparr>) = part n"
      "part (n\<lparr>joint_rx_ns := rxs\<rparr>) = part n" "part (n\<lparr>joint_rx_delivery_floor_ns := floors\<rparr>) = part n"
      "part (n\<lparr>joint_rx_hw_base_ns := bases\<rparr>) = part n"
      "part (n\<lparr>last_cycle_end_ns_per_can_interface := ends\<rparr>) = part n"
begin

lemma stages [frame_facts]:
  "median_stage k n = Some n' \<Longrightarrow> part n' = part n"
  "velocity_stage k n = Some n' \<Longrightarrow> part n' = part n"
  "unfiltered_stage k snaps n = Some n' \<Longrightarrow> part n' = part n"
  "part (transmission_stage k n) = part n"
  "cycle_diagnostics k c x drv n = Some n' \<Longrightarrow> part n' = part n"
  by (auto simp: median_stage_def velocity_stage_def unfiltered_stage_def transmission_stage_def
    cycle_diagnostics_def joints reports Let_def split: option.splits if_splits)

lemma report:
  assumes "report_joint E a t p st n = Some n'"
  shows "part n' = part n"
proof -
  have "part (report_latencies idx a t st m) = part m" for idx m
    by (simp add: report_latencies_def reports Let_def)
  moreover have "part (n\<lparr>joint_state_msg := m, diag := d, joint_rx_ns := r\<rparr>) = part n" for m d r
    by (simp add: reports)
  ultimately show ?thesis using assms unfolding report_joint_def Let_def
    by (metis option.distinct(1) option.inject)
qed

lemma write_back [frame_facts]:
  assumes "write_back E k t n = Some n'"
  shows "part n' = part n"
proof -
  have step: "part b' = part b" if "(\<lambda>(p, st). report_joint E (cmd_rx_ns n) t p st) x b = Some b'" for x b b'
    using that report by (cases x) fastforce
  show ?thesis
    by (rule each_joint_frame [where f = "\<lambda>(p, st). report_joint E (cmd_rx_ns n) t p st" and g = part, OF step])
      (use assms in \<open>simp_all add: write_back_def\<close>)
qed

end

interpretation control_part: cycle_part control
  by unfold_locales (simp_all add: control_def)

lemma check_status_spec:
  assumes "documented (ev_lifecycle E)"
  shows "check_status E sts n =
    (of_nat (length [st \<leftarrow> sts. communication_status st \<noteq> SUCCESS]),
     if current_state n = ACTIVE \<and> damping_on_motor_error n \<and> (\<exists>st\<in>set sts. device_status st \<noteq> NO_FAULT)
     then deactivate E n else n)"
proof (induction sts arbitrary: n)
  case (Cons st sts)
  define falls where "falls \<longleftrightarrow> device_status st \<noteq> NO_FAULT \<and> current_state n = ACTIVE \<and> damping_on_motor_error n"
  define m where "m = (if falls then deactivate E n else n)"
  have step: "check_status E (st # sts) n =
      (let r = check_status E sts m in
       (if communication_status st \<noteq> SUCCESS then fst r + 1 else fst r, snd r))"
    by (simp add: m_def falls_def Let_def split_beta)
  have "snd (check_status E sts m) =
      (if current_state n = ACTIVE \<and> damping_on_motor_error n \<and> (\<exists>st\<in>set (st # sts). device_status st \<noteq> NO_FAULT)
       then deactivate E n else n)"
  proof (cases falls)
    case True
    then have "current_state m \<noteq> ACTIVE" by (simp add: m_def deactivate_eq assms falls_def)
    then have "snd (check_status E sts m) = m" by (simp add: Cons.IH)
    then show ?thesis using True by (simp add: m_def falls_def)
  next
    case False
    then have "m = n" by (simp add: m_def)
    then show ?thesis using False by (simp add: Cons.IH falls_def) blast
  qed
  note snd_eq = this
  have fst_eq: "fst (check_status E sts m) = of_nat (length [st \<leftarrow> sts. communication_status st \<noteq> SUCCESS])"
    by (simp only: Cons.IH fst_conv)
  show ?case unfolding step Let_def by (simp only: fst_eq snd_eq) simp
qed simp

lemma give_up_falls_back: "documented (ev_lifecycle E) \<Longrightarrow> falls_back E n (give_up E n)"
  by (simp add: give_up_def falls_back_deactivate control_def)

lemma count_errors_falls_back:
  "documented (ev_lifecycle E) \<Longrightarrow> falls_back E n (snd (count_errors E k errors n))"
  by (simp add: count_errors_def Let_def give_up_falls_back control_def)

lemma check_limits_falls_back:
  "documented (ev_lifecycle E) \<Longrightarrow> falls_back E n (snd (check_limits E k n))"
  by (simp add: check_limits_def falls_back_deactivate)

lemma process_replies_falls_back:
  assumes "documented (ev_lifecycle E)" and "process_replies E c k x drv n = Some n'"
  shows "falls_back E n n'"
proof -
  obtain n1 n2 n3 where n: "median_stage k n = Some n1" "velocity_stage k n1 = Some n2"
    "unfiltered_stage k (map (\<lambda>st. (st_pos st, st_vel st)) (joint_states_per_can_interface n ! k)) n2 = Some n3"
    using assms(2) by (auto simp: process_replies_def Let_def split: option.splits)
  define n4 where "n4 = transmission_stage k n3"
  have c4: "control n4 = control n" using n by (simp add: n4_def frame_facts)
  show ?thesis
  proof (cases "comm_threads n4 ! k")
    case False
    then show ?thesis using assms(2) n c4 by (auto simp: process_replies_def n4_def)
  next
    case True
    then obtain n5 where n5: "write_back E k (tx_fill_end_ns drv) n4 = Some n5"
      using assms(2) n by (auto simp: process_replies_def n4_def split: option.splits)
    obtain go n6 where n6: "check_limits E k n5 = (go, n6)" by force
    have c5: "control n5 = control n" using control_part.write_back [OF n5] c4 by simp
    have "falls_back E n5 n6" using check_limits_falls_back [OF assms(1), of n5 k] n6 by simp
    then have "falls_back E n n6"
      using falls_back_trans [OF assms(1)] c5 falls_back_refl by metis
    moreover have "control n' = control n6"
      using assms(2) n n5 n6 True
      by (auto simp: process_replies_def n4_def frame_facts split: if_splits)
    ultimately show ?thesis by (metis falls_back_cong)
  qed
qed

lemma after_exchange_falls_back:
  assumes "documented (ev_lifecycle E)" and "after_exchange E c k x drv n = Some n'"
  shows "falls_back E n n'"
proof -
  obtain errors n1 where n1: "check_status E (joint_states_per_can_interface n ! k) n = (errors, n1)" by force
  have "falls_back E n n1"
    using n1 falls_back_deactivate [OF assms(1), of n] check_status_spec [OF assms(1)]
    by (auto simp: split: if_splits)
  moreover obtain go n2 where n2: "count_errors E k errors n1 = (go, n2)" by force
  moreover have "falls_back E n1 n2" using count_errors_falls_back [OF assms(1), of n1 k errors] n2 by simp
  moreover have "n' = n2 \<or> process_replies E c k x drv n2 = Some n'"
    using assms(2) n1 n2 by (auto simp: after_exchange_def split: if_splits)
  ultimately show ?thesis
    using falls_back_trans [OF assms(1)] process_replies_falls_back [OF assms(1)] by metis
qed

text \<open>A part that a deactivation leaves alone too survives all that follows the exchange.\<close>

locale cycle_rest = cycle_part part for part :: "node \<Rightarrow> 'a" +
  assumes deactivated: "documented (ev_lifecycle E) \<Longrightarrow> part (deactivate E n) = part n"
begin

lemma statuses: "documented (ev_lifecycle E) \<Longrightarrow> check_status E sts n = (errors, n') \<Longrightarrow> part n' = part n"
  by (auto simp: check_status_spec deactivated split: if_splits)

lemma process_replies:
  assumes "documented (ev_lifecycle E)" and "process_replies E c k x drv n = Some n'"
  shows "part n' = part n"
proof -
  obtain n1 n2 n3 where n: "median_stage k n = Some n1" "velocity_stage k n1 = Some n2"
    "unfiltered_stage k (map (\<lambda>st. (st_pos st, st_vel st)) (joint_states_per_can_interface n ! k)) n2 = Some n3"
    using assms(2) by (auto simp: process_replies_def Let_def split: option.splits)
  define n4 where "n4 = transmission_stage k n3"
  have n4: "part n4 = part n" using n by (simp add: n4_def stages)
  show ?thesis
  proof (cases "comm_threads n4 ! k")
    case True
    then obtain n5 where n5: "write_back E k (tx_fill_end_ns drv) n4 = Some n5"
      using assms(2) n by (auto simp: process_replies_def n4_def split: option.splits)
    obtain go n6 where n6: "check_limits E k n5 = (go, n6)" by force
    have p6: "part n6 = part n"
      using n6 write_back [OF n5] n4 deactivated [OF assms(1)] by (auto simp: check_limits_def split: if_splits)
    have "(if go then cycle_diagnostics k c x drv n6 else Some n6) = Some n'"
      using assms(2) n True n5 n6 by (auto simp: process_replies_def n4_def)
    then show ?thesis using p6 stages(5) by (cases go) auto
  qed (use assms(2) n n4 in \<open>simp add: process_replies_def n4_def\<close>)
qed

end

text \<open>The node after the exchange of a cycle, whatever its outcome.\<close>

definition exchanged :: "cycle_clock \<Rightarrow> nat \<Rightarrow> joint_cmd list \<Rightarrow> driver \<Rightarrow> node \<Rightarrow> node" where
  "exchanged c k cmds drv n =
     n\<lparr>last_can_cycle_times := (last_can_cycle_times n)[k := ros_now_ns c],
       joint_commands_per_can_interface := (joint_commands_per_can_interface n)[k := cmds],
       can_interfaces := (can_interfaces n)[k := Some drv]\<rparr>"

definition with_states :: "nat \<Rightarrow> joint_state list \<Rightarrow> node \<Rightarrow> node" where
  "with_states k states n =
     n\<lparr>joint_states_per_can_interface := (joint_states_per_can_interface n)[k := states]\<rparr>"

lemma exchanged_frame [frame_facts]:
  "control (exchanged c k cmds drv n) = control n" "control (with_states k states n) = control n"
  by (simp_all add: exchanged_def with_states_def control_def)

lemma cycle_command_stamp:
  "cycle_command E (n\<lparr>last_can_cycle_times := ts\<rparr>) k cmd = cycle_command E n k cmd"
  by (rule ext) (simp add: cycle_command_def Let_def)

lemma exchange_cases:
  assumes "exchange E c k frequency cmd (n\<lparr>last_can_cycle_times := (last_can_cycle_times n)[k := ros_now_ns c]\<rparr>) = Some n'"
  obtains cmds drv r drv' where
    "those (map (cycle_command E n k cmd) [0..<length (joint_commands_per_can_interface n ! k)]) = Some cmds"
    "can_interfaces n ! k = Some drv"
    "send_and_receive cmds (joint_states_per_can_interface n ! k) drv = (r, drv')"
    "(case r of UB \<Rightarrow> None | Throw _ \<Rightarrow> Some (give_up E (exchanged c k cmds drv' n))
      | Ok states \<Rightarrow> after_exchange E c k frequency drv' (with_states k states (exchanged c k cmds drv' n))) = Some n'"
proof -
  obtain cmds drv where 1: "those (map (cycle_command E n k cmd) [0..<length (joint_commands_per_can_interface n ! k)]) = Some cmds"
    "can_interfaces n ! k = Some drv"
    using assms by (auto simp: exchange_def cycle_command_stamp split: option.splits)
  obtain r drv' where 2: "send_and_receive cmds (joint_states_per_can_interface n ! k) drv = (r, drv')" by force
  have "(case r of UB \<Rightarrow> None | Throw _ \<Rightarrow> Some (give_up E (exchanged c k cmds drv' n))
      | Ok states \<Rightarrow> after_exchange E c k frequency drv' (with_states k states (exchanged c k cmds drv' n))) = Some n'"
    using assms 1 2 by (cases r) (simp_all add: exchange_def cycle_command_stamp exchanged_def with_states_def)
  then show thesis using that 1 2 by blast
qed

lemma cycle_cases:
  assumes "can_cycle_callback E c k n = Some n'"
  obtains (idle) "current_state n \<noteq> ACTIVE" "current_state n \<noteq> INACTIVE" "n' = n"
  | (stopped) "aligned k n" "\<not> comm_threads n ! k \<or> joint_cmd_ptr n = None"
      "n' = n\<lparr>last_can_cycle_times := (last_can_cycle_times n)[k := ros_now_ns c]\<rparr>"
  | (failed) cmd cmds drv e drv' where "aligned k n" "comm_threads n ! k" "joint_cmd_ptr n = Some cmd"
      "those (map (cycle_command E n k cmd) [0..<length (joint_commands_per_can_interface n ! k)]) = Some cmds"
      "can_interfaces n ! k = Some drv"
      "send_and_receive cmds (joint_states_per_can_interface n ! k) drv = (Throw e, drv')"
      "n' = give_up E (exchanged c k cmds drv' n)"
  | (answered) cmd cmds drv states drv' frequency where "aligned k n" "comm_threads n ! k" "joint_cmd_ptr n = Some cmd"
      "those (map (cycle_command E n k cmd) [0..<length (joint_commands_per_can_interface n ! k)]) = Some cmds"
      "can_interfaces n ! k = Some drv"
      "send_and_receive cmds (joint_states_per_can_interface n ! k) drv = (Ok states, drv')"
      "after_exchange E c k frequency drv' (with_states k states (exchanged c k cmds drv' n)) = Some n'"
proof (cases "current_state n \<noteq> ACTIVE \<and> current_state n \<noteq> INACTIVE")
  case True
  then show thesis using assms by (intro idle) (auto simp: can_cycle_callback_def)
next
  case state: False
  then have al: "aligned k n" using assms by (auto simp: can_cycle_callback_def split: if_splits)
  let ?m = "n\<lparr>last_can_cycle_times := (last_can_cycle_times n)[k := ros_now_ns c]\<rparr>"
  show thesis
  proof (cases "\<not> comm_threads n ! k \<or> joint_cmd_ptr n = None")
    case True
    then have "n' = ?m" using assms state al by (cases "comm_threads n ! k") (simp_all add: can_cycle_callback_def Let_def)
    then show thesis using al True by (intro stopped)
  next
    case False
    then obtain cmd where cmd: "comm_threads n ! k" "joint_cmd_ptr n = Some cmd" by auto
    obtain frequency where "exchange E c k frequency cmd ?m = Some n'"
      using assms state al cmd by (simp add: can_cycle_callback_def Let_def)
    then obtain cmds drv r drv' where c:
      "those (map (cycle_command E n k cmd) [0..<length (joint_commands_per_can_interface n ! k)]) = Some cmds"
      "can_interfaces n ! k = Some drv" "send_and_receive cmds (joint_states_per_can_interface n ! k) drv = (r, drv')"
      "(case r of UB \<Rightarrow> None | Throw _ \<Rightarrow> Some (give_up E (exchanged c k cmds drv' n))
        | Ok states \<Rightarrow> after_exchange E c k frequency drv' (with_states k states (exchanged c k cmds drv' n))) = Some n'"
      by (rule exchange_cases)
    show thesis
    proof (cases r)
      case (Ok states)
      then show thesis using answered [OF al cmd c(1,2)] c(3,4) by simp
    next
      case (Throw x)
      then show thesis using failed [OF al cmd c(1,2)] c(3,4) by simp
    next
      case UB
      then show thesis using c(4) by simp
    qed
  qed
qed

lemma cycle_falls_back:
  assumes "documented (ev_lifecycle E)" and "can_cycle_callback E c k n = Some n'"
  shows "falls_back E n n'"
proof -
  have move: "falls_back E n m'" if "control m = control n" "falls_back E m m'" for m m'
    using that falls_back_trans [OF assms(1)] falls_back_refl by metis
  show ?thesis using assms(2)
  proof (cases rule: cycle_cases)
    case stopped
    then show ?thesis by (simp add: control_def)
  next
    case failed
    then show ?thesis using move [OF _ give_up_falls_back [OF assms(1)]] by (simp add: frame_facts)
  next
    case answered
    then show ?thesis using move [OF _ after_exchange_falls_back [OF assms(1) answered(7)]]
      by (simp add: frame_facts)
  qed simp
qed

section \<open>Frames of the callbacks of the executor\<close>

lemma can_call_frame [frame_facts]: "control (snd (can_call i f n)) = control n"
  by (simp add: can_call_def control_def split_beta split: option.split)

lemma can_call_frame' [frame_facts]: "can_call i f n = (r, n') \<Longrightarrow> control n' = control n"
  using can_call_frame [of i f n] by simp

lemma each_caught_frame [frame_facts]: "control (snd (each_caught f ijs n)) = control n"
  by (induction ijs arbitrary: n) (simp_all add: split_beta can_call_frame)

lemma end_interfaces_frame: "end_interfaces is n = (r, n') \<Longrightarrow> control n' = control n"
proof (induction "is" n rule: end_interfaces.induct)
  case (2 i "is" n)
  obtain r1 n1 where c: "can_call i end_all n = (r1, n1)" by force
  show ?case using 2 c can_call_frame' [OF c]
    by (cases r1) (auto split: if_splits)
qed simp

lemma emergency_stop_frame [frame_facts]: "emergency_stop is n = Some n' \<Longrightarrow> control n' = control n"
  by (auto simp: emergency_stop_def control_def split: prod.splits outcome.splits
    dest: end_interfaces_frame [unfolded control_def])

lemma fold_start_frame [frame_facts]: "control (fold start_comm_thread ks n) = control n"
proof (induction ks arbitrary: n)
  case (Cons k ks)
  have "control (start_comm_thread k n) = control n" by (simp add: start_comm_thread_def control_def)
  then show ?case using Cons.IH by simp
qed simp

lemma thread_frames [frame_facts]:
  "control (stop_comm_thread k n) = control n" "control (start_comm_thread k n) = control n"
  "control (stop_all_comm_threads n) = control n" "control (restart_threads n) = control n"
  "control (start_threads n) = control n"
  by (simp_all add: stop_comm_thread_def start_comm_thread_def stop_all_comm_threads_def control_def
    restart_threads_def start_threads_def fold_start_frame [unfolded control_def])

lemma fold_apply_update_frame: "control (fold apply_update us n) = control n"
proof (induction us arbitrary: n)
  case (Cons u us)
  have "control (apply_update u n) = control n" by (simp add: apply_update_def control_def split_beta Let_def)
  then show ?case using Cons.IH by simp
qed simp

lemma parameters_frame:
  "current_state (snd (on_set_parameters_callback ps n)) = current_state n"
  "joint_cmd_ptr (snd (on_set_parameters_callback ps n)) = joint_cmd_ptr n"
  "msg_received (snd (on_set_parameters_callback ps n)) = msg_received n"
  "joint_msg_length (snd (on_set_parameters_callback ps n)) = joint_msg_length n"
  "watchdog_timer (snd (on_set_parameters_callback ps n)) = watchdog_timer n"
  "accepted (snd (on_set_parameters_callback ps n)) = accepted n"
  using fold_apply_update_frame
  by (simp_all add: on_set_parameters_callback_def apply_pending_def control_def Let_def
    split: sum.split option.split)

lemma on_cleanup_frame:
  "msg_received (snd (on_cleanup n)) = msg_received n" "watchdog_timer (snd (on_cleanup n)) = watchdog_timer n"
  "joint_cmd_ptr (snd (on_cleanup n)) = None" "accepted (snd (on_cleanup n)) = accepted n"
proof -
  have "control (snd (disable_motors m)) = control m" for m
    by (simp add: disable_motors_def each_caught_frame)
  then show "msg_received (snd (on_cleanup n)) = msg_received n" "watchdog_timer (snd (on_cleanup n)) = watchdog_timer n"
    "joint_cmd_ptr (snd (on_cleanup n)) = None" "accepted (snd (on_cleanup n)) = accepted n"
    by (simp_all add: on_cleanup_def clear_joints_def control_def Let_def stop_all_comm_threads_def)
qed

section \<open>Frames of the configuration\<close>

text \<open>The part of the control state that the configuration leaves alone.\<close>

definition watch :: "node \<Rightarrow> lc_state \<times> bool \<times> bool \<times> JointCommand option" where
  "watch n = (current_state n, msg_received n, watchdog_timer n, accepted n)"

lemma control_watch: "control n' = control n \<Longrightarrow> watch n' = watch n"
  by (simp add: control_def watch_def)

lemma member_cases:
  "member r f n = Inr n' \<Longrightarrow> \<exists>x. n' = f x n" "member r f n = Inl (c, n') \<Longrightarrow> c = LC_ERROR \<and> n' = n"
  by (auto simp: member_def split: option.splits)

lemma andThen_Inr: "andThen r f = Inr y \<longleftrightarrow> (\<exists>x. r = Inr x \<and> f x = Inr y)"
  by (cases r) (simp_all add: andThen_def)

lemma andThen_Inl: "andThen r f = Inl e \<longleftrightarrow> r = Inl e \<or> (\<exists>x. r = Inr x \<and> f x = Inl e)"
  by (cases r) (simp_all add: andThen_def)

lemma read_globals_frame:
  "read_globals P n = Inl (c, n') \<Longrightarrow> c = LC_ERROR \<and> watch n' = watch n"
  "read_globals P n = Inr (js, n') \<Longrightarrow> watch n' = watch n"
  by (auto simp: read_globals_def andThen_Inl andThen_Inr watch_def split: option.splits dest!: member_cases)

text \<open>What sizing puts in force: a command that moves nothing.\<close>

definition sized :: "node \<Rightarrow> bool" where
  "sized n \<longleftrightarrow> joint_cmd_ptr n = Some (passive_command (joint_msg_length n) (Fin 0))"

lemma sized_control: "control n' = control n \<Longrightarrow> sized n' = sized n"
  by (simp add: control_def sized_def)

lemma size_vectors_frame: "watch (size_vectors now m k len n) = watch n" "sized (size_vectors now m k len n)"
  by (simp_all add: size_vectors_def watch_def sized_def)

lemma add_joint_frame [frame_facts]: "control (snd (add_joint su acc)) = control (snd acc)"
  by (cases acc) (simp add: add_joint_def Let_def control_def)

lemma add_joints_frame [frame_facts]:
  "add_joints P names ijs acc = Inl (c, n') \<Longrightarrow> control n' = control (snd acc)"
  "add_joints P names ijs acc = Inr acc' \<Longrightarrow> control (snd acc') = control (snd acc)"
  by (induction ijs arbitrary: acc) (auto simp: add_joint_frame split: sum.splits)

lemma open_interfaces_result:
  "open_interfaces sys P cfgs ks n = Some r \<Longrightarrow>
     case r of Inl (c, n') \<Rightarrow> control n' = control n \<and> c = LC_ERROR | Inr n' \<Rightarrow> control n' = control n"
proof (induction ks arbitrary: n)
  case (Cons kn ks)
  obtain k name where kn: "kn = (k, name)" by force
  have same: "control (n\<lparr>can_interfaces := x\<rparr>) = control n" for x by (simp add: control_def)
  show ?case
  proof (cases "interface_settings P")
    case None
    then show ?thesis using Cons.prems by (auto simp: kn)
  next
    case (Some st)
    obtain loopback sec usec trials where st: "st = (loopback, sec, usec, trials)" by (cases st)
    show ?thesis
    proof (cases "fst (CubemarsCan (fst (sys name)) (snd (sys name)) name (of_bool loopback) (cfgs ! k) sec usec
        (to_unsigned trials) (node_tx_timestamping n) (node_error_frames n))")
      case (Ok drv)
      then have "open_interfaces sys P cfgs ks (n\<lparr>can_interfaces := (can_interfaces n)[k := Some drv]\<rparr>) = Some r"
        using Cons.prems Some by (simp add: kn st)
      from Cons.IH [OF this] show ?thesis unfolding same .
    qed (use Cons.prems Some in \<open>auto simp: kn st same\<close>)
  qed
qed auto

lemma open_interfaces_frame [frame_facts]:
  "open_interfaces sys P cfgs ks n = Some (Inl (c, n')) \<Longrightarrow> control n' = control n \<and> c = LC_ERROR"
  "open_interfaces sys P cfgs ks n = Some (Inr n') \<Longrightarrow> control n' = control n"
  by (auto dest: open_interfaces_result)

lemma start_motors_frame:
  assumes "start_motors cfgs n = Some (c, n')"
  shows "control n' = control n"
proof -
  obtain failure m where e: "enable_motors (n\<lparr>publish_timer := True, joint_cmd_sub := True\<rparr>) = (failure, m)" by force
  have "m = snd (enable_motors (n\<lparr>publish_timer := True, joint_cmd_sub := True\<rparr>))" using e by simp
  then have "control m = control (n\<lparr>publish_timer := True, joint_cmd_sub := True\<rparr>)"
    by (simp add: enable_motors_def each_caught_frame)
  then have m: "control m = control n" by (simp add: control_def)
  show ?thesis
  proof (cases failure)
    case True
    then have "n' = (snd (each_caught (\<lambda>(i, j). end_motor_control_mode j)
        (indices (joint_parameters_per_can_interface m)) m))\<lparr>can_interfaces := []\<rparr>"
      using assms e by (auto simp: start_motors_def roll_back_def Let_def split: if_splits)
    then show ?thesis using m each_caught_frame [of "\<lambda>(i, j). end_motor_control_mode j" _ m]
      by (simp add: control_def)
  next
    case False
    then have "control n' = control (m\<lparr>on_set_parameters_handle := True, supervisor_timer := True\<rparr>)"
      using assms e by (simp add: start_motors_def thread_frames split_beta) (metis thread_frames(5))
    then show ?thesis using m by (simp add: control_def)
  qed
qed

lemma of_joint_Inl: "of_joint P as j f v = Inl c \<Longrightarrow> c = LC_ERROR" "need r = Inl c \<Longrightarrow> c = LC_ERROR"
  by (auto simp: of_joint_def need_def split: option.splits)

definition refuses :: "lc_return + 'a \<Rightarrow> bool" where
  "refuses r \<longleftrightarrow> (\<forall>c. r = Inl c \<longrightarrow> c \<noteq> LC_SUCCESS)"

lemma refuses_andThen [intro!]: "refuses r \<Longrightarrow> (\<And>x. refuses (f x)) \<Longrightarrow> refuses (andThen r f)"
  by (auto simp: refuses_def andThen_Inl)

lemma refuses_basic [intro!]:
  "refuses (Inr x)" "refuses (Inl LC_FAILURE)" "refuses (Inl LC_ERROR)" "refuses (of_joint P as j f v)" "refuses (need r)"
  "refuses a \<Longrightarrow> refuses b \<Longrightarrow> refuses (if q then a else b)"
  "refuses a \<Longrightarrow> (\<And>y. refuses (g y)) \<Longrightarrow> refuses (case z of None \<Rightarrow> a | Some y \<Rightarrow> g y)"
  by (auto simp: refuses_def dest: of_joint_Inl split: option.splits)

lemma validate_joint_refuses: "refuses (validate_joint P ij v)"
  unfolding validate_joint_def Let_def by (intro refuses_andThen refuses_basic)

lemma validate_joints_refuses: "refuses (validate_joints P ijs v)"
proof (induction ijs arbitrary: v)
  case (Cons ij ijs)
  then show ?case using validate_joint_refuses by simp (intro refuses_andThen)
qed auto

lemma read_joint_refuses: "refuses (read_joint P names ij)"
  unfolding read_joint_def Let_def by (intro refuses_andThen refuses_basic)

lemma add_joints_refuses: "add_joints P names ijs acc = Inl (c, n') \<Longrightarrow> c \<noteq> LC_SUCCESS"
  using read_joint_refuses
  by (induction ijs arbitrary: acc) (auto simp: refuses_def split: sum.splits)

lemma on_configure_cases:
  assumes "on_configure sys P now n = Some (c, n')"
  obtains (globals) "read_globals P n = Inl (c, n')" "c = LC_ERROR"
  | (invalid) js where "read_globals P n = Inr (js, n')"
      "validate_joints P (zip [0..<length js] js) nothing_seen = Inl c" "c \<noteq> LC_SUCCESS"
  | (joints) js m v where "read_globals P n = Inr (js, m)"
      "validate_joints P (zip [0..<length js] js) nothing_seen = Inr v"
      "add_joints P (interface_names v) (zip [0..<length js] js) (replicate (length (interface_names v)) [],
         size_vectors now (length js) (length (interface_names v)) (unat (max_msg_idx v + 1)) m) = Inl (c, n')"
      "c \<noteq> LC_SUCCESS"
  | (interfaces) js m v cfgs m' where "read_globals P n = Inr (js, m)"
      "validate_joints P (zip [0..<length js] js) nothing_seen = Inr v"
      "add_joints P (interface_names v) (zip [0..<length js] js) (replicate (length (interface_names v)) [],
         size_vectors now (length js) (length (interface_names v)) (unat (max_msg_idx v + 1)) m) = Inr (cfgs, m')"
      "open_interfaces sys P cfgs (zip [0..<length (interface_names v)] (interface_names v)) m' = Some (Inl (c, n'))"
      "c = LC_ERROR"
  | (motors) js m v cfgs m' m'' where "read_globals P n = Inr (js, m)"
      "validate_joints P (zip [0..<length js] js) nothing_seen = Inr v"
      "add_joints P (interface_names v) (zip [0..<length js] js) (replicate (length (interface_names v)) [],
         size_vectors now (length js) (length (interface_names v)) (unat (max_msg_idx v + 1)) m) = Inr (cfgs, m')"
      "open_interfaces sys P cfgs (zip [0..<length (interface_names v)] (interface_names v)) m' = Some (Inr m'')"
      "start_motors cfgs m'' = Some (c, n')"
proof (cases "read_globals P n")
  case (Inl r)
  then show thesis using assms read_globals_frame(1) by (cases r) (auto simp: on_configure_def intro: globals)
next
  case (Inr r)
  then obtain js m where r: "read_globals P n = Inr (js, m)" by (cases r) auto
  let ?num = "zip [0..<length js] js"
  show thesis
  proof (cases "validate_joints P ?num nothing_seen")
    case (Inl x)
    then show thesis using assms r validate_joints_refuses [of P ?num nothing_seen]
      by (intro invalid) (auto simp: on_configure_def Let_def refuses_def)
  next
    case (Inr v)
    let ?a = "add_joints P (interface_names v) ?num (replicate (length (interface_names v)) [],
         size_vectors now (length js) (length (interface_names v)) (unat (max_msg_idx v + 1)) m)"
    have e: "on_configure sys P now n = (case ?a of Inl r \<Rightarrow> Some r | Inr (cfgs, n) \<Rightarrow>
        (case open_interfaces sys P cfgs (zip [0..<length (interface_names v)] (interface_names v)) n of
          None \<Rightarrow> None | Some (Inl r) \<Rightarrow> Some r | Some (Inr n) \<Rightarrow> start_motors cfgs n))"
      using r Inr by (simp add: on_configure_def Let_def)
    show thesis
    proof (cases ?a)
      case (Inl x)
      then show thesis using assms e joints [OF r Inr] add_joints_refuses [of P _ ?num] by (cases x) auto
    next
      case a: (Inr x)
      then obtain cfgs m' where x: "x = (cfgs, m')" by (cases x)
      show thesis using assms e a x interfaces [OF r Inr] motors [OF r Inr]
        by (auto split: option.splits sum.splits dest: open_interfaces_frame)
    qed
  qed
qed

lemma on_configure_frame:
  assumes "on_configure sys P now n = Some (c, n')"
  shows "watch n' = watch n \<and> (c = LC_SUCCESS \<longrightarrow> sized n')"
  using assms
proof (cases rule: on_configure_cases)
  case globals
  then show ?thesis using read_globals_frame(1) by auto
next
  case invalid
  then show ?thesis using read_globals_frame(2) by auto
next
  case (joints js m v)
  have "watch n' = watch m" using control_watch [OF add_joints_frame(1) [OF joints(3)]] by (simp add: size_vectors_frame)
  then show ?thesis using read_globals_frame(2) [OF joints(1)] joints(4) by simp
next
  case (interfaces js m v cfgs m')
  have "watch m' = watch m" using control_watch [OF add_joints_frame(2) [OF interfaces(3)]] by (simp add: size_vectors_frame)
  moreover have "watch n' = watch m'" using control_watch open_interfaces_frame(1) [OF interfaces(4)] by blast
  ultimately show ?thesis using read_globals_frame(2) [OF interfaces(1)] interfaces(5) by simp
next
  case (motors js m v cfgs m' m'')
  have c: "control n' = control m'" using start_motors_frame [OF motors(5)] open_interfaces_frame(2) [OF motors(4)] by simp
  have "watch m' = watch m" "sized m'"
    using control_watch [OF add_joints_frame(2) [OF motors(3)]] sized_control [OF add_joints_frame(2) [OF motors(3)]]
    by (simp_all add: size_vectors_frame)
  then show ?thesis using read_globals_frame(2) [OF motors(1)] control_watch [OF c] sized_control [OF c] by simp
qed

section \<open>What holds in every reachable state\<close>

lemma on_error_watch: "watch (snd (on_error s n)) = watch n"
  by (cases s) (simp_all add: on_error_def clear_joints_def stop_all_comm_threads_def watch_def Let_def)

lemma configure_effect:
  assumes "documented (ev_lifecycle E)" and "configure E sys P now n = Some n'"
  shows "if current_state n = UNCONFIGURED
    then current_state n' \<in> {UNCONFIGURED, INACTIVE} \<and> msg_received n' = msg_received n \<and>
      watchdog_timer n' = watchdog_timer n \<and> accepted n' = accepted n \<and>
      (current_state n' = INACTIVE \<longrightarrow> sized n')
    else n' = n"
proof (cases "current_state n = UNCONFIGURED")
  case True
  then obtain c m where c: "on_configure sys P now n = Some (c, m)" and n': "n' = trigger E Configure (\<lambda>_. (c, m)) n"
    using assms by (auto simp: configure_def documented_def)
  have w: "watch m = watch n" "c = LC_SUCCESS \<Longrightarrow> sized m" using on_configure_frame [OF c] by auto
  show ?thesis
  proof (cases c)
    case LC_SUCCESS
    then show ?thesis using assms(1) n' w True
      by (simp add: trigger_def documented_def watch_def sized_def)
  next
    case LC_FAILURE
    then show ?thesis using assms(1) n' w True
      by (simp add: trigger_def documented_def watch_def)
  next
    case LC_ERROR
    then show ?thesis using assms(1) n' w True on_error_watch [of UNCONFIGURED m]
      by (simp add: trigger_def documented_def watch_def split_beta) (simp add: on_error_def Let_def)
  qed
qed (use assms in \<open>auto simp: configure_def documented_def\<close>)

lemma calibrate_interface_frame: "calibrate_interface i n = (r, n') \<Longrightarrow> control n' = control n"
  unfolding calibrate_interface_def by (rule can_call_frame')

lemma calibrate_all_held:
  "calibrate_all E is (held, n) = Some (held', n') \<Longrightarrow> (held' \<longrightarrow> held \<and> control n' = control n)"
proof (induction "is" arbitrary: held n)
  case (Cons i "is")
  show ?case
  proof (cases "length (can_interfaces n) \<le> i")
    case False
    obtain r m where c: "calibrate_interface i n = (r, m)" by force
    show ?thesis using Cons.prems Cons.IH False c calibrate_interface_frame [OF c]
      by (cases r) (auto split: option.splits if_splits)
  qed (use Cons.prems in auto)
qed simp

lemma set_all_effect:
  assumes "set_all_motors_origin_here_callback E n = Some (r, n')"
  shows "control n' = control n \<and> (success r \<longleftrightarrow> current_state n = INACTIVE)"
  using assms calibrate_all_held
  by (fastforce simp: set_all_motors_origin_here_callback_def Let_def thread_frames split: if_splits option.splits)

lemma set_one_effect:
  assumes "documented (ev_lifecycle E)" and "set_motor_origin_here_callback E motor n = Some (r, n')"
  shows "control n' = control n \<or> current_state n = INACTIVE \<and> current_state n' = UNCONFIGURED \<and>
    msg_received n' = msg_received n \<and> watchdog_timer n' = watchdog_timer n \<and> accepted n' = accepted n"
proof (cases "current_state n = INACTIVE \<and> find_motor motor n \<noteq> None")
  case True
  then obtain i j where f: "find_motor motor n = Some (i, j)" by auto
  let ?m = "stop_comm_thread i n"
  let ?len = "length (joint_parameters_per_can_interface ?m ! i)"
  obtain q m where c: "can_call i (recalibrate ?len j) ?m = (q, m)" by force
  have cm: "control m = control n" using can_call_frame' [OF c] by (simp add: thread_frames)
  show ?thesis
  proof (cases q)
    case (Ok u)
    then show ?thesis using assms(2) True f c cm
      by (auto simp: set_motor_origin_here_callback_def Let_def thread_frames split: if_splits)
  next
    case (Throw x)
    then obtain l where l: "emergency_stop [0..<length (can_interfaces m)] m = Some l" "n' = cleanup E l"
      using assms(2) True f c by (auto simp: set_motor_origin_here_callback_def Let_def split: if_splits)
    have "control l = control n" using emergency_stop_frame [OF l(1)] cm by simp
    then show ?thesis using l(2) True assms(1) on_cleanup_frame(1,2,4) [of l] by (auto simp: cleanup_eq control_def)
  next
    case UB
    then show ?thesis using assms(2) True f c
      by (auto simp: set_motor_origin_here_callback_def Let_def split: if_splits)
  qed
next
  case False
  then show ?thesis using assms(2)
    by (cases "current_state n = INACTIVE"; cases "find_motor motor n")
      (simp_all add: set_motor_origin_here_callback_def)
qed

text \<open>
  An active node is watched and only an active one is; an inactive node holds a command that asks
  for no motion and no stiffness, or one of a given set.
\<close>

definition restful :: "node \<Rightarrow> bool" where
  "restful n \<longleftrightarrow> (\<exists>kd. joint_cmd_ptr n = Some (passive_command (joint_msg_length n) kd))"

definition settled :: "JointCommand set \<Rightarrow> node \<Rightarrow> bool" where
  "settled L n \<longleftrightarrow> (watchdog_timer n \<longleftrightarrow> current_state n = ACTIVE) \<and>
     (current_state n = INACTIVE \<longrightarrow> restful n \<or> joint_cmd_ptr n \<in> Some ` L)"

text \<open>The node before its first event; the constructor leaves \<open>msg_received_\<close> without a value.\<close>

definition initial :: "node \<Rightarrow> bool" where
  "initial n \<longleftrightarrow> current_state n = UNCONFIGURED \<and> \<not> watchdog_timer n \<and> accepted n = None"

lemma settled_control: "control n' = control n \<Longrightarrow> settled L n' = settled L n"
  by (simp add: control_def settled_def restful_def)

lemma deactivate_settled: "documented (ev_lifecycle E) \<Longrightarrow> settled L n \<Longrightarrow> settled L (deactivate E n)"
  by (auto simp: deactivate_eq settled_def restful_def)

lemma falls_back_settled:
  "documented (ev_lifecycle E) \<Longrightarrow> falls_back E n n' \<Longrightarrow> settled L n \<Longrightarrow> settled L n'"
  unfolding falls_back_def using settled_control deactivate_settled by blast

lemma cleanup_settled: "documented (ev_lifecycle E) \<Longrightarrow> settled L n \<Longrightarrow> settled L (cleanup E n)"
  using on_cleanup_frame(2) [of n] by (simp add: cleanup_eq settled_def)

lemma shutdown_settled: "documented (ev_lifecycle E) \<Longrightarrow> settled L n \<Longrightarrow> settled L (shutdown E n)"
  using on_cleanup_frame(2)
  by (cases "current_state n") (simp_all add: shutdown_eq settled_def on_shutdown_def on_deactivate_def Let_def)

lemma command_effect:
  "current_state (begin_command cmd n) = current_state n" "watchdog_timer (begin_command cmd n) = watchdog_timer n"
  "joint_msg_length (begin_command cmd n) = joint_msg_length n" "joint_cmd_ptr (begin_command cmd n) = joint_cmd_ptr n"
  "accepted (begin_command cmd n) = (if command_sizes_ok n cmd \<and> current_state n = ACTIVE then Some cmd else accepted n)"
  "current_state (end_command now cmd n) = current_state n" "watchdog_timer (end_command now cmd n) = watchdog_timer n"
  "joint_msg_length (end_command now cmd n) = joint_msg_length n" "joint_cmd_ptr (end_command now cmd n) = Some cmd"
  "accepted (end_command now cmd n) = None" "msg_received (end_command now cmd n) = msg_received n"
  by (simp_all add: begin_command_def end_command_def accept_command_def store_command_def Let_def)

lemma publish_frame: "joint_state_publish_callback t t' n = Some (p, n') \<Longrightarrow> control n' = control n"
  by (auto simp: joint_state_publish_callback_def control_def Let_def split: if_splits)

text \<open>A command that is stored although the node has become inactive stays.\<close>

lemma step_settled:
  assumes "documented (ev_lifecycle E)" and "node_step E n ev n'" and "settled L n"
    and late: "\<And>now cmd. ev = Ev_store now \<Longrightarrow> accepted n = Some cmd \<Longrightarrow> current_state n = INACTIVE \<Longrightarrow> cmd \<in> L"
  shows "settled L n'"
  using assms(2)
proof cases
  case (configure_step sys P now)
  from configure_effect [OF assms(1) this(3)] show ?thesis using assms(3)
    by (auto simp: settled_def restful_def sized_def split: if_splits)
next
  case (command_step cmd)
  then show ?thesis using assms(3) by (simp add: settled_def restful_def command_effect)
next
  case (store_step cmd now)
  then show ?thesis using assms(3) late by (simp add: settled_def restful_def command_effect)
next
  case (parameters_step ps)
  then show ?thesis using assms(3) by (simp add: settled_def restful_def parameters_frame)
next
  case watchdog_step
  have "settled L (m\<lparr>msg_received := False\<rparr>) = settled L m" for m by (simp add: settled_def restful_def)
  then show ?thesis using watchdog_step deactivate_settled [OF assms(1,3)] assms(3)
    by (simp add: watchdog_timer_callback_def Let_def)
next
  case supervisor_step
  have "settled L (n\<lparr>cleanup_requested := False\<rparr>)" using assms(3) by (simp add: settled_def restful_def)
  then show ?thesis using supervisor_step cleanup_settled [OF assms(1)] assms(3)
    by (simp add: supervisor_callback_def)
next
  case (cycle_step k c)
  show ?thesis using falls_back_settled [OF assms(1) cycle_falls_back [OF assms(1) cycle_step(4)] assms(3)] .
next
  case (publish_step t t' p)
  show ?thesis using settled_control [OF publish_frame [OF publish_step(3)]] assms(3) by simp
next
  case (origin_all_step r)
  have "control n' = control n" using set_all_effect [OF origin_all_step(4)] by simp
  from settled_control [OF this] show ?thesis using assms(3) by simp
next
  case (origin_step motor r)
  from set_one_effect [OF assms(1) this(4)] settled_control [of n' n] show ?thesis using assms(3)
    by (auto simp: settled_def)
next
  case activate_step
  then show ?thesis using assms(1,3) by (auto simp: activate_eq settled_def)
qed (use assms in \<open>simp_all add: deactivate_settled cleanup_settled shutdown_settled\<close>)

text \<open>The commands of a run that are stored while the node is inactive.\<close>

definition late_commands :: "env \<Rightarrow> node \<Rightarrow> event list \<Rightarrow> JointCommand set" where
  "late_commands E n evs = {cmd. \<exists>xs now ys m. evs = xs @ Ev_store now # ys \<and> node_run E n xs m \<and>
     accepted m = Some cmd \<and> current_state m = INACTIVE}"

lemma late_commands_cons:
  assumes "node_step E n ev m"
  shows "late_commands E m evs \<subseteq> late_commands E n (ev # evs)"
proof
  fix cmd assume "cmd \<in> late_commands E m evs"
  then obtain xs now ys l where "evs = xs @ Ev_store now # ys" "node_run E m xs l" "accepted l = Some cmd"
    "current_state l = INACTIVE" by (auto simp: late_commands_def)
  then show "cmd \<in> late_commands E n (ev # evs)" unfolding late_commands_def
    by (intro CollectI exI [of _ "ev # xs"] exI [of _ now] exI [of _ ys] exI [of _ l])
      (simp add: run_cons [OF assms])
qed

lemma run_settled:
  "node_run E n evs n' \<Longrightarrow> documented (ev_lifecycle E) \<Longrightarrow> settled L n \<Longrightarrow> late_commands E n evs \<subseteq> L \<Longrightarrow>
     settled L n'"
proof (induction rule: node_run.induct)
  case (run_cons n ev m evs n')
  have "cmd \<in> L" if "ev = Ev_store now" "accepted n = Some cmd" "current_state n = INACTIVE" for now cmd
  proof -
    have "cmd \<in> late_commands E n (ev # evs)" unfolding late_commands_def
      by (intro CollectI exI [of _ "[]"] exI [of _ now] exI [of _ evs] exI [of _ n]) (simp add: that run_nil)
    then show ?thesis using run_cons.prems(3) by blast
  qed
  then have "settled L m" by (rule step_settled [OF run_cons.prems(1) run_cons.hyps(1) run_cons.prems(2)])
  then show ?case using run_cons.IH run_cons.prems late_commands_cons [OF run_cons.hyps(1), of evs] by blast
qed simp

lemma initial_settled: "initial n \<Longrightarrow> settled L n"
  by (simp add: initial_def settled_def)

text \<open>What becomes of an accepted command: it waits until it is stored, whatever happens meanwhile.\<close>

lemma step_accepted:
  assumes "documented (ev_lifecycle E)" and "node_step E n ev n'"
  shows "accepted n' = (case ev of Ev_command cmd \<Rightarrow> if command_sizes_ok n cmd \<and> current_state n = ACTIVE then Some cmd else None
      | Ev_store now \<Rightarrow> None | _ \<Rightarrow> accepted n)"
  using assms(2)
proof cases
  case (configure_step sys P now)
  then show ?thesis using configure_effect [OF assms(1) configure_step(3)] by (auto split: if_splits)
next
  case (cycle_step k c)
  have "accepted (deactivate E n) = accepted n" using assms(1) by (simp add: deactivate_eq)
  then show ?thesis using cycle_falls_back [OF assms(1) cycle_step(4)] cycle_step(1)
    by (auto simp: falls_back_def dest!: control_eqD)
next
  case (publish_step t t' p)
  then show ?thesis using control_eqD [OF publish_frame [OF publish_step(3)]] by simp
next
  case (origin_all_step r)
  have "control n' = control n" using set_all_effect [OF origin_all_step(4)] by simp
  from control_eqD [OF this] show ?thesis using origin_all_step(1) by simp
next
  case (origin_step motor r)
  show ?thesis using set_one_effect [OF assms(1) origin_step(4)] origin_step(1) control_eqD [of n' n] by auto
next
  case supervisor_step
  then show ?thesis using assms(1) on_cleanup_frame(4) by (simp add: supervisor_callback_def cleanup_eq)
next
  case shutdown_step
  then show ?thesis using assms(1) on_cleanup_frame(4)
    by (simp add: shutdown_eq on_shutdown_def on_deactivate_def Let_def)
next
  case (command_step cmd)
  then show ?thesis by (simp add: command_effect)
next
  case (store_step cmd now)
  then show ?thesis by (simp add: command_effect)
next
  case (parameters_step ps)
  then show ?thesis by (simp add: parameters_frame(6))
next
  case watchdog_step
  then show ?thesis using assms(1) by (simp add: watchdog_timer_callback_def deactivate_eq Let_def)
next
  case activate_step
  then show ?thesis using assms(1) by (simp add: activate_eq)
next
  case deactivate_step
  then show ?thesis using assms(1) by (simp add: deactivate_eq)
next
  case cleanup_step
  then show ?thesis using assms(1) by (simp add: cleanup_eq on_cleanup_frame(4))
qed

end
