(* ===== verification/NodeSetup.thy ===== *)
theory NodeSetup
  imports NodeSystem
begin

text \<open>
  What a configuration establishes: the vectors of a configured node fit together, joint by joint
  and interface by interface; and what a configuration that is rejected half-way leaves behind, and
  what that does to the next.
\<close>

section \<open>Vectors filled joint by joint\<close>

lemma fold_push_at:
  assumes "k < length xss"
  shows "fold (\<lambda>su. push_at (f su) (g su)) sus xss ! k = xss ! k @ map g [su \<leftarrow> sus. f su = k]"
  using assms
proof (induction sus arbitrary: xss)
  case (Cons su sus)
  then show ?case by (cases "f su = k") (simp_all add: nth_push_at)
qed simp

lemma length_fold_push_at [simp]: "length (fold (\<lambda>su. push_at (f su) (g su)) sus xss) = length xss"
  by (induction sus arbitrary: xss) simp_all

text \<open>The setups that the loop has read, and the vectors it leaves.\<close>

lemma add_joints_fold:
  "add_joints P names ijs acc = Inr acc' \<Longrightarrow>
     \<exists>sus. list_all2 (\<lambda>ij su. read_joint P names ij = Inr su) ijs sus \<and> acc' = fold add_joint sus acc"
proof (induction ijs arbitrary: acc)
  case (Cons ij ijs)
  then obtain su where su: "read_joint P names ij = Inr su" "add_joints P names ijs (add_joint su acc) = Inr acc'"
    by (auto split: sum.splits)
  from Cons.IH [OF su(2)] obtain sus where
    "list_all2 (\<lambda>ij su. read_joint P names ij = Inr su) ijs sus" "acc' = fold add_joint sus (add_joint su acc)" by blast
  then show ?case using su(1) by (intro exI [of _ "su # sus"]) simp
qed simp

definition blank_cmd :: joint_cmd where
  "blank_cmd = \<lparr>cmd_pos = Fin 0, cmd_vel = Fin 0, cmd_torque = Fin 0, cmd_kp = Fin 0, cmd_kd = Fin 0\<rparr>"

definition first_state :: joint_state where
  "first_state =
     \<lparr>st_pos = Fin 0, st_vel = Fin 0, st_torque = Fin 0, st_temp = Fin 0, device_status = NO_FAULT,
      communication_status = SUCCESS, com_errno = 0, rx_timestamp_ns = 0, send_timestamp_ns = 0,
      dequeue_timestamp_ns = 0, enqueue_timestamp_ns = 0, rx_hw_timestamp_ns = 0\<rparr>"

text \<open>The part of the node that the loop over the joints fills.\<close>

definition filled :: "joint_setup list \<Rightarrow> joint_config list list \<times> node \<Rightarrow> joint_config list list \<times> node \<Rightarrow> bool" where
  "filled sus acc acc' \<longleftrightarrow>
     (let n = snd acc; n' = snd acc' in
      fst acc' = fold (\<lambda>su. push_at (su_interface su) (su_config su)) sus (fst acc) \<and>
      joint_commands_per_can_interface n' =
        fold (\<lambda>su. push_at (su_interface su) blank_cmd) sus (joint_commands_per_can_interface n) \<and>
      joint_states_per_can_interface n' =
        fold (\<lambda>su. push_at (su_interface su) first_state) sus (joint_states_per_can_interface n) \<and>
      joint_parameters_per_can_interface n' =
        fold (\<lambda>su. push_at (su_interface su) (su_parameters su)) sus (joint_parameters_per_can_interface n) \<and>
      joint_vel_filters_per_can_interface n' =
        fold (\<lambda>su. push_at (su_interface su) (MovingAverage double_num (unat (vel_filter_size (su_parameters su))))) sus
          (joint_vel_filters_per_can_interface n) \<and>
      joint_ab_filters_per_can_interface n' =
        fold (\<lambda>su. push_at (su_interface su) (AlphaBetaFilter double_num (su_alpha su) (su_beta su))) sus
          (joint_ab_filters_per_can_interface n) \<and>
      joint_pos_median_filters_per_can_interface n' =
        fold (\<lambda>su. push_at (su_interface su) (MedianFilter double_num (unat (pos_median_filter_size (su_parameters su))))) sus
          (joint_pos_median_filters_per_can_interface n) \<and>
      last_joint_rx_ns_per_can_interface n' =
        fold (\<lambda>su. push_at (su_interface su) 0) sus (last_joint_rx_ns_per_can_interface n))"

lemma fold_add_joint_filled: "filled sus acc (fold add_joint sus acc)"
proof (induction sus arbitrary: acc)
  case Nil
  then show ?case by (simp add: filled_def)
next
  case (Cons su sus)
  obtain cfgs n where acc: "acc = (cfgs, n)" by force
  show ?case using Cons.IH [of "add_joint su acc"]
    by (simp add: filled_def acc add_joint_def Let_def blank_cmd_def first_state_def)
qed

text \<open>What the loops after the sizing leave alone.\<close>

definition sizes ::
  "node \<Rightarrow> (nat \<times> JointCommand option \<times> JointState \<times> diagnostics) \<times> u32 list \<times> int list \<times> int list \<times> int list \<times> int list \<times> int list"
  where
  "sizes n = ((joint_msg_length n, joint_cmd_ptr n, joint_state_msg n, diag n), num_can_errors_per_interfaces n,
     last_can_cycle_times n, last_cycle_end_ns_per_can_interface n, joint_rx_ns n, joint_rx_delivery_floor_ns n,
     joint_rx_hw_base_ns n)"

definition joint_data ::
  "node \<Rightarrow> joint_cmd list list \<times> joint_state list list \<times> JointParameters list list \<times> fp moving_average list list \<times>
     fp alpha_beta list list \<times> fp median_filter list list \<times> int list list \<times> (string \<times> nat \<times> nat) list" where
  "joint_data n = (joint_commands_per_can_interface n, joint_states_per_can_interface n,
     joint_parameters_per_can_interface n, joint_vel_filters_per_can_interface n,
     joint_ab_filters_per_can_interface n, joint_pos_median_filters_per_can_interface n,
     last_joint_rx_ns_per_can_interface n, joint_name_to_can_iface_and_idx n)"

lemma fold_add_joint_sizes:
  "sizes (snd (fold add_joint sus acc)) = sizes (snd acc) \<and>
   can_interfaces (snd (fold add_joint sus acc)) = can_interfaces (snd acc) \<and>
   comm_threads (snd (fold add_joint sus acc)) = comm_threads (snd acc)"
proof (induction sus arbitrary: acc)
  case (Cons su sus)
  have "sizes (snd (add_joint su acc)) = sizes (snd acc) \<and>
    can_interfaces (snd (add_joint su acc)) = can_interfaces (snd acc) \<and>
    comm_threads (snd (add_joint su acc)) = comm_threads (snd acc)"
    by (cases acc) (simp add: add_joint_def Let_def sizes_def)
  then show ?case using Cons.IH [of "add_joint su acc"] by simp
qed simp

section \<open>The index of the names\<close>

lemma names_add_joint:
  assumes "names_ok n" and "param_joint_name (su_parameters su) \<notin> fst ` set (joint_name_to_can_iface_and_idx n)"
    and "su_interface su < length (joint_parameters_per_can_interface n)"
  shows "names_ok (snd (add_joint su (cfgs, n)))"
proof -
  let ?k = "su_interface su" and ?n' = "snd (add_joint su (cfgs, n))"
  let ?ix = "(?k, length (joint_parameters_per_can_interface n ! ?k))"
  let ?l = "joint_name_to_can_iface_and_idx n"
  have up: "AList.update a b xs = xs @ [(a, b)]" if "a \<notin> fst ` set xs" for a and b :: "nat \<times> nat" and xs
    using that by (induction xs) auto
  have l: "joint_name_to_can_iface_and_idx ?n' = ?l @ [(param_joint_name (su_parameters su), ?ix)]"
    using up [OF assms(2)] by (simp add: add_joint_def Let_def)
  have j: "joints ?n' = insert ?ix (joints n)"
    using assms(3) by (auto simp: joints_iff add_joint_def Let_def nth_push_at split: if_splits)
  have "?ix \<notin> joints n" by (simp add: joints_iff)
  then have "?ix \<notin> snd ` set ?l" using assms(1) by (simp add: names_ok_def)
  then show ?thesis using assms(1,2) unfolding names_ok_def l j by (simp add: names_ok_def)
qed

lemma names_fold_add_joint:
  assumes "names_ok (snd acc)" and "distinct (map (\<lambda>su. param_joint_name (su_parameters su)) sus)"
    and "\<forall>su\<in>set sus. param_joint_name (su_parameters su) \<notin> fst ` set (joint_name_to_can_iface_and_idx (snd acc)) \<and>
      su_interface su < length (joint_parameters_per_can_interface (snd acc))"
  shows "names_ok (snd (fold add_joint sus acc))"
  using assms
proof (induction sus arbitrary: acc)
  case (Cons su sus)
  obtain cfgs n where acc: "acc = (cfgs, n)" by force
  have "fst ` set (joint_name_to_can_iface_and_idx (snd (add_joint su acc))) =
      insert (param_joint_name (su_parameters su)) (fst ` set (joint_name_to_can_iface_and_idx n))"
    by (simp add: acc add_joint_def Let_def dom_update)
  moreover have "length (joint_parameters_per_can_interface (snd (add_joint su acc))) = length (joint_parameters_per_can_interface n)"
    by (simp add: acc add_joint_def Let_def)
  moreover have "names_ok (snd (add_joint su acc))"
    using names_add_joint [of n su cfgs] Cons.prems by (simp add: acc)
  moreover have "\<forall>x\<in>set sus. param_joint_name (su_parameters x) \<noteq> param_joint_name (su_parameters su)"
    using Cons.prems(2) by (simp add: image_iff) metis
  ultimately show ?case using Cons.IH [of "add_joint su acc"] Cons.prems by (simp add: acc)
qed simp

section \<open>What validation establishes\<close>

text \<open>The interface, message index and identifier of a joint as the parameters have them.\<close>

definition iface_of :: "params \<Rightarrow> nat \<times> string \<Rightarrow> string" where
  "iface_of P ij = (case of_joint P as_string (snd ij) ''can_interface'' None of Inr x \<Rightarrow> x | Inl _ \<Rightarrow> [])"

definition index_of :: "params \<Rightarrow> nat \<times> string \<Rightarrow> int" where
  "index_of P ij = (case of_joint P as_int (snd ij) ''msg_idx'' (Some (int (fst ij))) of Inr x \<Rightarrow> x | Inl _ \<Rightarrow> 0)"

definition can_id_of :: "params \<Rightarrow> string \<Rightarrow> int" where
  "can_id_of P joint = (case of_joint P as_int joint ''can_id'' None of Inr x \<Rightarrow> x | Inl _ \<Rightarrow> 0)"

definition ratio_of :: "params \<Rightarrow> string \<Rightarrow> fp" where
  "ratio_of P joint =
     (case of_joint P as_double joint ''transmission_ratio'' (Some (Fin 1)) of Inr x \<Rightarrow> x | Inl _ \<Rightarrow> NaN)"

lemma validate_joint_facts:
  assumes "validate_joint P ij v = Inr v'"
  shows "seen_interfaces v' = seen_interfaces v @ [iface_of P ij] \<and>
    seen_msg_idxs v' = seen_msg_idxs v @ [to_int32 (index_of P ij)] \<and>
    seen_can_ids v' = seen_can_ids v @ [(iface_of P ij, to_int32 (can_id_of P (snd ij)))] \<and>
    to_int32 (index_of P ij) \<notin> set (seen_msg_idxs v) \<and> 0 \<le> index_of P ij \<and>
    (iface_of P ij, to_int32 (can_id_of P (snd ij))) \<notin> set (seen_can_ids v) \<and>
    \<not> fp_le (ratio_of P (snd ij)) (Fin 0) \<and>
    max_msg_idx v' = (if uint (max_msg_idx v) < index_of P ij then to_unsigned (index_of P ij) else max_msg_idx v)"
  using assms
  by (auto simp: validate_joint_def Let_def andThen_Inr iface_of_def index_of_def can_id_of_def ratio_of_def split: if_splits)

lemma validate_joints_facts:
  assumes "validate_joints P ijs v = Inr v'" and "distinct (seen_msg_idxs v)" and "distinct (seen_can_ids v)"
    and "\<forall>ij\<in>set ijs. index_of P ij < 2 ^ 32"
  shows "seen_interfaces v' = seen_interfaces v @ map (iface_of P) ijs \<and>
    seen_msg_idxs v' = seen_msg_idxs v @ map (\<lambda>ij. to_int32 (index_of P ij)) ijs \<and> distinct (seen_msg_idxs v') \<and>
    seen_can_ids v' = seen_can_ids v @ map (\<lambda>ij. (iface_of P ij, to_int32 (can_id_of P (snd ij)))) ijs \<and>
    distinct (seen_can_ids v') \<and>
    (\<forall>ij\<in>set ijs. 0 \<le> index_of P ij \<and> \<not> fp_le (ratio_of P (snd ij)) (Fin 0) \<and>
      index_of P ij \<le> uint (max_msg_idx v')) \<and> uint (max_msg_idx v) \<le> uint (max_msg_idx v') \<and>
    (uint (max_msg_idx v') = uint (max_msg_idx v) \<or> (\<exists>ij\<in>set ijs. uint (max_msg_idx v') = index_of P ij))"
  using assms
proof (induction ijs arbitrary: v)
  case (Cons ij ijs)
  obtain w where w: "validate_joint P ij v = Inr w" "validate_joints P ijs w = Inr v'"
    using Cons.prems(1) by (auto simp: andThen_Inr)
  note f = validate_joint_facts [OF w(1)]
  have small: "0 \<le> index_of P ij" "index_of P ij < 2 ^ 32" using f Cons.prems(4) by auto
  have "uint (to_unsigned (index_of P ij)) = index_of P ij"
    using small by (simp add: to_unsigned_def uint_word_of_int)
  then have m: "uint (max_msg_idx w) = max (uint (max_msg_idx v)) (index_of P ij)" using f by auto
  have d: "distinct (seen_msg_idxs w)" "distinct (seen_can_ids w)" using f Cons.prems(2,3) by auto
  have "\<forall>x\<in>set ijs. index_of P x < 2 ^ 32" using Cons.prems(4) by simp
  note IH = Cons.IH [OF w(2) d this]
  have "uint (max_msg_idx v') = uint (max_msg_idx v) \<or> (\<exists>x\<in>set (ij # ijs). uint (max_msg_idx v') = index_of P x)"
    using IH m by (auto simp: max_def split: if_splits)
  moreover have "index_of P ij \<le> uint (max_msg_idx v')" "uint (max_msg_idx v) \<le> uint (max_msg_idx v')"
    using IH m by linarith+
  moreover have "\<forall>x\<in>set (ij # ijs). 0 \<le> index_of P x \<and> \<not> fp_le (ratio_of P (snd x)) (Fin 0) \<and>
      index_of P x \<le> uint (max_msg_idx v')"
    using IH f calculation(2) by auto
  moreover have "distinct (seen_msg_idxs v')" "distinct (seen_can_ids v')" using IH by blast+
  moreover have "seen_interfaces v' = seen_interfaces v @ map (iface_of P) (ij # ijs)"
    "seen_msg_idxs v' = seen_msg_idxs v @ map (\<lambda>ij. to_int32 (index_of P ij)) (ij # ijs)"
    "seen_can_ids v' = seen_can_ids v @ map (\<lambda>ij. (iface_of P ij, to_int32 (can_id_of P (snd ij)))) (ij # ijs)"
    using IH f by auto
  ultimately show ?case by blast
qed simp

lemma need_Inr: "need r = Inr x \<longleftrightarrow> r = Some x"
  by (simp add: need_def split: option.split)

lemma find_index_nth: "find_index (\<lambda>x. x = y) xs = Some k \<Longrightarrow> k < length xs \<and> xs ! k = y"
  using find_index_Some [of "\<lambda>x. x = y" xs k] by simp

lemma read_joint_facts:
  assumes "read_joint P names ij = Inr su"
  shows "su_interface su < length names \<and> names ! su_interface su = iface_of P ij \<and>
    msg_idx (su_parameters su) = to_unsigned (index_of P ij) \<and>
    can_id (su_config su) = to_unsigned (can_id_of P (snd ij)) \<and>
    transmission_ratio (su_parameters su) = ratio_of P (snd ij) \<and> param_joint_name (su_parameters su) = snd ij"
  using assms unfolding read_joint_def Let_def
  by (auto simp: andThen_Inr need_Inr iface_of_def index_of_def can_id_of_def ratio_of_def
    dest!: find_index_nth split: option.splits if_splits)

section \<open>What enabling the motors leaves of the drivers\<close>

definition keeps_setup :: "call \<Rightarrow> bool" where
  "keeps_setup f \<longleftrightarrow> (\<forall>d. same_setup d (snd (f d)))"

lemma setup_seq [intro!]: "keeps_setup f \<Longrightarrow> keeps_setup g \<Longrightarrow> keeps_setup (seq f g)"
  unfolding keeps_setup_def seq_def by (auto split: prod.splits outcome.splits) (metis snd_conv same_setup_trans)+

lemma setup_basic [intro!]:
  "keeps_setup returns" "keeps_setup (set_timeout tv)"
  "keeps_setup f \<Longrightarrow> keeps_setup g \<Longrightarrow> keeps_setup (if b then f else g)"
  by (simp_all add: keeps_setup_def returns_def set_timeout_def sys_set_rcvtimeo_def same_setup_def ready_def Let_def)

lemma setup_motor [intro!]:
  "keeps_setup (enable cfg)" "keeps_setup (disable cfg)" "keeps_setup (set_origin cfg)"
  "keeps_setup (retry (zero_current c) k)"
  using enabling.channel [THEN control_channel.send_setup] disabling.channel [THEN control_channel.send_setup]
    origin.channel [THEN control_channel.send_setup] idle.retry_setup [THEN conjunct1]
  by (simp_all add: keeps_setup_def)

lemma setup_start [intro!]: "keeps_setup (start_motor_control_mode j z)"
proof -
  have "keeps_setup (seq (if a then retry (zero_current c) k else returns)
      (seq (if z then seq (set_timeout t) (set_origin cfg) else returns)
        (seq (enable cfg) (if z then set_timeout t' else returns))))" for a c k t t' cfg
    by (intro setup_seq setup_basic setup_motor)
  then show ?thesis by (auto simp: start_motor_control_mode_def Let_def keeps_setup_def)
qed

lemma setup_end [intro!]: "keeps_setup (end_motor_control_mode j)"
  using setup_motor(2) by (auto simp: end_motor_control_mode_def keeps_setup_def)

lemma setup_for_each [intro!]: "(\<And>i. keeps_setup (f i)) \<Longrightarrow> keeps_setup (for_each f is)"
proof (induction "is")
  case Nil
  have "for_each f [] = returns" by (rule ext) simp
  then show ?case by auto
next
  case (Cons i "is")
  have "for_each f (i # is) = seq (f i) (for_each f is)" by (rule ext) simp
  then show ?case using Cons by auto
qed

lemma setup_configs: "keeps_setup f \<Longrightarrow> joint_configs (snd (f d)) = joint_configs d"
  by (simp add: keeps_setup_def same_setup_def)

lemma keeps_start: "joint_configs (snd (start_motor_control_mode j z d)) = joint_configs d"
  and keeps_end: "joint_configs (snd (end_motor_control_mode j d)) = joint_configs d"
  using setup_configs setup_start setup_end by blast+

text \<open>The interfaces that a call leaves: the same pointers, with the same joints behind them.\<close>

definition same_interfaces :: "node \<Rightarrow> node \<Rightarrow> bool" where
  "same_interfaces n n' \<longleftrightarrow> (\<exists>cs. n' = n\<lparr>can_interfaces := cs\<rparr> \<and>
     map (map_option joint_configs) cs = map (map_option joint_configs) (can_interfaces n))"

lemma same_interfaces_refl [simp]: "same_interfaces n n"
  unfolding same_interfaces_def by (intro exI [of _ "can_interfaces n"]) simp

lemma same_interfaces_trans [trans]: "same_interfaces a b \<Longrightarrow> same_interfaces b c \<Longrightarrow> same_interfaces a c"
  unfolding same_interfaces_def by auto

lemma can_call_same:
  assumes "\<And>d. joint_configs (snd (f d)) = joint_configs d"
  shows "same_interfaces n (snd (can_call i f n))"
proof (cases "can_interfaces n ! i")
  case None
  then show ?thesis by (simp add: can_call_def)
next
  case (Some d)
  have "map (map_option joint_configs) ((can_interfaces n)[i := Some (snd (f d))]) =
      map (map_option joint_configs) (can_interfaces n)"
    using Some assms [of d] by (cases "i < length (can_interfaces n)") (auto intro!: nth_equalityI simp: nth_list_update)
  then show ?thesis using Some by (auto simp: can_call_def same_interfaces_def split_beta)
qed

lemma each_caught_same:
  assumes "\<And>ij d. joint_configs (snd (f ij d)) = joint_configs d"
  shows "same_interfaces n (snd (each_caught f ijs n))"
proof (induction ijs arbitrary: n)
  case (Cons ij ijs)
  have "same_interfaces n (snd (can_call (fst ij) (f ij) n))" using can_call_same assms by blast
  then show ?case using Cons.IH same_interfaces_trans by (fastforce simp: split_beta)
qed simp

section \<open>What a successful configuration establishes\<close>

lemma open_interfaces_drivers:
  assumes "open_interfaces sys P cfgs ks n = Some (Inr n')" and "distinct (map fst ks)"
  shows "\<exists>cs. n' = n\<lparr>can_interfaces := cs\<rparr> \<and> length cs = length (can_interfaces n) \<and>
    (\<forall>k<length cs. map_option joint_configs (cs ! k) =
       (if k \<in> fst ` set ks then Some (cfgs ! k) else map_option joint_configs (can_interfaces n ! k)))"
  using assms
proof (induction ks arbitrary: n)
  case Nil
  then show ?case by (intro exI [of _ "can_interfaces n"]) simp
next
  case (Cons kn ks)
  obtain k name where kn: "kn = (k, name)" by force
  obtain loopback sec usec trials where st: "interface_settings P = Some (loopback, sec, usec, trials)"
    using Cons.prems(1) by (auto simp: kn split: option.splits)
  let ?c = "CubemarsCan (fst (sys name)) (snd (sys name)) name (of_bool loopback) (cfgs ! k) sec usec
        (to_unsigned trials) (node_tx_timestamping n) (node_error_frames n)"
  obtain drv where drv: "fst ?c = Ok drv"
    using Cons.prems(1) by (cases "fst ?c") (auto simp: kn st)
  have conf: "joint_configs drv = cfgs ! k"
    using drv by (auto simp: CubemarsCan_def initial_driver_def split: if_splits prod.splits bool.splits)
  have "open_interfaces sys P cfgs ks (n\<lparr>can_interfaces := (can_interfaces n)[k := Some drv]\<rparr>) = Some (Inr n')"
    using Cons.prems(1) drv by (simp add: kn st)
  from Cons.IH [OF this] Cons.prems(2) obtain cs where cs: "n' = n\<lparr>can_interfaces := cs\<rparr>"
    "length cs = length (can_interfaces n)"
    "\<forall>i<length cs. map_option joint_configs (cs ! i) = (if i \<in> fst ` set ks then Some (cfgs ! i)
       else map_option joint_configs ((can_interfaces n)[k := Some drv] ! i))"
    by (auto simp: kn)
  have "map_option joint_configs (cs ! i) =
      (if i \<in> fst ` set (kn # ks) then Some (cfgs ! i) else map_option joint_configs (can_interfaces n ! i))"
    if "i < length cs" for i
    using cs(2,3) that conf by (cases "i = k") (auto simp: kn)
  with cs(1,2) show ?case by blast
qed

lemma fold_start_threads:
  "\<exists>ts. fold start_comm_thread ks n = n\<lparr>comm_threads := ts\<rparr> \<and> length ts = length (comm_threads n) \<and>
     (\<forall>k<length ts. ts ! k \<longleftrightarrow> comm_threads n ! k \<or> k \<in> set ks)"
proof (induction ks arbitrary: n)
  case Nil
  then show ?case by (intro exI [of _ "comm_threads n"]) simp
next
  case (Cons k ks)
  obtain ts where ts: "start_comm_thread k n = n\<lparr>comm_threads := ts\<rparr>" "length ts = length (comm_threads n)"
    "\<forall>i<length ts. ts ! i \<longleftrightarrow> comm_threads n ! i \<or> i = k"
  proof (cases "comm_threads n ! k")
    case True
    then show thesis by (intro that [of "comm_threads n"]) (auto simp: start_comm_thread_def)
  next
    case False
    then show thesis
      by (intro that [of "(comm_threads n)[k := True]"]) (auto simp: start_comm_thread_def nth_list_update_if)
  qed
  from Cons.IH [of "start_comm_thread k n"] obtain us where
    "fold start_comm_thread ks (start_comm_thread k n) = n\<lparr>comm_threads := us\<rparr>" "length us = length ts"
    "\<forall>i<length us. us ! i \<longleftrightarrow> ts ! i \<or> i \<in> set ks"
    by (auto simp: ts)
  then show ?case using ts by (intro exI [of _ us]) auto
qed

lemma start_motors_node:
  assumes "start_motors cfgs n = Some (LC_SUCCESS, n')" and "length (comm_threads n) = length (can_interfaces n)"
  obtains cs ts where "n' = n\<lparr>publish_timer := True, joint_cmd_sub := True, can_interfaces := cs,
      on_set_parameters_handle := True, supervisor_timer := True, comm_threads := ts\<rparr>"
    "map (map_option joint_configs) cs = map (map_option joint_configs) (can_interfaces n)"
    "length ts = length (comm_threads n)" "\<forall>k<length ts. ts ! k"
proof -
  let ?n = "n\<lparr>publish_timer := True, joint_cmd_sub := True\<rparr>"
  obtain failure m where e: "enable_motors ?n = (failure, m)" by force
  have f: "\<not> failure" "n' = start_threads (m\<lparr>on_set_parameters_handle := True, supervisor_timer := True\<rparr>)"
    using assms(1) e by (auto simp: start_motors_def roll_back_def Let_def split: if_splits)
  have "same_interfaces ?n (snd (enable_motors ?n))"
    unfolding enable_motors_def by (rule each_caught_same) (simp add: split_beta keeps_start)
  then obtain cs where cs: "m = ?n\<lparr>can_interfaces := cs\<rparr>"
    "map (map_option joint_configs) cs = map (map_option joint_configs) (can_interfaces n)"
    using e by (auto simp: same_interfaces_def)
  have len: "length cs = length (can_interfaces n)" using cs(2) by (metis length_map)
  let ?m = "m\<lparr>on_set_parameters_handle := True, supervisor_timer := True\<rparr>"
  obtain ts where ts: "n' = ?m\<lparr>comm_threads := ts\<rparr>" "length ts = length (comm_threads ?m)"
    "\<forall>k<length ts. ts ! k \<longleftrightarrow> comm_threads ?m ! k \<or> k \<in> set [0..<length (can_interfaces ?m)]"
    using fold_start_threads [of "[0..<length (can_interfaces ?m)]" ?m] f(2) unfolding start_threads_def by blast
  show thesis
  proof (rule that)
    show "n' = n\<lparr>publish_timer := True, joint_cmd_sub := True, can_interfaces := cs,
      on_set_parameters_handle := True, supervisor_timer := True, comm_threads := ts\<rparr>"
      using ts(1) cs(1) by simp
    show "\<forall>k<length ts. ts ! k" using ts(2,3) cs(1) len assms(2) by simp
  qed (use cs(2) ts(2) cs(1) in simp_all)
qed

lemma list_all2_map_eq:
  "list_all2 R xs ys \<Longrightarrow> (\<And>x y. R x y \<Longrightarrow> f y = g x) \<Longrightarrow> map f ys = map g xs"
  by (induction rule: list_all2_induct) auto

text \<open>The vectors that are indexed by the message index of a joint have the length of the message.\<close>

definition lengths_fit :: "node \<Rightarrow> bool" where
  "lengths_fit n \<longleftrightarrow>
     (let len = joint_msg_length n; m = joint_state_msg n; d = diag n in
      length (js_position m) = len \<and> length (js_velocity m) = len \<and> length (js_effort m) = len \<and>
      length (joint_rx_ns n) = len \<and> length (joint_rx_delivery_floor_ns n) = len \<and> length (joint_rx_hw_base_ns n) = len \<and>
      list_all (\<lambda>xs. length xs = len)
        [joint_temp d, joint_state_age d, joint_rx_delivery d, joint_rx_hw_timestamp d, joint_reply_after_tx d,
         joint_cmd_to_bus_latency d, joint_motor_reply_latency d, joint_enqueue_to_wire d, unfiltered_velocity d,
         unfiltered_position d])"

definition message_fits :: "node \<Rightarrow> bool" where
  "message_fits n \<longleftrightarrow> restful n \<and> lengths_fit n"

definition parameters_at :: "node \<Rightarrow> nat \<times> nat \<Rightarrow> JointParameters" where
  "parameters_at n ix = joint_parameters_per_can_interface n ! fst ix ! snd ix"

definition interface_fits :: "nat \<Rightarrow> node \<Rightarrow> bool" where
  "interface_fits k n \<longleftrightarrow> aligned k n \<and> diagnostics_fit k n \<and> comm_threads n ! k \<and>
     (\<exists>d. can_interfaces n ! k = Some d \<and>
       length (joint_configs d) = length (joint_parameters_per_can_interface n ! k) \<and>
       distinct (map can_id (joint_configs d)))"

definition well_formed :: "node \<Rightarrow> bool" where
  "well_formed n \<longleftrightarrow>
     length (joint_parameters_per_can_interface n) = length (can_interfaces n) \<and>
     (\<forall>k<length (can_interfaces n). interface_fits k n) \<and> filters_shape n \<and> names_ok n \<and> message_fits n \<and>
     (\<forall>ix\<in>joints n. unat (msg_idx (parameters_at n ix)) < joint_msg_length n \<and>
        \<not> fp_le (transmission_ratio (parameters_at n ix)) (Fin 0)) \<and>
     inj_on (\<lambda>ix. msg_idx (parameters_at n ix)) (joints n)"

text \<open>A node without joints: before its first configuration, or after a clean-up.\<close>

definition no_joints :: "node \<Rightarrow> bool" where
  "no_joints n \<longleftrightarrow> joint_data n = ([], [], [], [], [], [], [], [])"

text \<open>The message indices of the joints fit in 32 bits, so that no narrowing takes place.\<close>

definition small_indices :: "params \<Rightarrow> bool" where
  "small_indices P \<longleftrightarrow>
     (\<forall>js. P ''joints'' = Some (PStringArray js) \<longrightarrow> (\<forall>i<length js. index_of P (i, js ! i) < 2 ^ 32 - 1))"

lemma as_string_array_Some: "as_string_array v = Some js \<Longrightarrow> v = PStringArray js"
  by (cases v) simp_all

lemma read_globals_joints:
  assumes "read_globals P n = Inr (js, m)"
  shows "P ''joints'' = Some (PStringArray js) \<and> joint_data m = joint_data n"
proof -
  have "Option.bind (P ''joints'') as_string_array = Some js" "joint_data m = joint_data n"
    using assms by (auto simp: read_globals_def andThen_Inr joint_data_def split: option.splits dest!: member_cases(1))
  then show ?thesis by (cases "P ''joints''") (auto dest: as_string_array_Some)
qed

text \<open>What the loop over the joints has read, in the terms of the validation.\<close>

definition joint_list :: "params \<Rightarrow> string list \<Rightarrow> (nat \<times> string) list \<Rightarrow> joint_setup list \<Rightarrow> bool" where
  "joint_list P names ijs sus \<longleftrightarrow>
     list_all2 (\<lambda>ij su. read_joint P names ij = Inr su) ijs sus \<and>
     distinct (map (\<lambda>ij. to_int32 (index_of P ij)) ijs) \<and>
     distinct (map (\<lambda>ij. (iface_of P ij, to_int32 (can_id_of P (snd ij)))) ijs)"

lemma distinct_mapD: "distinct (map f (map g xs)) \<Longrightarrow> distinct (map g xs)"
  by (rule distinct_map [THEN iffD1, THEN conjunct1])

lemma joint_list_mapped:
  assumes "joint_list P names ijs sus"
  shows "map (\<lambda>su. (names ! su_interface su, msg_idx (su_parameters su), can_id (su_config su), param_joint_name (su_parameters su))) sus =
    map (\<lambda>ij. (iface_of P ij, to_unsigned (index_of P ij), to_unsigned (can_id_of P (snd ij)), snd ij)) ijs"
proof -
  have "list_all2 (\<lambda>ij su. read_joint P names ij = Inr su) ijs sus" using assms by (simp add: joint_list_def)
  then show ?thesis by (rule list_all2_map_eq) (simp add: read_joint_facts)
qed

lemma joint_list_setup:
  assumes "joint_list P names ijs sus" and "su \<in> set sus"
  obtains ij where "ij \<in> set ijs" "read_joint P names ij = Inr su"
proof -
  obtain i where "i < length sus" "su = sus ! i" using assms(2) by (auto simp: in_set_conv_nth)
  then have "ijs ! i \<in> set ijs" "read_joint P names (ijs ! i) = Inr su"
    using assms(1) by (auto simp: joint_list_def list_all2_conv_all_nth)
  then show thesis by (rule that)
qed

lemma joint_list_distinct:
  assumes "joint_list P names ijs sus"
  shows "distinct (map (\<lambda>su. msg_idx (su_parameters su)) sus)"
    and "distinct (map (\<lambda>su. param_joint_name (su_parameters su)) sus)"
    and "distinct (map (\<lambda>su. can_id (su_config su)) [su \<leftarrow> sus. su_interface su = k])"
proof -
  note m = joint_list_mapped [OF assms]
  have d: "distinct (map (\<lambda>ij. to_int32 (index_of P ij)) ijs)"
    "distinct (map (\<lambda>ij. (iface_of P ij, to_int32 (can_id_of P (snd ij)))) ijs)"
    using assms by (simp_all add: joint_list_def)
  have "distinct (map sint (map (\<lambda>ij. to_unsigned (index_of P ij)) ijs))"
    using d(1) by (simp add: to_int32_def to_unsigned_def comp_def)
  then have "distinct (map (\<lambda>ij. to_unsigned (index_of P ij)) ijs)" by (rule distinct_mapD)
  moreover have "map (\<lambda>su. msg_idx (su_parameters su)) sus = map (\<lambda>ij. to_unsigned (index_of P ij)) ijs"
    using arg_cong [OF m, of "map (\<lambda>(a, b, c). b)"] by (simp add: comp_def)
  ultimately show "distinct (map (\<lambda>su. msg_idx (su_parameters su)) sus)" by simp
  have "distinct (map (\<lambda>j. (iface_of P (0, j), to_int32 (can_id_of P j))) (map snd ijs))"
    using d(2) by (simp add: iface_of_def comp_def)
  then have "distinct (map snd ijs)" by (rule distinct_mapD)
  moreover have "map (\<lambda>su. param_joint_name (su_parameters su)) sus = map snd ijs"
    using arg_cong [OF m, of "map (\<lambda>(a, b, c, d). d)"] by (simp add: comp_def)
  ultimately show "distinct (map (\<lambda>su. param_joint_name (su_parameters su)) sus)" by simp
  have "distinct (map (\<lambda>(a, b). (a, sint b)) (map (\<lambda>ij. (iface_of P ij, to_unsigned (can_id_of P (snd ij)))) ijs))"
    using d(2) by (simp add: to_int32_def to_unsigned_def comp_def)
  then have "distinct (map (\<lambda>ij. (iface_of P ij, to_unsigned (can_id_of P (snd ij)))) ijs)" by (rule distinct_mapD)
  moreover have "map (\<lambda>su. (names ! su_interface su, can_id (su_config su))) sus =
      map (\<lambda>ij. (iface_of P ij, to_unsigned (can_id_of P (snd ij)))) ijs"
    using arg_cong [OF m, of "map (\<lambda>(a, b, c, d). (a, c))"] by (simp add: comp_def)
  ultimately have "distinct (map (\<lambda>su. (names ! su_interface su, can_id (su_config su))) sus)" by simp
  then have "inj_on (\<lambda>su. (names ! su_interface su, can_id (su_config su))) (set sus)" "distinct sus"
    by (simp_all add: distinct_map)
  then show "distinct (map (\<lambda>su. can_id (su_config su)) [su \<leftarrow> sus. su_interface su = k])"
    by (auto simp: distinct_map inj_on_def)
qed

lemma setup_at_inj:
  assumes "joint_list P names ijs sus"
    and "i < length [su \<leftarrow> sus. su_interface su = k]" and "i' < length [su \<leftarrow> sus. su_interface su = k']"
    and "msg_idx (su_parameters ([su \<leftarrow> sus. su_interface su = k] ! i)) =
      msg_idx (su_parameters ([su \<leftarrow> sus. su_interface su = k'] ! i'))"
  shows "k = k' \<and> i = i'"
proof -
  let ?su = "[su \<leftarrow> sus. su_interface su = k] ! i" and ?su' = "[su \<leftarrow> sus. su_interface su = k'] ! i'"
  have m: "?su \<in> set sus" "su_interface ?su = k" "?su' \<in> set sus" "su_interface ?su' = k'"
    using nth_mem [OF assms(2)] nth_mem [OF assms(3)] by auto
  note d = joint_list_distinct(1) [OF assms(1)]
  have e: "?su = ?su'" using d assms(4) m(1,3) unfolding distinct_map inj_on_def by blast
  then have k: "k = k'" using m(2,4) by simp
  have "distinct [su \<leftarrow> sus. su_interface su = k]" using d by (simp add: distinct_map)
  then show ?thesis using e k assms(2,3) nth_eq_iff_index_eq by blast
qed

lemma resize_nil [simp]: "resize k x [] = replicate k x"
  by (simp add: resize_def)

lemma sized_vectors:
  fixes now :: int and m k len :: nat and n :: node
  assumes "joint_data n = ([], [], [], [], [], [], [], [])"
  defines "s \<equiv> size_vectors now m k len n"
  shows "joint_data s = (replicate k [], replicate k [], replicate k [], replicate k [], replicate k [], replicate k [],
    replicate k [], [])" and "message_fits s" and "length (can_interfaces s) = k" and "length (comm_threads s) = k"
    and "joint_msg_length s = len" and "length (num_can_errors_per_interfaces s) = k" and "length (last_can_cycle_times s) = k"
    and "i < k \<Longrightarrow> diagnostics_fit i s"
  using assms(1)
  by (simp_all add: joint_data_def s_def size_vectors_def message_fits_def lengths_fit_def restful_def passive_command_def
    diagnostics_fit_def Let_def)

lemma message_fits_sizes: "sizes n' = sizes n \<Longrightarrow> message_fits n' = message_fits n"
  by (simp add: sizes_def message_fits_def lengths_fit_def restful_def)

lemma diagnostics_fit_sizes: "sizes n' = sizes n \<Longrightarrow> diagnostics_fit k n' = diagnostics_fit k n"
  by (simp add: sizes_def diagnostics_fit_def)

lemma filled_at:
  assumes "filled sus (replicate K [], n) (cfgs, n')" and "k < K"
    and "joint_data n = (replicate K [], replicate K [], replicate K [], replicate K [], replicate K [], replicate K [],
      replicate K [], names)"
  shows "cfgs ! k = map su_config [su \<leftarrow> sus. su_interface su = k]"
    and "joint_commands_per_can_interface n' ! k = map (\<lambda>_. blank_cmd) [su \<leftarrow> sus. su_interface su = k]"
    and "joint_states_per_can_interface n' ! k = map (\<lambda>_. first_state) [su \<leftarrow> sus. su_interface su = k]"
    and "joint_parameters_per_can_interface n' ! k = map su_parameters [su \<leftarrow> sus. su_interface su = k]"
    and "length (joint_vel_filters_per_can_interface n' ! k) = length [su \<leftarrow> sus. su_interface su = k]"
    and "length (joint_ab_filters_per_can_interface n' ! k) = length [su \<leftarrow> sus. su_interface su = k]"
    and "length (joint_pos_median_filters_per_can_interface n' ! k) = length [su \<leftarrow> sus. su_interface su = k]"
    and "length (last_joint_rx_ns_per_can_interface n' ! k) = length [su \<leftarrow> sus. su_interface su = k]"
  using assms by (simp_all add: filled_def joint_data_def Let_def fold_push_at)

lemma filled_lengths:
  assumes "filled sus (replicate K [], n) (cfgs, n')"
    and "joint_data n = (replicate K [], replicate K [], replicate K [], replicate K [], replicate K [], replicate K [],
      replicate K [], names)"
  shows "length (joint_commands_per_can_interface n') = K" "length (joint_states_per_can_interface n') = K"
    "length (joint_parameters_per_can_interface n') = K" "length (joint_vel_filters_per_can_interface n') = K"
    "length (joint_ab_filters_per_can_interface n') = K" "length (joint_pos_median_filters_per_can_interface n') = K"
    "length (last_joint_rx_ns_per_can_interface n') = K"
  using assms by (simp_all add: filled_def joint_data_def Let_def)

text \<open>The node that the loops leave: what the last steps change does not touch the joints.\<close>

lemma configured_parts:
  assumes "on_configure sys P now n = Some (LC_SUCCESS, n')" and "no_joints n" and "small_indices P"
  obtains ijs names sus where "joint_list P names ijs sus"
    "length (can_interfaces n') = length names"
    "\<And>k. k < length names \<Longrightarrow> joint_commands_per_can_interface n' ! k = map (\<lambda>_. blank_cmd) [su \<leftarrow> sus. su_interface su = k]"
    "\<And>k. k < length names \<Longrightarrow> joint_parameters_per_can_interface n' ! k = map su_parameters [su \<leftarrow> sus. su_interface su = k]"
    "\<And>k. k < length names \<Longrightarrow> aligned k n' \<and> diagnostics_fit k n' \<and> comm_threads n' ! k \<and>
      map_option joint_configs (can_interfaces n' ! k) = Some (map su_config [su \<leftarrow> sus. su_interface su = k])"
    "length (joint_parameters_per_can_interface n') = length names" "filters_shape n'" "names_ok n'" "message_fits n'"
    "\<And>su. su \<in> set sus \<Longrightarrow> unat (msg_idx (su_parameters su)) < joint_msg_length n' \<and>
       \<not> fp_le (transmission_ratio (su_parameters su)) (Fin 0)"
proof -
  from assms(1) obtain js m v cfgs m1 m2 where
    g: "read_globals P n = Inr (js, m)" and
    v: "validate_joints P (zip [0..<length js] js) nothing_seen = Inr v" and
    a: "add_joints P (interface_names v) (zip [0..<length js] js) (replicate (length (interface_names v)) [],
         size_vectors now (length js) (length (interface_names v)) (unat (max_msg_idx v + 1)) m) = Inr (cfgs, m1)" and
    i: "open_interfaces sys P cfgs (zip [0..<length (interface_names v)] (interface_names v)) m1 = Some (Inr m2)" and
    s: "start_motors cfgs m2 = Some (LC_SUCCESS, n')"
    by (cases rule: on_configure_cases) auto
  define ijs names K where "ijs = zip [0..<length js] js" and "names = interface_names v" and "K = length names"
  define n0 where "n0 = size_vectors now (length js) K (unat (max_msg_idx v + 1)) m"
  have jm: "joint_data m = ([], [], [], [], [], [], [], [])" "P ''joints'' = Some (PStringArray js)"
    using read_globals_joints [OF g] assms(2) by (simp_all add: no_joints_def)
  note n0 = sized_vectors [OF jm(1), where now = now and m = "length js" and k = K and len = "unat (max_msg_idx v + 1)",
      folded n0_def]
  have idx: "index_of P ij < 2 ^ 32 - 1" if "ij \<in> set ijs" for ij
    using that assms(3) jm(2) by (auto simp: small_indices_def ijs_def set_zip)
  then have small32: "\<forall>ij\<in>set ijs. index_of P ij < 2 ^ 32" by force
  have "distinct (seen_msg_idxs nothing_seen)" "distinct (seen_can_ids nothing_seen)"
    by (simp_all add: nothing_seen_def)
  note vfs = validate_joints_facts [OF v [folded ijs_def] this small32]
  have d: "distinct (seen_msg_idxs v)" "distinct (seen_can_ids v)" using vfs by blast+
  have e: "seen_msg_idxs v = map (\<lambda>ij. to_int32 (index_of P ij)) ijs"
    "seen_can_ids v = map (\<lambda>ij. (iface_of P ij, to_int32 (can_id_of P (snd ij)))) ijs"
    using vfs by (simp_all add: nothing_seen_def)
  have vf: "distinct (map (\<lambda>ij. to_int32 (index_of P ij)) ijs)"
    "distinct (map (\<lambda>ij. (iface_of P ij, to_int32 (can_id_of P (snd ij)))) ijs)"
    "\<forall>ij\<in>set ijs. 0 \<le> index_of P ij \<and> \<not> fp_le (ratio_of P (snd ij)) (Fin 0) \<and> index_of P ij \<le> uint (max_msg_idx v)"
    using d vfs unfolding e by blast+
  have vf4: "uint (max_msg_idx v) = 0 \<or> (\<exists>ij\<in>set ijs. uint (max_msg_idx v) = index_of P ij)"
    using vfs by (simp add: nothing_seen_def)
  obtain sus where sus: "list_all2 (\<lambda>ij su. read_joint P names ij = Inr su) ijs sus"
    "(cfgs, m1) = fold add_joint sus (replicate K [], n0)"
    using add_joints_fold [OF a] unfolding ijs_def names_def K_def n0_def by blast
  have jl: "joint_list P names ijs sus" using sus(1) vf(1,2) by (simp add: joint_list_def)
  have fill: "filled sus (replicate K [], n0) (cfgs, m1)" using fold_add_joint_filled sus(2) by metis
  note at = filled_at [OF fill _ n0(1)] and lens = filled_lengths [OF fill n0(1)]
  have rest: "sizes m1 = sizes n0" "can_interfaces m1 = can_interfaces n0" "comm_threads m1 = comm_threads n0"
    using fold_add_joint_sizes [of sus "(replicate K [], n0)"] sus(2) by (metis snd_conv)+
  have small: "uint (max_msg_idx v) < 2 ^ 32 - 1" using vf4 idx by auto
  have len: "unat (max_msg_idx v + 1) = nat (uint (max_msg_idx v)) + 1"
  proof -
    have "int (unat (max_msg_idx v)) < 4294967295" using small by simp
    then have "unat (max_msg_idx v) < 4294967295" by linarith
    then have "unat (max_msg_idx v) + 1 < 2 ^ LENGTH(32)" by simp
    then show ?thesis by (simp add: unat_word_ariths(1) nat_uint_eq)
  qed
  obtain cs1 where m2: "m2 = m1\<lparr>can_interfaces := cs1\<rparr>" and cs1: "length cs1 = K"
    "\<And>k. k < K \<Longrightarrow> map_option joint_configs (cs1 ! k) = Some (cfgs ! k)"
  proof -
    have "distinct (map fst (zip [0..<K] names))" "fst ` set (zip [0..<K] names) = {..<K}"
      by (simp_all add: K_def flip: set_map) auto
    then show thesis
      using open_interfaces_drivers [OF i [folded names_def, folded K_def]] that rest(2) n0(3) by auto
  qed
  have "length (comm_threads m2) = length (can_interfaces m2)" using m2 cs1 rest(3) n0(4) by simp
  from start_motors_node [OF s this] obtain cs ts where
    n': "n' = m2\<lparr>publish_timer := True, joint_cmd_sub := True, can_interfaces := cs,
      on_set_parameters_handle := True, supervisor_timer := True, comm_threads := ts\<rparr>" and
    cs0: "map (map_option joint_configs) cs = map (map_option joint_configs) (can_interfaces m2)" and
    ts0: "length ts = length (comm_threads m2)" "\<forall>k<length ts. ts ! k" .
  have cs: "map (map_option joint_configs) cs = map (map_option joint_configs) cs1" using cs0 m2 by simp
  have ts: "length ts = K" "\<forall>k<length ts. ts ! k" using ts0 m2 rest(3) n0(4) by simp_all
  have csl: "length cs = K" using cs cs1(1) by (metis length_map)
  have csk: "map_option joint_configs (cs ! k) = Some (cfgs ! k)" if "k < K" for k
    using arg_cong [OF cs, of "\<lambda>xs. xs ! k"] that cs1 csl by simp
  have sz: "sizes n' = sizes n0" using n' m2 rest(1) by (simp add: sizes_def)
  have jd: "joint_data n' = joint_data m1" using n' m2 by (simp add: joint_data_def)
  then have same: "joint_commands_per_can_interface n' = joint_commands_per_can_interface m1"
    "joint_states_per_can_interface n' = joint_states_per_can_interface m1"
    "joint_parameters_per_can_interface n' = joint_parameters_per_can_interface m1"
    "joint_vel_filters_per_can_interface n' = joint_vel_filters_per_can_interface m1"
    "joint_ab_filters_per_can_interface n' = joint_ab_filters_per_can_interface m1"
    "joint_pos_median_filters_per_can_interface n' = joint_pos_median_filters_per_can_interface m1"
    "last_joint_rx_ns_per_can_interface n' = last_joint_rx_ns_per_can_interface m1"
    "joint_name_to_can_iface_and_idx n' = joint_name_to_can_iface_and_idx m1"
    by (simp_all add: joint_data_def)
  have cnt: "length (num_can_errors_per_interfaces n') = K" "length (last_can_cycle_times n') = K"
    "joint_msg_length n' = unat (max_msg_idx v + 1)"
    using sz n0(5,6,7) by (simp_all add: sizes_def)
  have own: "length (comm_threads n') = K" "length (can_interfaces n') = K" using n' ts(1) csl by simp_all
  have set_names: "su_interface su < K" if "su \<in> set sus" for su
    using joint_list_setup [OF jl that] read_joint_facts K_def by metis
  show thesis
  proof (rule that [of names ijs sus])
    show "joint_list P names ijs sus" by (fact jl)
    show "length (can_interfaces n') = length names" using n' csl by (simp add: K_def)
    show "length (joint_parameters_per_can_interface n') = length names" using same lens by (simp add: K_def)
    fix k assume k: "k < length names"
    then have kK: "k < K" by (simp add: K_def)
    note atk = at [OF kK]
    show "joint_commands_per_can_interface n' ! k = map (\<lambda>_. blank_cmd) [su \<leftarrow> sus. su_interface su = k]"
      "joint_parameters_per_can_interface n' ! k = map su_parameters [su \<leftarrow> sus. su_interface su = k]"
      using atk same by simp_all
    have "aligned k n'" unfolding aligned_def Let_def
      using kK atk lens cnt own by (simp add: same)
    moreover have "diagnostics_fit k n'" using diagnostics_fit_sizes [OF sz] n0(8) [OF kK] by simp
    moreover have "comm_threads n' ! k" using ts kK n' by simp
    moreover have "map_option joint_configs (can_interfaces n' ! k) = Some (map su_config [su \<leftarrow> sus. su_interface su = k])"
      using csk [OF kK] atk(1) n' by simp
    ultimately show "aligned k n' \<and> diagnostics_fit k n' \<and> comm_threads n' ! k \<and>
      map_option joint_configs (can_interfaces n' ! k) = Some (map su_config [su \<leftarrow> sus. su_interface su = k])" by simp
  next
    show "message_fits n'" using message_fits_sizes [OF sz] n0(2) by simp
    have "map length (joint_vel_filters_per_can_interface n') = map length (joint_parameters_per_can_interface n')"
      "map length (joint_ab_filters_per_can_interface n') = map length (joint_parameters_per_can_interface n')"
      "map length (joint_pos_median_filters_per_can_interface n') = map length (joint_parameters_per_can_interface n')"
      using at lens by (auto intro!: nth_equalityI simp: same)
    then show "filters_shape n'" by (simp add: filters_shape_def Let_def)
    have "names_ok n0" using n0(1) by (auto simp: names_ok_def joints_def joint_data_def)
    then have "names_ok (snd (fold add_joint sus (replicate K [], n0)))"
      using names_fold_add_joint [of "(replicate K [], n0)" sus] joint_list_distinct(2) [OF jl] set_names n0(1)
      by (simp add: joint_data_def)
    then have "names_ok m1" using sus(2) by (metis snd_conv)
    then show "names_ok n'" by (simp add: names_ok_def same joints_def)
  next
    fix su assume su: "su \<in> set sus"
    obtain ij where ij: "ij \<in> set ijs" "read_joint P names ij = Inr su" using joint_list_setup [OF jl su] .
    note f = read_joint_facts [OF ij(2)] and b = vf(3) [rule_format, OF ij(1)] idx [OF ij(1)]
    have "uint (to_unsigned (index_of P ij)) = index_of P ij"
      using b by (simp add: to_unsigned_def uint_word_of_int)
    then have "uint (msg_idx (su_parameters su)) \<le> uint (max_msg_idx v)" using f b by simp
    then have "unat (msg_idx (su_parameters su)) \<le> nat (uint (max_msg_idx v))"
      by (metis nat_mono nat_uint_eq)
    then show "unat (msg_idx (su_parameters su)) < joint_msg_length n' \<and>
       \<not> fp_le (transmission_ratio (su_parameters su)) (Fin 0)"
      using cnt(3) len f b by simp
  qed
qed

lemma configured_well_formed:
  assumes "on_configure sys P now n = Some (LC_SUCCESS, n')" and "no_joints n" and "small_indices P"
  shows "well_formed n'"
proof -
  obtain ijs names sus where jl: "joint_list P names ijs sus"
    and len: "length (can_interfaces n') = length names" "length (joint_parameters_per_can_interface n') = length names"
    and ps: "\<And>k. k < length names \<Longrightarrow>
      joint_parameters_per_can_interface n' ! k = map su_parameters [su \<leftarrow> sus. su_interface su = k]"
    and fit: "\<And>k. k < length names \<Longrightarrow> aligned k n' \<and> diagnostics_fit k n' \<and> comm_threads n' ! k \<and>
      map_option joint_configs (can_interfaces n' ! k) = Some (map su_config [su \<leftarrow> sus. su_interface su = k])"
    and ok: "filters_shape n'" "names_ok n'" "message_fits n'"
    and su: "\<And>su. su \<in> set sus \<Longrightarrow> unat (msg_idx (su_parameters su)) < joint_msg_length n' \<and>
       \<not> fp_le (transmission_ratio (su_parameters su)) (Fin 0)"
    by (rule configured_parts [OF assms]) blast
  have "interface_fits k n'" if "k < length (can_interfaces n')" for k
  proof -
    have k: "k < length names" using that len by simp
    obtain d where "can_interfaces n' ! k = Some d" "joint_configs d = map su_config [su \<leftarrow> sus. su_interface su = k]"
      using fit [OF k] by auto
    moreover have "distinct (map can_id (map su_config [su \<leftarrow> sus. su_interface su = k]))"
      using joint_list_distinct(3) [OF jl, of k] by (simp add: comp_def)
    ultimately show ?thesis using fit [OF k] ps [OF k] by (simp add: interface_fits_def)
  qed
  moreover have at: "i < length names \<and> j < length [su \<leftarrow> sus. su_interface su = i] \<and>
      parameters_at n' (i, j) = su_parameters ([su \<leftarrow> sus. su_interface su = i] ! j)" if "(i, j) \<in> joints n'" for i j
    using that ps [of i] len by (auto simp: joints_iff parameters_at_def)
  moreover have "unat (msg_idx (parameters_at n' ix)) < joint_msg_length n' \<and>
      \<not> fp_le (transmission_ratio (parameters_at n' ix)) (Fin 0)" if "ix \<in> joints n'" for ix
  proof -
    obtain i j where ix: "ix = (i, j)" by force
    have "[su \<leftarrow> sus. su_interface su = i] ! j \<in> set sus" using at [of i j] that ix nth_mem by fastforce
    then show ?thesis using su at [of i j] that ix by simp
  qed
  moreover have "inj_on (\<lambda>ix. msg_idx (parameters_at n' ix)) (joints n')"
  proof (rule inj_onI)
    fix x y assume xy: "x \<in> joints n'" "y \<in> joints n'" "msg_idx (parameters_at n' x) = msg_idx (parameters_at n' y)"
    then show "x = y" using at [of "fst x" "snd x"] at [of "fst y" "snd y"] setup_at_inj [OF jl]
      by (metis prod.collapse)
  qed
  ultimately show ?thesis using len ok by (simp add: well_formed_def)
qed

lemma demo_fresh: "no_joints fresh_node" "small_indices demo_params"
  by (simp add: no_joints_def joint_data_def fresh_node_def clear_joints_def)
    (simp add: small_indices_def demo_params_def index_of_def of_joint_def prefix_of_joints_def need_def)

text \<open>
  C9. A configuration that succeeds leaves a node whose vectors fit together. For every interface
  the vectors of commands, states, parameters and filters have the same length, which is the number
  of joints the driver was built with, whose identifiers are distinct; its communication thread
  runs. Every joint name leads to its joint and only to it, every message index is inside every
  message and belongs to one joint, every transmission ratio is not below or equal to zero, and the
  command in force asks for no motion. The node starts without joints, and the message indices
  fit in 32 bits.
\<close>

theorem configured_node_is_well_formed:
  assumes "on_configure sys P now n = Some (LC_SUCCESS, n')" and "no_joints n" and "small_indices P"
  shows "well_formed n'"
  by (rule configured_well_formed [OF assms])

theorem configured_node_is_well_formed_witness:
  "case on_configure (demo_os [reply_v2 1 0]) demo_params 5 fresh_node of
     Some (LC_SUCCESS, n') \<Rightarrow> well_formed n' | _ \<Rightarrow> False"
proof -
  have "map_option fst (on_configure (demo_os [reply_v2 1 0]) demo_params 5 fresh_node) = Some LC_SUCCESS"
    by (rule demo_configured)
  then obtain n' where c: "on_configure (demo_os [reply_v2 1 0]) demo_params 5 fresh_node = Some (LC_SUCCESS, n')" by auto
  have "well_formed n'" by (rule configured_node_is_well_formed [OF c demo_fresh])
  then show ?thesis by (simp add: c)
qed

section \<open>Joints left behind\<close>

lemma each_caught_ok:
  assumes "\<And>ij d. joint_configs (snd (f ij d)) = joint_configs d"
  shows "each_caught f ijs n = (False, n') \<Longrightarrow> ij \<in> set ijs \<Longrightarrow>
    \<exists>m. same_interfaces n m \<and> is_ok (fst (can_call (fst ij) (f ij) m))"
proof (induction ijs arbitrary: n)
  case (Cons x ijs)
  obtain r m where c: "can_call (fst x) (f x) n = (r, m)" by force
  have ok: "is_ok r" "each_caught f ijs m = (False, n')" using Cons.prems(1) c by (auto split: prod.splits)
  have s: "same_interfaces n m" using can_call_same [of "f x" n "fst x"] assms c by simp
  show ?case
  proof (cases "ij = x")
    case True
    then show ?thesis using c ok(1) by (intro exI [of _ n]) simp
  next
    case False
    then show ?thesis using Cons.IH [OF ok(2)] Cons.prems(2) same_interfaces_trans [OF s] by auto
  qed
qed simp

lemma start_motors_needs_drivers:
  assumes "start_motors cfgs n = Some (LC_SUCCESS, n')" and "i < length (joint_parameters_per_can_interface n)"
    and "j < length (joint_parameters_per_can_interface n ! i)" and "i < length (can_interfaces n)"
    and "map_option joint_configs (can_interfaces n ! i) = Some cs"
  shows "j < length cs"
proof (rule ccontr)
  assume j: "\<not> j < length cs"
  let ?n = "n\<lparr>publish_timer := True, joint_cmd_sub := True\<rparr>"
  obtain failure m where e: "enable_motors ?n = (failure, m)" by force
  have nf: "enable_motors ?n = (False, m)"
    using assms(1) e by (auto simp: start_motors_def roll_back_def Let_def split: if_splits)
  have "(i, j) \<in> set (indices (joint_parameters_per_can_interface ?n))"
    using assms(2,3) by (auto simp: indices_def intro!: bexI [of _ i])
  from each_caught_ok [OF _ nf [unfolded enable_motors_def] this] obtain l where
    l: "same_interfaces ?n l" "is_ok (fst (can_call i (start_motor_control_mode j
      (set_zero_position_on_startup (joint_parameters_per_can_interface n ! i ! j))) l))"
    by (auto simp: split_beta keeps_start)
  have "map (map_option joint_configs) (can_interfaces l) = map (map_option joint_configs) (can_interfaces n)"
    using l(1) by (auto simp: same_interfaces_def)
  then have "map_option joint_configs (can_interfaces l ! i) = Some cs"
    using assms(4,5) by (metis length_map nth_map)
  then obtain d where "can_interfaces l ! i = Some d" "joint_configs d = cs" by auto
  then show False using l(2) j by (simp add: can_call_def start_motor_control_mode_def)
qed

lemma list_all2_source: "list_all2 R xs ys \<Longrightarrow> y \<in> set ys \<Longrightarrow> \<exists>x\<in>set xs. R x y"
  by (induction rule: list_all2_induct) auto

text \<open>The loop over the joints stops at a joint that it rejects and keeps those before it.\<close>

lemma add_joints_rejected:
  assumes "\<forall>i<k. \<exists>su. read_joint P names (ijs ! i) = Inr su" and "k < length ijs"
    and "read_joint P names (ijs ! k) = Inl c"
  shows "\<exists>sus. length sus = k \<and> list_all2 (\<lambda>ij su. read_joint P names ij = Inr su) (take k ijs) sus \<and>
    add_joints P names ijs acc = Inl (c, snd (fold add_joint sus acc))"
  using assms
proof (induction ijs arbitrary: k acc)
  case (Cons ij ijs)
  show ?case
  proof (cases k)
    case 0
    then show ?thesis using Cons.prems(3) by simp
  next
    case (Suc l)
    obtain su where su: "read_joint P names ij = Inr su" using Cons.prems(1) Suc by fastforce
    have "\<forall>i<l. \<exists>su. read_joint P names (ijs ! i) = Inr su" using Cons.prems(1) Suc by fastforce
    from Cons.IH [OF this, of "add_joint su acc"] Cons.prems(2,3) Suc obtain sus where
      "length sus = l" "list_all2 (\<lambda>ij su. read_joint P names ij = Inr su) (take l ijs) sus"
      "add_joints P names ijs (add_joint su acc) = Inl (c, snd (fold add_joint sus (add_joint su acc)))" by auto
    then show ?thesis using su Suc by (intro exI [of _ "su # sus"]) simp
  qed
qed simp

lemma sum_length_push_at: "k < length xss \<Longrightarrow> sum_list (map length (push_at k x xss)) = Suc (sum_list (map length xss))"
proof (induction xss arbitrary: k)
  case (Cons xs xss)
  then show ?case by (cases k) (simp_all add: push_at_def)
qed simp

lemma sum_length_fold_push_at:
  "\<forall>su\<in>set sus. f su < length xss \<Longrightarrow>
     sum_list (map length (fold (\<lambda>su. push_at (f su) (g su)) sus xss)) = length sus + sum_list (map length xss)"
  by (induction sus arbitrary: xss) (simp_all add: sum_length_push_at)

text \<open>What the state becomes after a configuration without success.\<close>

lemma configure_without_success:
  assumes "documented (ev_lifecycle E)" and "current_state n = UNCONFIGURED" and "on_configure sys P now n = Some (c, m)"
    and "c \<noteq> LC_SUCCESS" and "configure E sys P now n = Some n'"
  shows "current_state n' = UNCONFIGURED \<and> (c = LC_ERROR \<longrightarrow> no_joints n') \<and> (c = LC_FAILURE \<longrightarrow> n' = m\<lparr>current_state := UNCONFIGURED\<rparr>)"
proof -
  have n': "n' = trigger E Configure (\<lambda>_. (c, m)) n" using assms(1-3,5) by (simp add: configure_def documented_def)
  have e: "fst (on_error UNCONFIGURED m) = LC_SUCCESS" "joint_data (snd (on_error UNCONFIGURED m)) = ([], [], [], [], [], [], [], [])"
    by (simp_all add: on_error_def joint_data_def clear_joints_def Let_def)
  show ?thesis using assms(1,2,4) n' e
    by (cases c) (simp_all add: trigger_def documented_def no_joints_def joint_data_def split_beta)
qed

section \<open>Examples\<close>

definition documented_lifecycle :: lifecycle where
  "documented_lifecycle =
     \<lparr>allowed = (\<lambda>s t. case t of Configure \<Rightarrow> s = UNCONFIGURED | Activate \<Rightarrow> s = INACTIVE | Deactivate \<Rightarrow> s = ACTIVE
        | Cleanup \<Rightarrow> s = INACTIVE | Shutdown \<Rightarrow> s \<noteq> FINALIZED),
      target = (\<lambda>t. case t of Configure \<Rightarrow> INACTIVE | Activate \<Rightarrow> ACTIVE | Deactivate \<Rightarrow> INACTIVE
        | Cleanup \<Rightarrow> UNCONFIGURED | Shutdown \<Rightarrow> FINALIZED),
      after_error = (\<lambda>r. if r = LC_SUCCESS then UNCONFIGURED else FINALIZED)\<rparr>"

definition demo_env :: env where
  "demo_env = \<lparr>ev_lifecycle = documented_lifecycle, ev_store = (\<lambda>x. x), ev_tanh = (\<lambda>x. x), ev_exp = (\<lambda>x. Fin 1),
     ev_pow = (\<lambda>x y. x)\<rparr>"

lemma demo_env_documented: "documented (ev_lifecycle demo_env)"
  by (simp add: documented_def demo_env_def documented_lifecycle_def)

text \<open>Two joints, the second with a filter type that does not exist.\<close>

definition rejected_params :: params where
  "rejected_params = demo_params
     (''joints'' \<mapsto> PStringArray [''hip'', ''knee''],
      ''joint_defintions.knee.can_interface'' \<mapsto> PString ''can0'',
      ''joint_defintions.knee.can_id'' \<mapsto> PInt 2,
      ''joint_defintions.knee.motor_type'' \<mapsto> PString ''AK10-9'',
      ''joint_defintions.knee.vel_filter_type'' \<mapsto> PString ''kalman'')"

lemma rejected_hip: "of_joint rejected_params as ''hip'' field v = of_joint demo_params as ''hip'' field v"
  by (simp add: of_joint_def rejected_params_def prefix_of_joints_def)

lemma rejected_globals:
  "read_globals rejected_params n = Inr ([''hip'', ''knee''], n\<lparr>damping_on_motor_error := True,
     max_can_errors_before_motor_shutdown := 1, node_tx_timestamping := True, node_error_frames := False,
     default_damping_KD := Fin 1, publish_ros2_joint_state := False\<rparr>)"
  by (simp add: read_globals_def rejected_params_def demo_params_def declared_def member_def andThen_def to_unsigned_def)

lemma rejected_valid:
  "validate_joints rejected_params [(0, ''hip''), (Suc 0, ''knee'')] nothing_seen =
     Inr \<lparr>seen_interfaces = [''can0'', ''can0''], seen_msg_idxs = [0, 1], seen_can_ids = [(''can0'', 1), (''can0'', 2)], max_msg_idx = 1\<rparr>"
  by (simp add: validate_joint_def rejected_params_def demo_params_def of_joint_def prefix_of_joints_def need_def andThen_def
    nothing_seen_def to_int32_def to_unsigned_def fp_le_def fp_lt_def)

lemma rejected_joints:
  "read_joint rejected_params [''can0''] (0, ''hip'') = Inr demo_setup"
  "read_joint rejected_params [''can0''] (Suc 0, ''knee'') = Inl LC_FAILURE"
proof -
  have "read_joint rejected_params names (0, ''hip'') = read_joint demo_params names (0, ''hip'')" for names
    by (simp add: read_joint_def rejected_hip Let_def cong: option.case_cong if_cong)
  then show "read_joint rejected_params [''can0''] (0, ''hip'') = Inr demo_setup" using demo_setup by simp
  show "read_joint rejected_params [''can0''] (Suc 0, ''knee'') = Inl LC_FAILURE"
    by (simp add: read_joint_def rejected_params_def demo_params_def of_joint_def prefix_of_joints_def need_def andThen_def
      joint_config_per_motor_type_def filter_type_of_def)
qed

lemma rejected_names:
  "interface_names \<lparr>seen_interfaces = [''can0'', ''can0''], seen_msg_idxs = [0, 1],
      seen_can_ids = [(''can0'', 1), (''can0'', 2)], max_msg_idx = 1\<rparr> = [''can0'']"
  by (simp add: interface_names_def)

lemma rejected_run:
  obtains m where "read_globals rejected_params fresh_node = Inr ([''hip'', ''knee''], m)"
    "joint_parameters_per_can_interface m = []"
    "configure demo_env (demo_os []) rejected_params 5 fresh_node =
       Some ((snd (add_joint demo_setup ([[]], size_vectors 5 2 1 2 m)))\<lparr>current_state := UNCONFIGURED\<rparr>)"
proof -
  define m where "m = snd (case read_globals rejected_params fresh_node of Inr r \<Rightarrow> r)"
  have m: "read_globals rejected_params fresh_node = Inr ([''hip'', ''knee''], m)" "joint_parameters_per_can_interface m = []"
    by (simp_all add: m_def rejected_globals fresh_node_def clear_joints_def)
  have v: "validate_joints rejected_params (zip [0..<length [''hip'', ''knee'']] [''hip'', ''knee'']) nothing_seen =
      Inr \<lparr>seen_interfaces = [''can0'', ''can0''], seen_msg_idxs = [0, 1], seen_can_ids = [(''can0'', 1), (''can0'', 2)], max_msg_idx = 1\<rparr>"
    using rejected_valid by (simp add: upt_rec)
  have c: "on_configure (demo_os []) rejected_params 5 fresh_node =
      Some (LC_FAILURE, snd (add_joint demo_setup ([[]], size_vectors 5 2 1 2 m)))"
    unfolding on_configure_def m(1) sum.case prod.case Let_def v rejected_names
    by (simp add: upt_rec rejected_joints flip: numeral_2_eq_2)
  have f: "current_state fresh_node = UNCONFIGURED" by (simp add: fresh_node_def clear_joints_def demo_node_def)
  define l where "l = snd (add_joint demo_setup ([[]], size_vectors 5 2 1 2 m))"
  have "allowed documented_lifecycle UNCONFIGURED Configure" by (simp add: documented_lifecycle_def)
  then have "configure demo_env (demo_os []) rejected_params 5 fresh_node = Some (l\<lparr>current_state := UNCONFIGURED\<rparr>)"
    unfolding configure_def c f l_def [symmetric] by (simp add: trigger_def demo_env_def f)
  then show thesis unfolding l_def by (rule that [OF m])
qed

section \<open>Properties of a rejected configuration\<close>

text \<open>
  A configuration that is rejected half-way keeps what it has built: when the loop over the
  joints of a node without joints rejects joint \<open>k\<close>, by its filter type or filter size, the node
  goes back to the unconfigured state with the \<open>k\<close> joints before it in its vectors.
\<close>

theorem rejected_configuration_keeps_joints:
  assumes "documented (ev_lifecycle E)" and "current_state n = UNCONFIGURED" and "no_joints n"
    and "read_globals P n = Inr (js, m)" and "validate_joints P (zip [0..<length js] js) nothing_seen = Inr v"
    and "k < length js" and "\<forall>i<k. \<exists>su. read_joint P (interface_names v) (i, js ! i) = Inr su"
    and "read_joint P (interface_names v) (k, js ! k) = Inl LC_FAILURE"
  shows "\<exists>n'. configure E sys P now n = Some n' \<and> current_state n' = UNCONFIGURED \<and>
    sum_list (map length (joint_parameters_per_can_interface n')) = k"
proof -
  let ?ijs = "zip [0..<length js] js" and ?K = "length (interface_names v)"
  define n0 where "n0 = size_vectors now (length js) ?K (unat (max_msg_idx v + 1)) m"
  have z: "?ijs ! i = (i, js ! i)" if "i < length js" for i using that by simp
  obtain sus where sus: "length sus = k" "list_all2 (\<lambda>ij su. read_joint P (interface_names v) ij = Inr su) (take k ?ijs) sus"
    "add_joints P (interface_names v) ?ijs (replicate ?K [], n0) = Inl (LC_FAILURE, snd (fold add_joint sus (replicate ?K [], n0)))"
  proof -
    have "\<forall>i<k. \<exists>su. read_joint P (interface_names v) (?ijs ! i) = Inr su" "k < length ?ijs"
      "read_joint P (interface_names v) (?ijs ! k) = Inl LC_FAILURE"
      using assms(6-8) z by simp_all
    from add_joints_rejected [OF this, of "(replicate ?K [], n0)"] show thesis using that by blast
  qed
  define l where "l = snd (fold add_joint sus (replicate ?K [], n0))"
  have c: "on_configure sys P now n = Some (LC_FAILURE, l)"
    using assms(4,5) sus(3) by (simp add: on_configure_def Let_def n0_def l_def)
  then obtain n' where n': "configure E sys P now n = Some n'" using assms(1,2) by (simp add: configure_def documented_def)
  have "su_interface su < ?K" if "su \<in> set sus" for su
    using list_all2_source [OF sus(2) that] read_joint_facts by metis
  moreover have "joint_parameters_per_can_interface n0 = replicate ?K []"
    using read_globals_joints [OF assms(4)] assms(3) by (simp add: n0_def size_vectors_def no_joints_def joint_data_def resize_def)
  moreover have "joint_parameters_per_can_interface l =
      fold (\<lambda>su. push_at (su_interface su) (su_parameters su)) sus (joint_parameters_per_can_interface n0)"
    using fold_add_joint_filled [of sus "(replicate ?K [], n0)"] by (simp add: l_def filled_def Let_def)
  ultimately have "sum_list (map length (joint_parameters_per_can_interface l)) = k"
    by (simp add: sum_length_fold_push_at sus(1) sum_list_replicate)
  then show ?thesis using configure_without_success [OF assms(1,2) c _ n'] n' by simp
qed

theorem rejected_configuration_keeps_joints_witness:
  "\<exists>n'. configure demo_env (demo_os []) rejected_params 5 fresh_node = Some n' \<and>
     current_state n' = UNCONFIGURED \<and> sum_list (map length (joint_parameters_per_can_interface n')) = 1"
proof -
  obtain m where m: "read_globals rejected_params fresh_node = Inr ([''hip'', ''knee''], m)" by (rule rejected_run)
  have v: "validate_joints rejected_params (zip [0..<length [''hip'', ''knee'']] [''hip'', ''knee'']) nothing_seen =
      Inr \<lparr>seen_interfaces = [''can0'', ''can0''], seen_msg_idxs = [0, 1], seen_can_ids = [(''can0'', 1), (''can0'', 2)], max_msg_idx = 1\<rparr>"
    using rejected_valid by (simp add: upt_rec)
  have f: "current_state fresh_node = UNCONFIGURED" by (simp add: fresh_node_def clear_joints_def demo_node_def)
  show ?thesis
    by (rule rejected_configuration_keeps_joints [OF demo_env_documented f demo_fresh(1) m v, of 1])
      (use rejected_joints in \<open>simp_all add: rejected_names\<close>)
qed

text \<open>A leftover joint makes enabling fail, and the roll-back reads past the end.\<close>

lemma start_motors_stuck:
  assumes "i < length (joint_parameters_per_can_interface n)" and "i < length (can_interfaces n)"
    and "map_option joint_configs (can_interfaces n ! i) = Some (cfgs ! i)"
    and short: "length (cfgs ! i) < length (joint_parameters_per_can_interface n ! i)"
  shows "start_motors cfgs n = None"
proof -
  let ?n = "n\<lparr>publish_timer := True, joint_cmd_sub := True\<rparr>"
  obtain failure e where e: "enable_motors ?n = (failure, e)" by force
  have f: failure
  proof (rule ccontr)
    assume "\<not> failure"
    then have "start_motors cfgs n = Some (LC_SUCCESS,
        start_threads (e\<lparr>on_set_parameters_handle := True, supervisor_timer := True\<rparr>))"
      using e by (simp add: start_motors_def)
    from start_motors_needs_drivers [OF this assms(1) short assms(2,3)] show False by simp
  qed
  have "same_interfaces ?n e"
    using each_caught_same [of "\<lambda>(i, j). start_motor_control_mode j
        (set_zero_position_on_startup (joint_parameters_per_can_interface ?n ! i ! j))"
        ?n "indices (joint_parameters_per_can_interface ?n)"] e
    by (simp add: enable_motors_def split_beta keeps_start)
  then have "joint_parameters_per_can_interface e = joint_parameters_per_can_interface n"
    by (auto simp: same_interfaces_def)
  then have "(i, length (cfgs ! i)) \<in> set (indices (joint_parameters_per_can_interface e))"
    using short assms(1) by (auto simp: indices_def intro!: bexI [of _ i])
  then have "roll_back cfgs e = None" unfolding roll_back_def by (auto intro!: bexI [of _ "(i, length (cfgs ! i))"])
  then show ?thesis using e f by (simp add: start_motors_def)
qed

lemma leftover_joints_stuck:
  assumes "i < length (joint_parameters_per_can_interface n)" and "joint_parameters_per_can_interface n ! i \<noteq> []"
    and "read_globals P n = Inr (js, m)" and "i < length names"
    and a: "add_joints P names ijs (replicate (length names) [], size_vectors now joint_count (length names) len m) = Inr (cfgs, m1)"
    and o: "open_interfaces sys P cfgs (zip [0..<length names] names) m1 = Some (Inr m2)"
  shows "start_motors cfgs m2 = None"
proof -
  let ?K = "length names"
  define n0 where "n0 = size_vectors now joint_count ?K len m"
  have "joint_parameters_per_can_interface m = joint_parameters_per_can_interface n"
    using read_globals_joints [OF assms(3)] by (simp add: joint_data_def)
  then have n0: "length (joint_parameters_per_can_interface n0) = ?K" "length (can_interfaces n0) = ?K"
    "joint_parameters_per_can_interface n0 ! i = joint_parameters_per_can_interface n ! i"
    using assms(1,4) by (simp_all add: n0_def size_vectors_def resize_def nth_append)
  obtain sus where sus: "(cfgs, m1) = fold add_joint sus (replicate ?K [], n0)"
    using add_joints_fold [OF a] unfolding n0_def by blast
  have fill: "filled sus (replicate ?K [], n0) (cfgs, m1)" using fold_add_joint_filled sus by metis
  have rest: "can_interfaces m1 = can_interfaces n0"
    using fold_add_joint_sizes [of sus "(replicate ?K [], n0)"] sus by (metis snd_conv)
  have p: "length (joint_parameters_per_can_interface m1) = ?K" "cfgs ! i = map su_config [su \<leftarrow> sus. su_interface su = i]"
    "joint_parameters_per_can_interface m1 ! i =
       joint_parameters_per_can_interface n ! i @ map su_parameters [su \<leftarrow> sus. su_interface su = i]"
    using fill n0 assms(4) by (simp_all add: filled_def Let_def fold_push_at)
  have "distinct (map fst (zip [0..<?K] names))" "fst ` set (zip [0..<?K] names) = {..<?K}"
    by (simp_all flip: set_map) auto
  then obtain cs where "m2 = m1\<lparr>can_interfaces := cs\<rparr>" "length cs = ?K" "map_option joint_configs (cs ! i) = Some (cfgs ! i)"
    using open_interfaces_drivers [OF o] rest n0(2) assms(4) by auto
  then show ?thesis using p assms(2,4) by (intro start_motors_stuck [of i]) simp_all
qed

text \<open>
  C24. While joints of a rejected configuration are left on an interface, no configuration that
  uses this interface succeeds, whatever the motors answer. If it gets as far as the motors, it has
  undefined behaviour: the driver does not know the leftover joint, so that enabling and disabling
  it throw, and the handler of the roll-back reads the configuration of the joint past the end of
  its vector. If it ends with an error before, the error callback clears the joints, and the way is
  free for the configuration after it.
\<close>

theorem leftover_joints_block_configuration:
  fixes sys :: os and now :: int
  assumes "documented (ev_lifecycle E)" and "current_state n = UNCONFIGURED"
    and "i < length (joint_parameters_per_can_interface n)" and "joint_parameters_per_can_interface n ! i \<noteq> []"
    and "read_globals P n = Inr (js, m)" and "validate_joints P (zip [0..<length js] js) nothing_seen = Inr v"
    and "i < length (interface_names v)"
  defines "added \<equiv> add_joints P (interface_names v) (zip [0..<length js] js) (replicate (length (interface_names v)) [],
      size_vectors now (length js) (length (interface_names v)) (unat (max_msg_idx v + 1)) m)"
    and "ks \<equiv> zip [0..<length (interface_names v)] (interface_names v)"
  shows "(added = Inr (cfgs, m1) \<and> open_interfaces sys P cfgs ks m1 = Some (Inr m2) \<longrightarrow>
      on_configure sys P now n = None \<and> configure E sys P now n = None) \<and>
    (configure E sys P now n = Some n' \<longrightarrow> current_state n' = UNCONFIGURED) \<and>
    (configure E sys P now n = Some n' \<and> on_configure sys P now n = Some (LC_ERROR, l) \<longrightarrow> no_joints n')"
proof -
  note stuck = leftover_joints_stuck [OF assms(3-5,7)]
  have none: "on_configure sys P now n = None"
    if "added = Inr (cfgs, m1)" "open_interfaces sys P cfgs ks m1 = Some (Inr m2)"
    using assms(5,6) that stuck [OF that [unfolded added_def ks_def]] by (simp add: on_configure_def Let_def added_def ks_def)
  have fails: "c \<noteq> LC_SUCCESS" if r: "on_configure sys P now n = Some (c, l)" for c l
    using r
  proof (cases rule: on_configure_cases)
    case (motors js' m' v' cfgs m1 m2)
    then have "m' = m" "v' = v" using assms(5,6) by auto
    then show ?thesis using stuck [OF motors(3,4) [unfolded \<open>m' = m\<close> \<open>v' = v\<close>]] motors(5) by simp
  qed auto
  have e: "configure E sys P now n = map_option (\<lambda>r. trigger E Configure (\<lambda>_. r) n) (on_configure sys P now n)"
    using assms(1,2) by (simp add: configure_def documented_def)
  have "current_state n' = UNCONFIGURED \<and> (on_configure sys P now n = Some (LC_ERROR, l) \<longrightarrow> no_joints n')"
    if r: "configure E sys P now n = Some n'"
  proof -
    obtain c k where c: "on_configure sys P now n = Some (c, k)" using r unfolding e by auto
    from configure_without_success [OF assms(1,2) c fails [OF c] r] c show ?thesis by simp
  qed
  note ending = this
  show ?thesis
  proof (intro conjI impI; (elim conjE)?)
    assume "added = Inr (cfgs, m1)" "open_interfaces sys P cfgs ks m1 = Some (Inr m2)"
    from none [OF this] show "on_configure sys P now n = None" "configure E sys P now n = None" unfolding e by simp_all
  qed (use ending in blast)+
qed

theorem leftover_joints_block_configuration_witness:
  "\<exists>n. configure demo_env (demo_os []) rejected_params 5 fresh_node = Some n \<and>
     configure demo_env (demo_os [reply_v2 1 0]) demo_params 6 n = None"
proof -
  obtain m where m: "joint_parameters_per_can_interface m = []"
    "configure demo_env (demo_os []) rejected_params 5 fresh_node =
       Some ((snd (add_joint demo_setup ([[]], size_vectors 5 2 1 2 m)))\<lparr>current_state := UNCONFIGURED\<rparr>)"
    by (rule rejected_run)
  define n where "n = (snd (add_joint demo_setup ([[]], size_vectors 5 2 1 2 m)))\<lparr>current_state := UNCONFIGURED\<rparr>"
  have n: "joint_parameters_per_can_interface n = [[su_parameters demo_setup]]" "current_state n = UNCONFIGURED"
    "length (can_interfaces n) = 1"
    using demo_setup m(1) by (simp_all add: n_def add_joint_def Let_def size_vectors_def push_at_def)
  define l where "l = snd (case read_globals demo_params n of Inr r \<Rightarrow> r)"
  have l: "read_globals demo_params n = Inr ([''hip''], l)" "length (can_interfaces l) = 1"
    "node_tx_timestamping l" "\<not> node_error_frames l"
    using n(3) by (simp_all add: l_def demo_globals)
  define l1 where "l1 = snd (add_joint demo_setup ([[]], size_vectors 6 1 1 1 l))"
  let ?v = "\<lparr>seen_interfaces = [''can0''], seen_msg_idxs = [0], seen_can_ids = [(''can0'', 1)], max_msg_idx = 0\<rparr>"
  have a: "add_joints demo_params (interface_names ?v) (zip [0..<length [''hip'']] [''hip'']) (replicate (length (interface_names ?v)) [],
      size_vectors 6 (length [''hip'']) (length (interface_names ?v)) (unat (max_msg_idx ?v + 1)) l) = Inr ([[su_config demo_setup]], l1)"
    using demo_setup by (simp add: demo_names l1_def add_joint_def push_at_def Let_def)
  have "can_interfaces l1 = resize 1 None (can_interfaces l)" "node_tx_timestamping l1" "\<not> node_error_frames l1"
    using l(3,4) by (simp_all add: l1_def add_joint_def Let_def size_vectors_def)
  then obtain l2 where o: "open_interfaces (demo_os [reply_v2 1 0]) demo_params [[su_config demo_setup]]
      (zip [0..<length (interface_names ?v)] (interface_names ?v)) l1 = Some (Inr l2)"
    using demo_constructor [of "[reply_v2 1 0]"] by (simp add: demo_names demo_settings demo_os_def)
  have i: "0 < length (joint_parameters_per_can_interface n)" "joint_parameters_per_can_interface n ! 0 \<noteq> []"
    "0 < length (interface_names ?v)"
    using n(1) by (simp_all add: demo_names)
  have "configure demo_env (demo_os [reply_v2 1 0]) demo_params 6 n = None"
    using leftover_joints_block_configuration [OF demo_env_documented n(2) i(1,2) l(1) demo_valid i(3)] a o by blast
  then show ?thesis using m(2) by (simp add: n_def)
qed

end
