(* ===== verification/NodeSafety.thy ===== *)
theory NodeSafety
  imports NodeSetup
begin

text \<open>
  Safety of the hardware node: what the motors are told in every state that the events lead to, which
  command can outlive a deactivation, how the silence of the controller ends, and that a cycle which leaves the node active has found its
  positions inside the limits.
\<close>

section \<open>Examples\<close>

definition still_command :: JointCommand where
  "still_command = (passive_command 1 (Fin 0))\<lparr>jc_kp := [Fin 100]\<rparr>"

lemma demo_configure:
  obtains n where "configure demo_env (demo_os [reply_v2 1 0]) demo_params 5 fresh_node = Some n"
    "current_state n = INACTIVE" "joint_cmd_sub n" "joint_msg_length n = 1" "well_formed n"
    "length (can_interfaces n) = 1"
proof -
  obtain m where c: "on_configure (demo_os [reply_v2 1 0]) demo_params 5 fresh_node = Some (LC_SUCCESS, m)"
    using demo_configured [of "[]"] by auto
  from demo_before_start(1) [of "[reply_v2 1 0]"] c
  have s: "start_motors [[su_config demo_setup]] (demo_before_start [reply_v2 1 0]) = Some (LC_SUCCESS, m)" by simp
  have l: "joint_msg_length (demo_before_start q) = 1" "length (comm_threads (demo_before_start q)) = 1"
    "length (joint_parameters_per_can_interface (demo_before_start q)) = 1" for q
    using demo_constructor [of q] demo_setup
    by (simp_all add: demo_before_start_def demo_globals demo_settings add_joint_def push_at_def size_vectors_def
      resize_def demo_os_def fresh_node_def clear_joints_def Let_def)
  have len: "length (comm_threads (demo_before_start [reply_v2 1 0])) = length (can_interfaces (demo_before_start [reply_v2 1 0]))"
    using l(2) demo_before_start(3) by simp
  obtain cs ts where "m = (demo_before_start [reply_v2 1 0])\<lparr>publish_timer := True,
      joint_cmd_sub := True, can_interfaces := cs, on_set_parameters_handle := True, supervisor_timer := True, comm_threads := ts\<rparr>"
    by (rule start_motors_node [OF s len])
  then have m: "joint_cmd_sub m" "joint_msg_length m = 1" "length (joint_parameters_per_can_interface m) = 1"
    using l(1,3) by simp_all
  let ?n = "m\<lparr>current_state := INACTIVE\<rparr>"
  have f: "current_state fresh_node = UNCONFIGURED" by (simp add: fresh_node_def clear_joints_def demo_node_def)
  have "configure demo_env (demo_os [reply_v2 1 0]) demo_params 5 fresh_node = Some ?n"
    using c f by (simp add: configure_def trigger_def demo_env_def documented_lifecycle_def)
  moreover have w: "well_formed m" by (rule configured_well_formed [OF c demo_fresh])
  moreover have "length (can_interfaces m) = 1" using w m(3) by (simp add: well_formed_def)
  moreover have "well_formed ?n = well_formed m"
    by (simp add: well_formed_def interface_fits_def aligned_def diagnostics_fit_def filters_shape_def names_ok_def
      joints_def message_fits_def lengths_fit_def restful_def parameters_at_def Let_def)
  ultimately show thesis using m that by simp
qed

text \<open>The node is configured, gets a command and is activated; then the watchdog ticks twice.\<close>

definition demo_start :: "event list" where
  "demo_start = [Ev_configure (demo_os [reply_v2 1 0]) demo_params 5, Ev_command still_command, Ev_activate]"

definition demo_events :: "event list" where
  "demo_events = demo_start @ [Ev_watchdog, Ev_watchdog]"

lemma demo_sizes: "joint_msg_length n = 1 \<Longrightarrow> command_sizes_ok n still_command"
  by (simp add: command_sizes_ok_def still_command_def passive_command_def)

lemma demo_activated:
  obtains n where "node_run demo_env fresh_node demo_start n" "current_state n = ACTIVE" "joint_cmd_sub n"
    "accepted n = None" "joint_msg_length n = 1" "msg_received n" "watchdog_timer n"
proof -
  obtain n1 where n1: "configure demo_env (demo_os [reply_v2 1 0]) demo_params 5 fresh_node = Some n1"
    "current_state n1 = INACTIVE" "joint_cmd_sub n1" "joint_msg_length n1 = 1" by (rule demo_configure)
  have f: "accepted fresh_node = None" "current_state fresh_node = UNCONFIGURED"
    by (simp_all add: fresh_node_def clear_joints_def demo_node_def)
  then have free: "accepted n1 = None" using configure_effect [OF demo_env_documented n1(1)] by simp
  define n2 where "n2 = n1\<lparr>msg_received := True\<rparr>"
  have e2: "begin_command still_command n1 = n2"
    using n1(2) demo_sizes [OF n1(4)] by (simp add: begin_command_def accept_command_def n2_def)
  define n3 where "n3 = n2\<lparr>current_state := ACTIVE, watchdog_timer := True\<rparr>"
  have e3: "activate demo_env n2 = n3" using n1(2) by (simp add: activate_eq demo_env_documented n2_def n3_def)
  have "node_step demo_env fresh_node (Ev_configure (demo_os [reply_v2 1 0]) demo_params 5) n1"
    using f(1) n1(1) by (rule configure_step)
  moreover have "node_step demo_env n1 (Ev_command still_command) n2"
    using command_step [OF n1(3) free] e2 by metis
  moreover have "node_step demo_env n2 Ev_activate n3" using activate_step [of demo_env n2] e3 by simp
  ultimately have "node_run demo_env fresh_node demo_start n3"
    unfolding demo_start_def by (blast intro: run_cons run_nil)
  then show thesis by (rule that) (use n1 free in \<open>simp_all add: n3_def n2_def\<close>)
qed

lemma demo_run:
  obtains n where "node_run demo_env fresh_node demo_events n" "current_state n = INACTIVE"
proof -
  obtain n3 where n3: "node_run demo_env fresh_node demo_start n3" "current_state n3 = ACTIVE" "msg_received n3"
    "watchdog_timer n3" by (rule demo_activated)
  define n4 where "n4 = n3\<lparr>msg_received := False\<rparr>"
  have e4: "watchdog_timer_callback demo_env n3 = n4" using n3(3) by (simp add: watchdog_timer_callback_def n4_def)
  define n5 where "n5 = (deactivate demo_env n4)\<lparr>msg_received := False\<rparr>"
  have e5: "watchdog_timer_callback demo_env n4 = n5" by (simp add: watchdog_timer_callback_def n4_def n5_def)
  have "node_step demo_env n3 Ev_watchdog n4" using watchdog_step [OF n3(4), of demo_env] e4 by simp
  moreover have "node_step demo_env n4 Ev_watchdog n5"
    using watchdog_step [of n4 demo_env] n3(4) e5 by (simp add: n4_def)
  ultimately have "node_run demo_env fresh_node demo_events n5"
    using n3(1) unfolding demo_events_def node_run_append by (blast intro: run_cons run_nil)
  moreover have "current_state n5 = INACTIVE" using n3(2) by (simp add: n5_def deactivate_eq demo_env_documented n4_def)
  ultimately show thesis by (rule that)
qed

lemma fresh_initial: "initial fresh_node"
  by (simp add: initial_def fresh_node_def clear_joints_def demo_node_def)

section \<open>Commands\<close>

text \<open>
  C11. Whatever events reach the node after its start, in any order and with any value of
  \<open>msg_received_\<close>, an active node is watched and only an active one is, and an inactive node
  holds a command of zero position, velocity, torque and stiffness, with one damping gain for all
  joints. There is one exception: a command whose callback has found the node active and stores it
  after the node was deactivated. An inactive node that holds anything else holds such a command.
\<close>

theorem inactive_node_asks_no_motion:
  assumes "documented (ev_lifecycle E)" and "initial n" and "node_run E n evs n'"
  shows "(watchdog_timer n' \<longleftrightarrow> current_state n' = ACTIVE) \<and>
    (current_state n' = INACTIVE \<longrightarrow>
      (\<exists>kd. joint_cmd_ptr n' = Some (passive_command (joint_msg_length n') kd)) \<or>
      (\<exists>cmd \<in> late_commands E n evs. joint_cmd_ptr n' = Some cmd))"
  using run_settled [OF assms(3,1) initial_settled [OF assms(2)] order_refl] by (auto simp: settled_def restful_def)

theorem inactive_node_asks_no_motion_witness:
  "\<exists>n'. node_run demo_env fresh_node demo_events n' \<and> \<not> watchdog_timer n' \<and>
     (\<exists>kd. joint_cmd_ptr n' = Some (passive_command (joint_msg_length n') kd))"
proof -
  obtain n where n: "node_run demo_env fresh_node demo_events n" "current_state n = INACTIVE" by (rule demo_run)
  have "late_commands demo_env fresh_node demo_events = {}"
    by (auto simp: late_commands_def demo_events_def demo_start_def append_eq_Cons_conv Cons_eq_append_conv)
  then show ?thesis using inactive_node_asks_no_motion [OF demo_env_documented fresh_initial n(1)] n by auto
qed

text \<open>What is accepted waits.\<close>

lemma run_accepted:
  "node_run E n evs m \<Longrightarrow> documented (ev_lifecycle E) \<Longrightarrow> accepted n = Some cmd \<Longrightarrow>
     \<forall>now. Ev_store now \<notin> set evs \<Longrightarrow> accepted m = Some cmd"
proof (induction rule: node_run.induct)
  case (run_cons n ev m evs n')
  have "accepted m = Some cmd"
  proof (cases "\<exists>c. ev = Ev_command c")
    case True
    then have "accepted n = None" using run_cons.hyps(1) by (auto elim: node_step.cases)
    then show ?thesis using run_cons.prems(2) by simp
  next
    case False
    then show ?thesis using step_accepted [OF run_cons.prems(1) run_cons.hyps(1)] run_cons.prems(2,3)
      by (cases ev) auto
  qed
  then show ?case using run_cons.IH run_cons.prems by simp
qed simp

text \<open>
  C33. A command can outlive the deactivation that should have replaced it. The callback of the
  subscription checks the state before it stores the command, and other threads run in between: if
  anything has made the node inactive by then (a communication thread, the watchdog, a transition),
  the store is still possible, and after it the node is inactive, no watchdog runs, and the node
  holds the command, with whatever motion and stiffness it asks for.
\<close>

theorem late_command_replaces_damping:
  assumes "documented (ev_lifecycle E)" and "initial n0" and "node_run E n0 pre n"
    and "current_state n = ACTIVE" and "command_sizes_ok n cmd"
    and "node_run E n (Ev_command cmd # evs) m" and "\<forall>now. Ev_store now \<notin> set evs" and "current_state m = INACTIVE"
  shows "\<exists>n'. node_step E m (Ev_store now) n' \<and> current_state n' = INACTIVE \<and> \<not> watchdog_timer n' \<and>
    joint_cmd_ptr n' = Some cmd"
proof -
  obtain l where l: "node_step E n (Ev_command cmd) l" "node_run E l evs m" using assms(6) by (elim run_consE)
  have "accepted l = Some cmd" using step_accepted [OF assms(1) l(1)] assms(4,5) by simp
  then have m: "accepted m = Some cmd" using run_accepted [OF l(2) assms(1) _ assms(7)] by simp
  have "node_run E n0 (pre @ Ev_command cmd # evs) m" using assms(3,6) node_run_append by blast
  from run_settled [OF this assms(1) initial_settled [OF assms(2)] order_refl]
  have "\<not> watchdog_timer m" using assms(8) by (simp add: settled_def)
  then show ?thesis using store_step [OF m, of E now] assms(8) by (auto simp: command_effect)
qed

theorem late_command_replaces_damping_witness:
  "\<exists>n m n'. node_run demo_env fresh_node demo_start n \<and> current_state n = ACTIVE \<and>
     node_run demo_env n [Ev_command still_command, Ev_deactivate] m \<and> node_step demo_env m (Ev_store 7) n' \<and>
     current_state n' = INACTIVE \<and> joint_cmd_ptr n' = Some still_command \<and> jc_kp still_command = [Fin 100]"
proof -
  obtain n where n: "node_run demo_env fresh_node demo_start n" "current_state n = ACTIVE" "joint_cmd_sub n"
    "accepted n = None" "joint_msg_length n = 1" by (rule demo_activated)
  let ?l = "begin_command still_command n"
  have l: "node_step demo_env n (Ev_command still_command) ?l" by (rule command_step [OF n(3,4)])
  have r: "node_run demo_env n [Ev_command still_command, Ev_deactivate] (deactivate demo_env ?l)"
    by (blast intro: run_cons run_nil l deactivate_step)
  have "current_state (deactivate demo_env ?l) = INACTIVE"
    using n(2) by (simp add: deactivate_eq demo_env_documented command_effect)
  from late_command_replaces_damping [OF demo_env_documented fresh_initial n(1,2) demo_sizes [OF n(5)] r _ this, of 7]
  show ?thesis using n(1,2) r by (auto simp: still_command_def)
qed

section \<open>Silence of the controller\<close>

fun is_command :: "event \<Rightarrow> bool" where
  "is_command (Ev_command _) = True"
| "is_command _ = False"

lemma falls_back_msg: "documented (ev_lifecycle E) \<Longrightarrow> falls_back E n n' \<Longrightarrow> msg_received n' \<Longrightarrow> msg_received n"
  by (auto simp: falls_back_def control_def deactivate_eq split: if_splits)

text \<open>Only a command lets the watchdog believe that the controller is alive.\<close>

lemma step_silent:
  assumes "documented (ev_lifecycle E)" and "node_step E n ev n'" and "\<not> is_command ev" and "msg_received n'"
  shows "msg_received n"
  using assms(2)
proof cases
  case (configure_step sys P now)
  then show ?thesis using configure_effect [OF assms(1) configure_step(3)] assms(4) by (auto split: if_splits)
next
  case activate_step
  then show ?thesis using assms(1,4) by (auto simp: activate_eq split: if_splits)
next
  case deactivate_step
  then show ?thesis using assms(1,4) by (auto simp: deactivate_eq split: if_splits)
next
  case cleanup_step
  then show ?thesis using assms(1,4) on_cleanup_frame(1) by (auto simp: cleanup_eq split: if_splits)
next
  case shutdown_step
  then show ?thesis using assms(1,4) on_cleanup_frame(1)
    by (auto simp: shutdown_eq on_shutdown_def on_deactivate_def Let_def split: if_splits)
next
  case (command_step cmd)
  then show ?thesis using assms(3) by simp
next
  case (store_step cmd now)
  then show ?thesis using assms(4) by (simp add: command_effect)
next
  case (parameters_step ps)
  then show ?thesis using assms(4) parameters_frame(3) by simp
next
  case watchdog_step
  then show ?thesis using assms(4) by (simp add: watchdog_timer_callback_def Let_def)
next
  case supervisor_step
  have "msg_received (cleanup E m) \<longrightarrow> msg_received m" for m
    using assms(1) on_cleanup_frame(1) by (simp add: cleanup_eq)
  from this [of "n\<lparr>cleanup_requested := False\<rparr>"] show ?thesis
    using supervisor_step assms(4) by (auto simp: supervisor_callback_def split: if_splits)
next
  case (cycle_step k c)
  show ?thesis using falls_back_msg [OF assms(1) cycle_falls_back [OF assms(1) cycle_step(4)] assms(4)] .
next
  case (publish_step t t' p)
  then show ?thesis using control_eqD [OF publish_frame [OF publish_step(3)]] assms(4) by simp
next
  case (origin_all_step r)
  have "control n' = control n" using set_all_effect [OF origin_all_step(4)] by simp
  then show ?thesis using control_eqD assms(4) by blast
next
  case (origin_step motor r)
  then show ?thesis using set_one_effect [OF assms(1) origin_step(4)] control_eqD assms(4) by blast
qed

lemma run_silent:
  "node_run E n evs n' \<Longrightarrow> documented (ev_lifecycle E) \<Longrightarrow> \<forall>ev\<in>set evs. \<not> is_command ev \<Longrightarrow>
     \<not> msg_received n \<Longrightarrow> \<not> msg_received n'"
  by (induction rule: node_run.induct) (auto dest: step_silent)

text \<open>
  C7. A controller that falls silent loses the motors within two ticks of the watchdog: if no
  command arrives between two ticks, the node is not active after the second one, whatever else
  happens in between, activations included; and a node that was active until then is inactive and
  commands the default damping of all joints.
\<close>

theorem watchdog_ends_silence:
  assumes "documented (ev_lifecycle E)" and "node_run E n (Ev_watchdog # evs) m"
    and "\<forall>ev\<in>set evs. \<not> is_command ev" and "node_step E m Ev_watchdog n'"
  shows "current_state n' \<noteq> ACTIVE \<and>
    (current_state m = ACTIVE \<longrightarrow> current_state n' = INACTIVE \<and>
       joint_cmd_ptr n' = Some (passive_command (joint_msg_length m) (default_damping_KD m)))"
proof -
  obtain n1 where n1: "node_step E n Ev_watchdog n1" "node_run E n1 evs m"
    using assms(2) by (elim run_consE)
  from n1(1) have "n1 = watchdog_timer_callback E n" by cases
  then have "\<not> msg_received n1" by (simp add: watchdog_timer_callback_def Let_def)
  then have "\<not> msg_received m" using run_silent [OF n1(2) assms(1,3)] by simp
  moreover from assms(4) have "n' = watchdog_timer_callback E m" by cases
  ultimately show ?thesis using assms(1) by (simp add: watchdog_timer_callback_def Let_def deactivate_eq)
qed

definition fed_node :: node where
  "fed_node = (demo_node ACTIVE [])\<lparr>msg_received := True\<rparr>"

theorem watchdog_ends_silence_witness:
  "\<exists>n m. node_run demo_env fed_node [Ev_watchdog, Ev_activate] m \<and> current_state m = ACTIVE \<and>
     node_step demo_env m Ev_watchdog n \<and> current_state n = INACTIVE \<and>
     joint_cmd_ptr n = Some (passive_command (joint_msg_length m) (default_damping_KD m))"
proof -
  define m where "m = fed_node\<lparr>msg_received := False\<rparr>"
  have s: "current_state fed_node = ACTIVE" "watchdog_timer fed_node" "msg_received fed_node"
    by (simp_all add: fed_node_def demo_node_def)
  have "node_step demo_env fed_node Ev_watchdog m"
    using watchdog_step [OF s(2), of demo_env] s(3) by (simp add: watchdog_timer_callback_def m_def)
  moreover have "node_step demo_env m Ev_activate m"
    using activate_step [of demo_env m] s(1) by (simp add: activate_eq demo_env_documented m_def)
  ultimately have r: "node_run demo_env fed_node (Ev_watchdog # [Ev_activate]) m" by (blast intro: run_cons run_nil)
  have t: "node_step demo_env m Ev_watchdog (watchdog_timer_callback demo_env m)"
    by (rule watchdog_step) (simp add: m_def s)
  from watchdog_ends_silence [OF demo_env_documented r _ t] s(1) r t show ?thesis
    by (intro exI [of _ "watchdog_timer_callback demo_env m"] exI [of _ m]) (simp add: m_def)
qed

section \<open>Limits\<close>

text \<open>What no part of a cycle changes.\<close>

definition wiring :: "node \<Rightarrow> bool list \<times> JointParameters list list" where
  "wiring n = (comm_threads n, joint_parameters_per_can_interface n)"

lemma deactivate_wiring [frame_facts]: "documented (ev_lifecycle E) \<Longrightarrow> wiring (deactivate E n) = wiring n"
  by (simp add: deactivate_eq wiring_def)

interpretation wiring_part: cycle_rest wiring
  by unfold_locales (simp_all add: wiring_def deactivate_eq)

lemma diagnostics_message: "cycle_diagnostics k c x drv n = Some n' \<Longrightarrow> joint_state_msg n' = joint_state_msg n"
  by (auto simp: cycle_diagnostics_def Let_def split: if_splits)

lemma count_errors_wiring [frame_facts]:
  "documented (ev_lifecycle E) \<Longrightarrow> wiring (snd (count_errors E k errors n)) = wiring n"
  by (simp add: count_errors_def give_up_def Let_def deactivate_eq wiring_def)

lemma exchanged_wiring [frame_facts]:
  "wiring (exchanged c k cmds drv n) = wiring n" "wiring (with_states k states n) = wiring n"
  by (simp_all add: exchanged_def with_states_def wiring_def)

lemma give_up_not_active: "documented (ev_lifecycle E) \<Longrightarrow> current_state (give_up E n) \<noteq> ACTIVE"
  by (simp add: give_up_def deactivate_eq)

lemma violates_cong:
  "wiring n' = wiring n \<Longrightarrow> joint_state_msg n' = joint_state_msg n \<Longrightarrow> violates_limits k n' = violates_limits k n"
  by (simp add: violates_limits_def wiring_def)

lemma process_replies_limits:
  assumes "documented (ev_lifecycle E)" and "process_replies E c k x drv n = Some n'"
    and "comm_threads n ! k" and "current_state n' = ACTIVE"
  shows "\<not> violates_limits k n'"
proof -
  obtain n1 n2 n3 where n: "median_stage k n = Some n1" "velocity_stage k n1 = Some n2"
    "unfiltered_stage k (map (\<lambda>st. (st_pos st, st_vel st)) (joint_states_per_can_interface n ! k)) n2 = Some n3"
    using assms(2) by (auto simp: process_replies_def Let_def split: option.splits)
  define n4 where "n4 = transmission_stage k n3"
  have "wiring n4 = wiring n" using n by (simp add: n4_def frame_facts)
  then have "comm_threads n4 ! k" using assms(3) by (simp add: wiring_def)
  then obtain n5 where n5: "write_back E k (tx_fill_end_ns drv) n4 = Some n5"
    using assms(2) n by (auto simp: process_replies_def n4_def split: option.splits)
  obtain go n6 where n6: "check_limits E k n5 = (go, n6)" by force
  have go: go
  proof (rule ccontr)
    assume "\<not> go"
    moreover from this have "n' = n6" using assms(2) n n5 n6 \<open>comm_threads n4 ! k\<close>
      by (simp add: process_replies_def n4_def)
    ultimately show False using n6 assms(1,4) by (auto simp: check_limits_def deactivate_eq split: if_splits)
  qed
  then have d: "cycle_diagnostics k c x drv n6 = Some n'" "n6 = n5"
    using assms(2) n n5 n6 \<open>comm_threads n4 ! k\<close> by (auto simp: process_replies_def n4_def check_limits_def split: if_splits)
  then have c: "control n' = control n5" "wiring n' = wiring n5" "joint_state_msg n' = joint_state_msg n5"
    using control_part.stages(5) [OF d(1)] wiring_part.stages(5) [OF d(1)] diagnostics_message [OF d(1)] d(2) by simp_all
  then have "\<not> violates_limits k n5"
    using n6 go assms(4) control_eqD [OF c(1)] by (auto simp: check_limits_def split: if_splits)
  then show ?thesis using violates_cong c(2,3) by blast
qed

end
