(* ===== verification/NodeLive.thy ===== *)
theory NodeLive
  imports NodeSafety
begin

text \<open>
  The communication threads never run into undefined behaviour: an invariant of the interfaces
  which every cycle keeps, and under which every cycle ends, whatever the bus delivers.
\<close>

section \<open>Positions of replies\<close>

lemma f64_small: "\<bar>r\<bar> \<le> 2 ^ 16 \<Longrightarrow> \<bar>rnd b64 r\<bar> < 2 powi emax b64 \<and> \<bar>rnd b64 r\<bar> \<le> 2 ^ 16"
  using f64.rnd_below [of r 16] f64.rnd_abs_le [of r "2 ^ 16"] f64.rnd_exact [OF f64.representable_powi [of 16]]
  by simp

lemma tenth_fin: "is_fin (fp_lit b32 0.1)" "\<bar>fval (fp_lit b32 0.1)\<bar> \<le> 1"
proof -
  have "rnd b32 1 = (1 :: rat)" using f32_pow [of 0] by simp
  then have "\<bar>rnd b32 0.1\<bar> \<le> 1" using f32.rnd_abs_le [of "0.1" 1] by simp
  then show "is_fin (fp_lit b32 0.1)" "\<bar>fval (fp_lit b32 0.1)\<bar> \<le> 1"
    using f32.deliver_fin [of "0.1" False] f32_finite [of "0.1"] by (simp_all add: fp_lit_def)
qed

lemma lit_180: "fp_lit b64 180 = Fin 180"
  using f64.fp_lit_exact [of 180] f64.representable_of_int [of 180] by (simp add: b64_def)

lemma lit64_fin:
  assumes "\<bar>r\<bar> \<le> 2 ^ 16"
  shows "is_fin (fp_lit b64 r) \<and> \<bar>fval (fp_lit b64 r)\<bar> \<le> 2 ^ 16"
  using f64.deliver_fin [of r False] f64_small [OF assms] by (simp add: fp_lit_def)

lemma degree_fin: "is_fin (fp_div b64 M_PI (fp_lit b64 180))"
proof -
  have pi: "is_fin M_PI \<and> \<bar>fval M_PI\<bar> \<le> 2 ^ 16"
    unfolding M_PI_def by (rule lit64_fin) simp
  have "\<bar>fval M_PI / 180\<bar> \<le> 2 ^ 16" using pi by (simp add: abs_if split: if_splits)
  then have "\<bar>rnd b64 (fval M_PI / fval (fp_lit b64 180))\<bar> < 2 powi emax b64" using f64_small lit_180 by simp
  then show ?thesis using f64.fp_div_fin(1) pi lit_180 by simp
qed

lemma fin_mul_not_nan: "is_fin x \<Longrightarrow> is_fin y \<Longrightarrow> \<not> is_nan (fp_mul F x y)"
  by (simp add: fp_mul_def is_fin_cases deliver_def Let_def)

lemma conv_not_nan: "\<not> is_nan x \<Longrightarrow> \<not> is_nan (fp_conv F x)"
  by (cases x) (simp_all add: deliver_def Let_def)

lemma invert_not_nan: "\<not> is_nan (st_pos st) \<Longrightarrow> \<not> is_nan (st_pos (apply_invert cfg st))"
  by (simp add: apply_invert_def)

lemma decode_v3_pos: "\<not> is_nan (st_pos (decode_v3 cfg x st))"
proof -
  let ?p = "i16_of_bytes (d0 x) (d1 x)"
  have b: "- (2 ^ 15) \<le> ?p" "?p < 2 ^ 15"
    using sint_ge [of "to_u16 (push_bit 8 (promote (d0 x)) OR promote (d1 x))"]
      sint_lt [of "to_u16 (push_bit 8 (promote (d0 x)) OR promote (d1 x))"] by (simp_all add: i16_of_bytes_def)
  then have i: "is_fin (fp_of_int b32 ?p)" "fval (fp_of_int b32 ?p) = of_int ?p"
    using f32_of_int [of ?p] by simp_all
  have "\<bar>of_int ?p :: rat\<bar> \<le> 2 ^ 15" using b by (simp add: abs_le_iff)
  then have "\<bar>of_int ?p * fval (fp_lit b32 0.1)\<bar> \<le> 2 ^ 15 * 1"
    unfolding abs_mult using tenth_fin(2) by (intro mult_mono) simp_all
  then have "is_fin (fp_mul b32 (fp_of_int b32 ?p) (fp_lit b32 0.1))"
    using f32_mul(1) [OF i(1) tenth_fin(1)] i(2) by simp
  then show ?thesis using fin_mul_not_nan [OF _ degree_fin] by (simp add: decode_v3_def Let_def conv_not_nan)
qed

lemma decode_v2_pos:
  assumes "config_ok cfg"
  shows "\<not> is_nan (st_pos (decode_v2 cfg x st))"
proof -
  let ?w = "to_u16 (push_bit 8 (promote (d1 x)) OR promote (d2 x))"
  have "range_ok (fp_conv b32 (P_MIN cfg)) (fp_conv b32 (P_MAX cfg))"
    using assms by (simp add: config_ok_def limits_ok_def)
  from uint_to_float_in_range(1) [OF this, of "uint ?w" 16] uint_bounded [of ?w]
  have "is_fin (uint_to_float (uint ?w) (fp_conv b32 (P_MIN cfg)) (fp_conv b32 (P_MAX cfg)) 16)" by simp
  then show ?thesis by (simp add: decode_v2_def Let_def is_fin_cases)
qed

text \<open>A joint that is reported with \<open>SUCCESS\<close> has a position that is a number.\<close>

lemma reported_position:
  assumes "driver_ok d" and "list_all config_ok (joint_configs d)"
    and "length cmds = length (joint_configs d)" and "length states = length (joint_configs d)"
    and "send_and_receive cmds states d = (Ok states', d')" and "j < length (joint_configs d)"
    and "communication_status (states' ! j) = SUCCESS"
  shows "\<not> is_nan (st_pos (states' ! j))"
proof -
  obtain f where "measured (states' ! j) = frame_values (joint_configs d ! j) f"
    using response_source [OF assms(1-6)] assms(7) by auto
  then have "st_pos (states' ! j) = fst (frame_values (joint_configs d ! j) f)" unfolding measured_def by (metis fst_conv)
  moreover have "config_ok (joint_configs d ! j)" using assms(2,6) by (simp add: list_all_length)
  ultimately show ?thesis
    using invert_not_nan decode_v3_pos decode_v2_pos
    by (simp add: frame_values_def v2_reply.reply_values_def v3_reply.reply_values_def measured_def)
qed


section \<open>The invariant of the interfaces\<close>

text \<open>Lengths: those of the vectors that a cycle indexes together, and those of the messages.\<close>

definition shape :: "node \<Rightarrow> nat list list \<times> nat list" where
  "shape n =
     ([map length (joint_commands_per_can_interface n), map length (joint_states_per_can_interface n),
       map length (joint_parameters_per_can_interface n), map length (joint_vel_filters_per_can_interface n),
       map length (joint_ab_filters_per_can_interface n), map length (joint_pos_median_filters_per_can_interface n),
       map length (last_joint_rx_ns_per_can_interface n)],
      [length (last_can_cycle_times n), length (comm_threads n), length (can_interfaces n),
       length (num_can_errors_per_interfaces n), length (last_cycle_end_ns_per_can_interface n)])"

definition room :: "node \<Rightarrow> nat list" where
  "room n =
     (let m = joint_state_msg n; d = diag n in
      [length (js_position m), length (js_velocity m), length (js_effort m), length (joint_rx_ns n),
       length (joint_rx_delivery_floor_ns n), length (joint_rx_hw_base_ns n)] @
      map length [joint_temp d, joint_state_age d, joint_rx_delivery d, joint_rx_hw_timestamp d, joint_reply_after_tx d,
        joint_cmd_to_bus_latency d, joint_motor_reply_latency d, joint_enqueue_to_wire d, unfiltered_velocity d,
        unfiltered_position d, can_interface_frequency d, can_tx_fill_duration d, can_rx_duration d,
        can_processing d, can_intercycle_gap d])"

lemma aligned_shape:
  "aligned k n \<longleftrightarrow> list_all (\<lambda>xs. k < length xs \<and> xs ! k = hd (fst (shape n)) ! k) (fst (shape n)) \<and>
     list_all (\<lambda>m. k < m) (take 4 (snd (shape n)))"
  by (auto simp: aligned_def shape_def Let_def)

lemma lengths_fit_room:
  "lengths_fit n \<longleftrightarrow> list_all (\<lambda>m. m = joint_msg_length n) (take 16 (room n))"
  by (auto simp: lengths_fit_def room_def Let_def)

lemma diagnostics_fit_room:
  "diagnostics_fit k n \<longleftrightarrow> list_all (\<lambda>m. k < m) (drop 16 (room n)) \<and> k < snd (shape n) ! 4"
  by (auto simp: diagnostics_fit_def room_def shape_def Let_def)

text \<open>All vectors of vectors have one shape.\<close>

definition joints_even :: "node \<Rightarrow> bool" where
  "joints_even n \<longleftrightarrow> list_all (\<lambda>xs. xs = map length (joint_parameters_per_can_interface n)) (fst (shape n))"

lemma joints_even_shape: "joints_even n \<longleftrightarrow> list_all (\<lambda>xs. xs = fst (shape n) ! 2) (fst (shape n))"
  by (simp add: joints_even_def shape_def)

text \<open>What a cycle needs of the filters of a joint, of the driver, of the command and of the indices.\<close>

definition clean :: "fp median_filter \<Rightarrow> bool" where
  "clean f \<longleftrightarrow> (1 < med_size f \<longrightarrow> med_ok f) \<and> list_all (\<lambda>x. \<not> is_nan x) (med_buffer f)"

definition good_filters :: "nat \<Rightarrow> node \<Rightarrow> bool" where
  "good_filters k n \<longleftrightarrow> (\<forall>i<length (joint_parameters_per_can_interface n ! k).
     ma_safe (joint_vel_filters_per_can_interface n ! k ! i) \<and>
     unat (vel_filter_size (joint_parameters_per_can_interface n ! k ! i)) \<le>
       ma_buffersize (joint_vel_filters_per_can_interface n ! k ! i) \<and>
     clean (joint_pos_median_filters_per_can_interface n ! k ! i))"

definition good_driver :: "nat \<Rightarrow> node \<Rightarrow> bool" where
  "good_driver k n \<longleftrightarrow> (\<exists>d. can_interfaces n ! k = Some d \<and> driver_ok d \<and> list_all config_ok (joint_configs d) \<and>
     length (joint_configs d) = length (joint_commands_per_can_interface n ! k))"

definition good_command :: "node \<Rightarrow> bool" where
  "good_command n \<longleftrightarrow> (\<forall>cmd. joint_cmd_ptr n = Some cmd \<longrightarrow> command_sizes_ok n cmd)"

definition good_indices :: "node \<Rightarrow> bool" where
  "good_indices n \<longleftrightarrow> (\<forall>ps\<in>set (joint_parameters_per_can_interface n). \<forall>p\<in>set ps. unat (msg_idx p) < joint_msg_length n)"

definition live :: "node \<Rightarrow> bool" where
  "live n \<longleftrightarrow> lengths_fit n \<and> good_command n \<and> good_indices n \<and>
     length (comm_threads n) = length (can_interfaces n) \<and> joints_even n \<and>
     (\<forall>k<length (can_interfaces n). aligned k n \<and> diagnostics_fit k n \<and> good_driver k n \<and> good_filters k n)"

text \<open>The invariant only looks at these parts of a node.\<close>

definition stable :: "node \<Rightarrow> (nat list list \<times> nat list) \<times> nat list \<times> JointParameters list list \<times> nat" where
  "stable n = (shape n, room n, joint_parameters_per_can_interface n, joint_msg_length n)"

lemma stableD:
  "stable n' = stable n \<Longrightarrow> shape n' = shape n \<and> room n' = room n \<and> joint_msg_length n' = joint_msg_length n \<and>
     joint_parameters_per_can_interface n' = joint_parameters_per_can_interface n \<and>
     length (can_interfaces n') = length (can_interfaces n) \<and> length (comm_threads n') = length (comm_threads n)"
  by (auto simp: stable_def shape_def)

lemma live_intro:
  assumes "live n" and "stable n' = stable n" and "good_command n'"
    and "\<And>k. k < length (can_interfaces n) \<Longrightarrow> good_driver k n' \<and> good_filters k n'"
  shows "live n'"
  using assms(1,3,4) stableD [OF assms(2)]
  by (simp add: live_def aligned_shape lengths_fit_room diagnostics_fit_room good_indices_def joints_even_shape)

lemma map_length_update [simp]: "length ys = length (xs ! k) \<Longrightarrow> map length (xs[k := ys]) = map length xs"
  by (cases "k < length xs") (simp_all add: map_update list_update_same_conv list_update_beyond)

lemma those_map_the: "\<forall>x\<in>set xs. f x \<noteq> None \<Longrightarrow> those (map f xs) = Some (map (\<lambda>x. the (f x)) xs)"
  by (induction xs) auto

text \<open>The filters of one joint.\<close>

lemma median_joint_total:
  assumes "clean med" and "communication_status st = SUCCESS \<longrightarrow> \<not> is_nan (st_pos st)"
  obtains st' med' where "median_joint p (st, med) = Some (st', med')" "clean med'"
proof (cases "1 < unat (pos_median_filter_size p) \<and> communication_status st = SUCCESS")
  case False
  then show thesis using assms(1) that [of st med] by (auto simp: median_joint_def)
next
  case active: True
  show thesis
  proof (cases "1 < med_size med")
    case False
    then show thesis using active assms(1) that [of "st\<lparr>st_pos := fp_conv b32 (st_pos st)\<rparr>" med]
      by (simp add: median_joint_def med_update_def)
  next
    case True
    let ?u = "med_update double_num (st_pos st) med"
    have ok: "med_ok (snd ?u)" using med_update_window(1) [OF _ True] assms(1) True by (simp add: clean_def)
    have b: "list_all (\<lambda>x. \<not> is_nan x) ((med_buffer med)[med_idx med := st_pos st])"
      using assms active set_update_subset_insert [of "med_buffer med" "med_idx med" "st_pos st"]
      by (auto simp: clean_def list_all_iff)
    then have "list_all (comparable double_num) (take m ((med_buffer med)[med_idx med := st_pos st]))" for m
      using set_take_subset [of m "(med_buffer med)[med_idx med := st_pos st]"]
      by (auto simp: list_all_iff comparable_double)
    then have "fst ?u \<noteq> None" using True
      by (cases "med_filled med < med_size med") (simp_all add: med_update_def nth_element_def Let_def)
    then obtain v where v: "fst ?u = Some v" by blast
    have "med_buffer (snd ?u) = (med_buffer med)[med_idx med := st_pos st]"
      using True by (simp add: med_update_def Let_def)
    then have "clean (snd ?u)" using ok b by (simp add: clean_def)
    moreover have "median_joint p (st, med) = Some (st\<lparr>st_pos := fp_conv b32 v\<rparr>, snd ?u)"
      using active v by (simp add: median_joint_def split_beta prod_eq_iff split: option.split)
    ultimately show thesis using that by blast
  qed
qed

lemma ma_update_total:
  assumes "ma_safe ma" and "1 < ma_buffersize ma"
  shows "case ma_update N x ma of None \<Rightarrow> False
    | Some (v, ma') \<Rightarrow> ma_safe ma' \<and> ma_buffersize ma' = ma_buffersize ma"
proof (cases "length (ma_buffer ma) = ma_buffersize ma")
  case True
  then show ?thesis using assms by (simp add: ma_update_def ma_safe_def Let_def)
next
  case False
  then have "length (ma_buffer ma) < ma_buffersize ma" "ma_index ma = 0" using assms by (simp_all add: ma_safe_def)
  then show ?thesis using False assms(2) by (auto simp: ma_update_def ma_safe_def Let_def)
qed

lemma velocity_joint_total:
  assumes "ma_safe ma" and "unat (vel_filter_size p) \<le> ma_buffersize ma"
  shows "case velocity_joint p (st, ma, ab, last_ns) of None \<Rightarrow> False
    | Some (st', ma', ab', last') \<Rightarrow> ma_safe ma' \<and> ma_buffersize ma' = ma_buffersize ma"
proof (cases "vel_filter_type p = MOVING_AVERAGE \<and> 1 < unat (vel_filter_size p)")
  case True
  with assms have "case ma_update double_num (st_vel st) ma of None \<Rightarrow> False
    | Some (v, ma') \<Rightarrow> ma_safe ma' \<and> ma_buffersize ma' = ma_buffersize ma"
    by (intro ma_update_total) simp_all
  then show ?thesis using True by (auto simp: velocity_joint_def split: option.splits)
next
  case False
  then show ?thesis using assms(1) by (cases "vel_filter_type p") (simp_all add: velocity_joint_def Let_def)
qed


text \<open>A part of the cycle that leaves drivers and filters alone.\<close>

definition kept :: "node \<Rightarrow> driver option list \<times> fp moving_average list list \<times> fp median_filter list list" where
  "kept n = (can_interfaces n, joint_vel_filters_per_can_interface n, joint_pos_median_filters_per_can_interface n)"

lemma live_kept:
  assumes "live n" and "stable n' = stable n" and "kept n' = kept n" and "good_command n'"
  shows "live n'"
proof (rule live_intro [OF assms(1,2,4)])
  fix k assume k: "k < length (can_interfaces n)"
  have "good_driver k n \<and> good_filters k n \<and> aligned k n" using assms(1) k by (simp add: live_def)
  moreover have "map length (joint_commands_per_can_interface n') = map length (joint_commands_per_can_interface n)"
    using stableD [OF assms(2)] by (simp add: shape_def)
  then have "k < length (joint_commands_per_can_interface n) \<Longrightarrow>
     length (joint_commands_per_can_interface n' ! k) = length (joint_commands_per_can_interface n ! k)"
    by (metis length_map nth_map)
  ultimately show "good_driver k n' \<and> good_filters k n'"
    using assms(3) stableD [OF assms(2)] by (auto simp: good_driver_def good_filters_def kept_def aligned_def)
qed

section \<open>Filters\<close>

lemma good_driver_cong:
  assumes "can_interfaces n' = can_interfaces n" and "shape n' = shape n" and "aligned k n" and "good_driver k n"
  shows "good_driver k n'"
proof -
  have "map length (joint_commands_per_can_interface n') = map length (joint_commands_per_can_interface n)"
    using assms(2) by (simp add: shape_def)
  then have "length (joint_commands_per_can_interface n' ! k) = length (joint_commands_per_can_interface n ! k)"
    using assms(3) by (metis aligned_def length_map nth_map)
  then show ?thesis using assms(1,4) by (simp add: good_driver_def)
qed

lemma liveD:
  assumes "live n" and "k < length (can_interfaces n)"
  shows "aligned k n" "diagnostics_fit k n" "good_driver k n" "good_filters k n" "lengths_fit n" "good_command n"
    "good_indices n"
  using assms by (simp_all add: live_def)

lemma median_stage_live:
  assumes "live n" and k: "k < length (can_interfaces n)"
    and fresh: "\<forall>st\<in>set (joint_states_per_can_interface n ! k). communication_status st = SUCCESS \<longrightarrow> \<not> is_nan (st_pos st)"
  obtains n' where "median_stage k n = Some n'" "live n'" "can_interfaces n' = can_interfaces n"
proof -
  let ?ps = "joint_parameters_per_can_interface n ! k" and ?sts = "joint_states_per_can_interface n ! k"
    and ?meds = "joint_pos_median_filters_per_can_interface n ! k"
  note l = liveD [OF assms(1) k]
  have len: "length ?sts = length ?ps" "length ?meds = length ?ps" "k < length (joint_pos_median_filters_per_can_interface n)"
    using l(1) by (auto simp: aligned_def Let_def)
  define f where "f = (\<lambda>i. median_joint (?ps ! i) (?sts ! i, ?meds ! i))"
  have each: "\<exists>st' med'. f i = Some (st', med') \<and> clean med'" if "i < length ?sts" for i
  proof -
    have "clean (?meds ! i)" using l(4) that len by (simp add: good_filters_def)
    moreover have "communication_status (?sts ! i) = SUCCESS \<longrightarrow> \<not> is_nan (st_pos (?sts ! i))" using fresh that by simp
    ultimately show ?thesis by (metis median_joint_total f_def)
  qed
  define xs where "xs = map (\<lambda>i. the (f i)) [0..<length ?sts]"
  have t: "those (map f [0..<length ?sts]) = Some xs"
    unfolding xs_def by (rule those_map_the) (use each in force)
  define n' where "n' = n\<lparr>joint_states_per_can_interface := (joint_states_per_can_interface n)[k := map fst xs],
    joint_pos_median_filters_per_can_interface := (joint_pos_median_filters_per_can_interface n)[k := map snd xs]\<rparr>"
  have s: "median_stage k n = Some n'" using t by (simp add: median_stage_def f_def n'_def Let_def)
  have "length xs = length ?sts" by (simp add: xs_def)
  then have st: "stable n' = stable n" using len by (simp add: stable_def shape_def room_def n'_def)
  have "live n'"
  proof (rule live_intro [OF assms(1) st])
    show "good_command n'" using l(6) by (simp add: good_command_def n'_def command_sizes_ok_def)
  next
    fix j assume j: "j < length (can_interfaces n)"
    note lj = liveD [OF assms(1) j]
    have "good_driver j n'" by (rule good_driver_cong [OF _ _ lj(1,3)]) (use stableD [OF st] in \<open>simp_all add: n'_def\<close>)
    moreover have "clean (snd (the (f i)))" if "i < length ?ps" for i using each [of i] that len by auto
    then have "good_filters j n'" using lj(4) len
      by (cases "j = k") (simp_all add: good_filters_def n'_def xs_def)
    ultimately show "good_driver j n' \<and> good_filters j n'" ..
  qed
  then show thesis using that s by (simp add: n'_def)
qed

lemma velocity_stage_live:
  assumes "live n" and k: "k < length (can_interfaces n)"
  obtains n' where "velocity_stage k n = Some n'" "live n'" "can_interfaces n' = can_interfaces n"
proof -
  let ?ps = "joint_parameters_per_can_interface n ! k" and ?sts = "joint_states_per_can_interface n ! k"
    and ?mas = "joint_vel_filters_per_can_interface n ! k" and ?abs = "joint_ab_filters_per_can_interface n ! k"
    and ?lasts = "last_joint_rx_ns_per_can_interface n ! k"
  note l = liveD [OF assms(1) k]
  have len: "length ?sts = length ?ps" "length ?mas = length ?ps" "length ?abs = length ?ps" "length ?lasts = length ?ps"
    "k < length (joint_vel_filters_per_can_interface n)"
    using l(1) by (auto simp: aligned_def Let_def)
  define f where "f = (\<lambda>i. velocity_joint (?ps ! i) (?sts ! i, ?mas ! i, ?abs ! i, ?lasts ! i))"
  have each: "f i \<noteq> None \<and> ma_safe (fst (snd (the (f i)))) \<and>
      ma_buffersize (fst (snd (the (f i)))) = ma_buffersize (?mas ! i)" if "i < length ?sts" for i
  proof -
    have "ma_safe (?mas ! i)" "unat (vel_filter_size (?ps ! i)) \<le> ma_buffersize (?mas ! i)"
      using l(4) that len by (simp_all add: good_filters_def)
    from velocity_joint_total [OF this, of "?sts ! i" "?abs ! i" "?lasts ! i"]
    show ?thesis by (auto simp: f_def split: option.splits)
  qed
  define xs where "xs = map (\<lambda>i. the (f i)) [0..<length ?sts]"
  have t: "those (map f [0..<length ?sts]) = Some xs"
    unfolding xs_def by (rule those_map_the) (use each in force)
  define n' where "n' = n\<lparr>joint_states_per_can_interface := (joint_states_per_can_interface n)[k := map fst xs],
    joint_vel_filters_per_can_interface := (joint_vel_filters_per_can_interface n)[k := map (\<lambda>x. fst (snd x)) xs],
    joint_ab_filters_per_can_interface := (joint_ab_filters_per_can_interface n)[k := map (\<lambda>x. fst (snd (snd x))) xs],
    last_joint_rx_ns_per_can_interface := (last_joint_rx_ns_per_can_interface n)[k := map (\<lambda>x. snd (snd (snd x))) xs]\<rparr>"
  have s: "velocity_stage k n = Some n'" using t by (simp add: velocity_stage_def f_def n'_def Let_def)
  have "length xs = length ?sts" by (simp add: xs_def)
  then have st: "stable n' = stable n" using len by (simp add: stable_def shape_def room_def n'_def)
  have "live n'"
  proof (rule live_intro [OF assms(1) st])
    show "good_command n'" using l(6) by (simp add: good_command_def n'_def command_sizes_ok_def)
  next
    fix j assume j: "j < length (can_interfaces n)"
    note lj = liveD [OF assms(1) j]
    have "good_driver j n'" by (rule good_driver_cong [OF _ _ lj(1,3)]) (use stableD [OF st] in \<open>simp_all add: n'_def\<close>)
    moreover have "good_filters j n'" using lj(4) len each
      by (cases "j = k") (simp_all add: good_filters_def n'_def xs_def)
    ultimately show "good_driver j n' \<and> good_filters j n'" ..
  qed
  then show thesis using that s by (simp add: n'_def)
qed

section \<open>Publication\<close>

lemma each_joint_total:
  assumes "I b" and "\<And>x b. x \<in> set xs \<Longrightarrow> I b \<Longrightarrow> \<exists>b'. f x b = Some b' \<and> I b'"
  shows "\<exists>b'. each_joint f xs b = Some b' \<and> I b'"
  using assms
proof (induction xs arbitrary: b)
  case (Cons x xs)
  then obtain b' where "f x b = Some b'" "I b'" by (metis list.set_intros(1))
  moreover have "\<exists>b''. each_joint f xs b' = Some b'' \<and> I b''" using Cons.IH Cons.prems(2) \<open>I b'\<close> by simp
  ultimately show ?case by simp
qed simp

lemma index_fits:
  assumes "live n" and "k < length (can_interfaces n)" and "p \<in> set (joint_parameters_per_can_interface n ! k)"
  shows "unat (msg_idx p) < joint_msg_length n"
  using liveD [OF assms(1,2)] assms(3) by (auto simp: good_indices_def aligned_def Let_def)

lemma unfiltered_stage_live:
  assumes "live n" and k: "k < length (can_interfaces n)"
  obtains n' where "unfiltered_stage k snaps n = Some n'" "live n'" "can_interfaces n' = can_interfaces n"
proof -
  let ?f = "\<lambda>(p, st, snapshot). publish_unfiltered p st snapshot"
  let ?xs = "zip (joint_parameters_per_can_interface n ! k) (zip (joint_states_per_can_interface n ! k) snaps)"
  have step: "\<exists>d'. ?f x d = Some d' \<and> room (n\<lparr>diag := d'\<rparr>) = room n"
    if x: "x \<in> set ?xs" and d: "room (n\<lparr>diag := d\<rparr>) = room n" for x d
  proof -
    obtain p st sn where p: "x = (p, st, sn)" by (cases x)
    have i: "unat (msg_idx p) < joint_msg_length n"
      using index_fits [OF assms] x p by (auto dest: set_zip_leftD)
    have "length (unfiltered_velocity d) = joint_msg_length n" "length (unfiltered_position d) = joint_msg_length n"
      using d liveD(5) [OF assms] by (simp_all add: room_def lengths_fit_room Let_def)
    then show ?thesis using i d p by (simp add: publish_unfiltered_def room_def Let_def)
  qed
  have "\<exists>d. each_joint ?f ?xs (diag n) = Some d \<and> room (n\<lparr>diag := d\<rparr>) = room n"
    by (rule each_joint_total) (simp, rule step)
  then obtain d where d: "each_joint ?f ?xs (diag n) = Some d" "room (n\<lparr>diag := d\<rparr>) = room n" by blast
  have "live (n\<lparr>diag := d\<rparr>)"
    by (rule live_kept [OF assms(1)])
      (use d(2) liveD(6) [OF assms] in \<open>simp_all add: stable_def shape_def kept_def good_command_def command_sizes_ok_def\<close>)
  then show thesis using that d(1) by (simp add: unfiltered_stage_def)
qed

lemma transmission_stage_live:
  assumes "live n" and "k < length (can_interfaces n)"
  shows "live (transmission_stage k n)" "can_interfaces (transmission_stage k n) = can_interfaces n"
proof -
  have "length (joint_parameters_per_can_interface n ! k) = length (joint_states_per_can_interface n ! k)"
    using liveD(1) [OF assms] by (auto simp: aligned_def Let_def)
  then have "stable (transmission_stage k n) = stable n"
    by (simp add: stable_def shape_def room_def transmission_stage_def)
  then show "live (transmission_stage k n)"
    by (rule live_kept [OF assms(1)])
      (use liveD(6) [OF assms] in \<open>simp_all add: transmission_stage_def kept_def good_command_def command_sizes_ok_def\<close>)
qed (simp add: transmission_stage_def)

lemma report_joint_total:
  assumes "lengths_fit n" and "unat (msg_idx p) < joint_msg_length n"
  obtains n' where "report_joint E a t p st n = Some n'" "stable n' = stable n" "kept n' = kept n"
    "joint_cmd_ptr n' = joint_cmd_ptr n"
proof -
  have "report_in_range (unat (msg_idx p)) st n"
    using assms by (simp add: report_in_range_def lengths_fit_def Let_def)
  moreover have "stable (report_latencies i a t st m) = stable m" "kept (report_latencies i a t st m) = kept m"
    "joint_cmd_ptr (report_latencies i a t st m) = joint_cmd_ptr m" for i m
    by (simp_all add: report_latencies_def stable_def shape_def room_def kept_def Let_def)
  ultimately show thesis using that
    by (simp add: report_joint_def stable_def shape_def room_def kept_def Let_def)
qed


lemma write_back_live:
  assumes "live n" and k: "k < length (can_interfaces n)"
  obtains n' where "write_back E k t n = Some n'" "live n'" "can_interfaces n' = can_interfaces n"
proof -
  let ?f = "\<lambda>(p, st). report_joint E (cmd_rx_ns n) t p st"
  let ?xs = "zip (joint_parameters_per_can_interface n ! k) (joint_states_per_can_interface n ! k)"
  let ?I = "\<lambda>m. stable m = stable n \<and> kept m = kept n \<and> joint_cmd_ptr m = joint_cmd_ptr n"
  have step: "\<exists>m'. ?f x m = Some m' \<and> ?I m'" if x: "x \<in> set ?xs" and m: "?I m" for x m
  proof -
    obtain p st where p: "x = (p, st)" by (cases x)
    have "joint_msg_length m = joint_msg_length n" "lengths_fit m"
      using stableD [of m n] m liveD(5) [OF assms] by (simp_all add: lengths_fit_room)
    moreover have "unat (msg_idx p) < joint_msg_length n"
      using index_fits [OF assms] x p by (auto dest: set_zip_leftD)
    ultimately show ?thesis using report_joint_total [of m p E "cmd_rx_ns n" t st] m p by (metis case_prod_conv)
  qed
  have "\<exists>m. each_joint ?f ?xs n = Some m \<and> ?I m"
    by (rule each_joint_total) (simp, rule step)
  then obtain m where m: "each_joint ?f ?xs n = Some m" "?I m" by blast
  have "live m"
    by (rule live_kept [OF assms(1)])
      (use m(2) liveD(6) [OF assms] stableD [of m n] in \<open>simp_all add: good_command_def command_sizes_ok_def\<close>)
  then show thesis using that m by (simp add: write_back_def kept_def)
qed

lemma deactivate_live:
  assumes "documented (ev_lifecycle E)" and "live n"
  shows "live (deactivate E n)" "can_interfaces (deactivate E n) = can_interfaces n"
proof -
  have "stable (deactivate E n) = stable n" "kept (deactivate E n) = kept n" "good_command (deactivate E n)"
    using assms by (auto simp: deactivate_eq stable_def shape_def room_def kept_def good_command_def live_def
      command_sizes_ok_def passive_command_def)
  then show "live (deactivate E n)" by (rule live_kept [OF assms(2)])
  show "can_interfaces (deactivate E n) = can_interfaces n" using assms(1) by (simp add: deactivate_eq)
qed

lemma give_up_live:
  assumes "documented (ev_lifecycle E)" and "live n"
  shows "live (give_up E n)" "can_interfaces (give_up E n) = can_interfaces n"
proof -
  have "live (n\<lparr>cleanup_requested := True\<rparr>)"
    by (rule live_kept [OF assms(2)])
      (use assms(2) in \<open>auto simp: stable_def shape_def room_def kept_def good_command_def live_def command_sizes_ok_def\<close>)
  then show "live (give_up E n)" "can_interfaces (give_up E n) = can_interfaces n"
    using deactivate_live [OF assms] by (simp_all add: give_up_def)
qed

lemma count_errors_live:
  assumes "documented (ev_lifecycle E)" and "live n" and "count_errors E k errors n = (go, n')"
  shows "live n'" "can_interfaces n' = can_interfaces n"
proof -
  have "live (n\<lparr>num_can_errors_per_interfaces := (num_can_errors_per_interfaces n)[k := c]\<rparr>)" for c
    by (rule live_kept [OF assms(2)])
      (use assms(2) in \<open>auto simp: stable_def shape_def room_def kept_def good_command_def live_def command_sizes_ok_def\<close>)
  then show "live n'" "can_interfaces n' = can_interfaces n"
    using assms(3) give_up_live [OF assms(1,2)] by (auto simp: count_errors_def Let_def split: if_splits)
qed

lemma check_limits_live:
  assumes "documented (ev_lifecycle E)" and "live n" and "check_limits E k n = (go, n')"
  shows "live n'" "can_interfaces n' = can_interfaces n"
  using assms(2,3) deactivate_live [OF assms(1,2)] by (auto simp: check_limits_def split: if_splits)

lemma cycle_diagnostics_live:
  assumes "live n" and "k < length (can_interfaces n)"
  obtains n' where "cycle_diagnostics k c x drv n = Some n'" "live n'" "can_interfaces n' = can_interfaces n"
proof -
  obtain n' where n': "cycle_diagnostics k c x drv n = Some n'" "stable n' = stable n" "kept n' = kept n"
    "joint_cmd_ptr n' = joint_cmd_ptr n"
    using liveD(2) [OF assms] by (simp add: cycle_diagnostics_def Let_def stable_def shape_def room_def kept_def)
  have "live n'"
    by (rule live_kept [OF assms(1) n'(2,3)])
      (use n'(4) liveD(6) [OF assms] stableD [OF n'(2)] in \<open>simp add: good_command_def command_sizes_ok_def\<close>)
  then show thesis using that n'(1,3) by (simp add: kept_def)
qed

section \<open>The cycle\<close>

lemma process_replies_live:
  assumes "documented (ev_lifecycle E)" and "live n" and k: "k < length (can_interfaces n)"
    and "\<forall>st\<in>set (joint_states_per_can_interface n ! k). communication_status st = SUCCESS \<longrightarrow> \<not> is_nan (st_pos st)"
  obtains n' where "process_replies E c k x drv n = Some n'" "live n'" "can_interfaces n' = can_interfaces n"
proof -
  let ?snaps = "map (\<lambda>st. (st_pos st, st_vel st)) (joint_states_per_can_interface n ! k)"
  obtain n1 where n1: "median_stage k n = Some n1" "live n1" "can_interfaces n1 = can_interfaces n"
    by (rule median_stage_live [OF assms(2-4)])
  have k1: "k < length (can_interfaces n1)" using k n1 by simp
  obtain n2 where n2: "velocity_stage k n1 = Some n2" "live n2" "can_interfaces n2 = can_interfaces n1"
    by (rule velocity_stage_live [OF n1(2) k1])
  have k2: "k < length (can_interfaces n2)" using k1 n2 by simp
  obtain n3 where n3: "unfiltered_stage k ?snaps n2 = Some n3" "live n3" "can_interfaces n3 = can_interfaces n2"
    by (rule unfiltered_stage_live [OF n2(2) k2])
  have k3: "k < length (can_interfaces n3)" using k2 n3 by simp
  define n4 where "n4 = transmission_stage k n3"
  have n4: "live n4" "can_interfaces n4 = can_interfaces n3"
    using transmission_stage_live [OF n3(2) k3] by (simp_all add: n4_def)
  have eq: "process_replies E c k x drv n =
      (if \<not> comm_threads n4 ! k then Some n4
       else case write_back E k (tx_fill_end_ns drv) n4 of None \<Rightarrow> None
        | Some n5 \<Rightarrow> (let (go_on, n6) = check_limits E k n5 in if \<not> go_on then Some n6 else cycle_diagnostics k c x drv n6))"
    using n1(1) n2(1) n3(1) by (simp add: process_replies_def n4_def Let_def)
  show thesis
  proof (cases "comm_threads n4 ! k")
    case False
    then show thesis using that [of n4] eq n4 n3 n2 n1 by simp
  next
    case True
    have k4: "k < length (can_interfaces n4)" using k3 n4 by simp
    obtain n5 where n5: "write_back E k (tx_fill_end_ns drv) n4 = Some n5" "live n5" "can_interfaces n5 = can_interfaces n4"
      by (rule write_back_live [OF n4(1) k4])
    obtain go n6 where n6: "check_limits E k n5 = (go, n6)" by force
    have l6: "live n6" "can_interfaces n6 = can_interfaces n5" by (rule check_limits_live [OF assms(1) n5(2) n6])+
    have k6: "k < length (can_interfaces n6)" using k4 n5 l6 by simp
    obtain n7 where n7: "cycle_diagnostics k c x drv n6 = Some n7" "live n7" "can_interfaces n7 = can_interfaces n6"
      by (rule cycle_diagnostics_live [OF l6(1) k6])
    have "process_replies E c k x drv n = Some (if go then n7 else n6)" using eq True n5 n6 n7 by simp
    then show thesis using that l6 n7 n5 n4 n3 n2 n1 by (cases go) simp_all
  qed
qed

lemma check_status_states:
  assumes "documented (ev_lifecycle E)"
  shows "joint_states_per_can_interface (snd (check_status E sts n)) = joint_states_per_can_interface n"
    "joint_states_per_can_interface (snd (count_errors E k e n)) = joint_states_per_can_interface n"
  using assms by (simp_all add: check_status_spec deactivate_eq count_errors_def give_up_def Let_def)

lemma after_exchange_live:
  assumes "documented (ev_lifecycle E)" and "live n" and k: "k < length (can_interfaces n)"
    and "\<forall>st\<in>set (joint_states_per_can_interface n ! k). communication_status st = SUCCESS \<longrightarrow> \<not> is_nan (st_pos st)"
  obtains n' where "after_exchange E c k x drv n = Some n'" "live n'" "can_interfaces n' = can_interfaces n"
proof -
  obtain errors n1 where n1: "check_status E (joint_states_per_can_interface n ! k) n = (errors, n1)" by force
  have l1: "live n1" "can_interfaces n1 = can_interfaces n"
    using n1 check_status_spec [OF assms(1)] deactivate_live [OF assms(1,2)] assms(2) by (auto split: if_splits)
  obtain go n2 where n2: "count_errors E k errors n1 = (go, n2)" by force
  have l2: "live n2" "can_interfaces n2 = can_interfaces n1" by (rule count_errors_live [OF assms(1) l1(1) n2])+
  have "joint_states_per_can_interface n2 = joint_states_per_can_interface n"
    using check_status_states [OF assms(1)] n1 n2 by (metis snd_conv)
  then obtain n3 where n3: "process_replies E c k x drv n2 = Some n3" "live n3" "can_interfaces n3 = can_interfaces n2"
    using process_replies_live [OF assms(1) l2(1), of k c x drv] k l1 l2 assms(4) by metis
  have "after_exchange E c k x drv n = Some (if go then n3 else n2)"
    using n1 n2 n3 by (simp add: after_exchange_def)
  then show thesis using that l1 l2 n3 by (cases go) simp_all
qed

lemma cycle_commands_total:
  assumes "live n" and "k < length (can_interfaces n)" and "joint_cmd_ptr n = Some cmd"
  obtains cmds where
    "those (map (cycle_command E n k cmd) [0..<length (joint_commands_per_can_interface n ! k)]) = Some cmds"
    "length cmds = length (joint_commands_per_can_interface n ! k)"
proof -
  have "cycle_command E n k cmd i \<noteq> None" if "i < length (joint_commands_per_can_interface n ! k)" for i
  proof -
    let ?p = "joint_parameters_per_can_interface n ! k ! i"
    have i: "i < length (joint_parameters_per_can_interface n ! k)" "i < length (joint_states_per_can_interface n ! k)"
      using liveD(1) [OF assms(1,2)] that by (auto simp: aligned_def Let_def)
    then have "unat (msg_idx ?p) < joint_msg_length n" using index_fits [OF assms(1,2)] by simp
    moreover have "command_sizes_ok n cmd" using liveD(6) [OF assms(1,2)] assms(3) by (simp add: good_command_def)
    ultimately have "message_command cmd ?p \<noteq> None" by (simp add: message_command_def command_sizes_ok_def Let_def)
    then show ?thesis using i by (auto simp: cycle_command_def Let_def)
  qed
  then show thesis
    using that those_map_the [of "[0..<length (joint_commands_per_can_interface n ! k)]" "cycle_command E n k cmd"] by simp
qed

lemma exchanged_live:
  assumes "live n" and k: "k < length (can_interfaces n)" and "driver_ok drv" and "list_all config_ok (joint_configs drv)"
    and "length (joint_configs drv) = length (joint_commands_per_can_interface n ! k)"
    and "length cmds = length (joint_commands_per_can_interface n ! k)"
  shows "live (exchanged c k cmds drv n)" "length (can_interfaces (exchanged c k cmds drv n)) = length (can_interfaces n)"
    "length states = length (joint_commands_per_can_interface n ! k) \<Longrightarrow> live (with_states k states (exchanged c k cmds drv n))"
proof -
  let ?n = "exchanged c k cmds drv n"
  note l = liveD [OF assms(1) k]
  have st: "stable ?n = stable n" using assms(6) by (simp add: exchanged_def stable_def shape_def room_def)
  show live: "live ?n"
  proof (rule live_intro [OF assms(1) st])
    show "good_command ?n" using l(6) by (simp add: good_command_def exchanged_def command_sizes_ok_def)
  next
    fix j assume j: "j < length (can_interfaces n)"
    note lj = liveD [OF assms(1) j]
    have "k < length (joint_commands_per_can_interface n)" using l(1) by (simp add: aligned_def)
    then have "good_driver j ?n"
      using lj(3) assms(3-6) k by (cases "j = k") (simp_all add: good_driver_def exchanged_def)
    then show "good_driver j ?n \<and> good_filters j ?n" using lj(4) by (simp add: good_filters_def exchanged_def)
  qed
  show "length (can_interfaces ?n) = length (can_interfaces n)" by (simp add: exchanged_def)
  assume s: "length states = length (joint_commands_per_can_interface n ! k)"
  have "length (joint_states_per_can_interface ?n ! k) = length (joint_commands_per_can_interface n ! k)"
    using l(1) by (simp add: exchanged_def aligned_def Let_def)
  then have "stable (with_states k states ?n) = stable ?n"
    using s by (simp add: with_states_def stable_def shape_def room_def)
  then show "live (with_states k states ?n)"
    by (rule live_kept [OF live])
      (use live in \<open>simp_all add: with_states_def kept_def live_def good_command_def command_sizes_ok_def\<close>)
qed

lemma cycle_answered:
  assumes "current_state n = ACTIVE \<or> current_state n = INACTIVE" and "aligned k n" and "comm_threads n ! k"
    and "joint_cmd_ptr n = Some cmd"
    and "those (map (cycle_command E n k cmd) [0..<length (joint_commands_per_can_interface n ! k)]) = Some cmds"
    and "can_interfaces n ! k = Some drv"
    and "send_and_receive cmds (joint_states_per_can_interface n ! k) drv = (Ok states, drv')"
  obtains x where "can_cycle_callback E c k n = after_exchange E c k x drv' (with_states k states (exchanged c k cmds drv' n))"
proof -
  have "can_cycle_callback E c k n =
      after_exchange E c k (fp_div b64 (Fin 1) (seconds_between (last_can_cycle_times n ! k) (ros_now_ns c))) drv'
        (with_states k states (exchanged c k cmds drv' n))"
    using assms(1)
    by (rule disjE) (use assms(2-7) in \<open>simp_all add: can_cycle_callback_def exchange_def cycle_command_stamp
      exchanged_def with_states_def Let_def\<close>)
  then show thesis by (rule that)
qed

lemma cycle_live:
  assumes "documented (ev_lifecycle E)" and "live n" and k: "k < length (can_interfaces n)"
  shows "\<exists>n'. can_cycle_callback E c k n = Some n' \<and> live n' \<and> length (can_interfaces n') = length (can_interfaces n)"
proof -
  note l = liveD [OF assms(2) k]
  show ?thesis
  proof (cases "(current_state n = ACTIVE \<or> current_state n = INACTIVE) \<and> comm_threads n ! k \<and> joint_cmd_ptr n \<noteq> None")
    case False
    have "live (n\<lparr>last_can_cycle_times := (last_can_cycle_times n)[k := t]\<rparr>)" for t
      by (rule live_kept [OF assms(2)])
        (use l(6) in \<open>simp_all add: stable_def shape_def room_def kept_def good_command_def command_sizes_ok_def\<close>)
    then show ?thesis using False l(1) assms(2)
      by (cases "joint_cmd_ptr n") (auto simp: can_cycle_callback_def Let_def)
  next
    case True
    then obtain cmd where cmd: "joint_cmd_ptr n = Some cmd" by blast
    obtain cmds where cmds:
      "those (map (cycle_command E n k cmd) [0..<length (joint_commands_per_can_interface n ! k)]) = Some cmds"
      "length cmds = length (joint_commands_per_can_interface n ! k)"
      by (rule cycle_commands_total [OF assms(2) k cmd])
    obtain drv where drv: "can_interfaces n ! k = Some drv" "driver_ok drv" "list_all config_ok (joint_configs drv)"
      "length (joint_configs drv) = length (joint_commands_per_can_interface n ! k)"
      using l(3) by (auto simp: good_driver_def)
    have sizes: "length cmds = length (joint_configs drv)"
      "length (joint_states_per_can_interface n ! k) = length (joint_configs drv)"
      using cmds(2) drv(4) l(1) by (simp_all add: aligned_def Let_def)
    obtain states drv' where x:
      "send_and_receive cmds (joint_states_per_can_interface n ! k) drv = (Ok states, drv')"
      "length states = length (joint_states_per_can_interface n ! k)" "driver_ok drv'" "joint_configs drv' = joint_configs drv"
      using cycle_refines [OF drv(2,3) sizes(1), of "joint_states_per_can_interface n ! k"] sizes(2) by (metis order_refl)
    have len: "length states = length (joint_configs drv)" using x(2) sizes by simp
    have num: "\<forall>st\<in>set states. communication_status st = SUCCESS \<longrightarrow> \<not> is_nan (st_pos st)"
      using reported_position [OF drv(2,3) sizes x(1)] len by (metis in_set_conv_nth)
    let ?m = "with_states k states (exchanged c k cmds drv' n)"
    have "length (joint_configs drv') = length (joint_commands_per_can_interface n ! k)"
      "list_all config_ok (joint_configs drv')"
      using drv(3,4) x(4) by simp_all
    note e = exchanged_live [OF assms(2) k x(3) this(2,1) cmds(2), where c = c]
    have lm: "live ?m" using e(3) len drv(4) by simp
    have km: "k < length (can_interfaces ?m)" using e(2) k by (simp add: with_states_def)
    have "k < length (joint_states_per_can_interface n)" using l(1) by (simp add: aligned_def)
    then have num': "\<forall>st\<in>set (joint_states_per_can_interface ?m ! k).
        communication_status st = SUCCESS \<longrightarrow> \<not> is_nan (st_pos st)"
      using num by (simp add: with_states_def exchanged_def)
    obtain y where y: "can_cycle_callback E c k n = after_exchange E c k y drv' ?m"
      using cycle_answered [OF _ l(1) _ cmd cmds(1) drv(1) x(1)] True by metis
    obtain n' where "after_exchange E c k y drv' ?m = Some n'" "live n'" "can_interfaces n' = can_interfaces ?m"
      by (rule after_exchange_live [OF assms(1) lm km num'])
    then show ?thesis using y e(2) by (simp add: with_states_def)
  qed
qed

lemma comm_loop_live:
  assumes "documented (ev_lifecycle E)" and "live n" and "k < length (can_interfaces n)"
  shows "\<exists>n'. comm_loop E k cs n = Some n' \<and> live n' \<and> length (can_interfaces n') = length (can_interfaces n)"
  using assms(2,3)
proof (induction cs arbitrary: n)
  case (Cons c cs)
  obtain m where "can_cycle_callback E c k n = Some m" "live m" "length (can_interfaces m) = length (can_interfaces n)"
    using cycle_live [OF assms(1) Cons.prems] by blast
  then show ?case using Cons.IH [of m] Cons.prems by auto
qed simp



lemma demo_node_live: "live (demo_node s q)"
proof -
  have v: "joint_commands_per_can_interface (demo_node s q) = [[blank_cmd]]" "can_interfaces (demo_node s q) =
      [Some (demo_driver [demo_motor 1 V2] q)]" "joint_parameters_per_can_interface (demo_node s q) = [[demo_parameters 0 ''hip'']]"
    "joint_vel_filters_per_can_interface (demo_node s q) = [[MovingAverage double_num 0]]"
    "joint_pos_median_filters_per_can_interface (demo_node s q) = [[MedianFilter double_num 0]]"
    "length (comm_threads (demo_node s q)) = 1" "joint_msg_length (demo_node s q) = 1" "joint_cmd_ptr (demo_node s q) = Some (passive_command 1 (Fin 0))"
    by (simp_all add: demo_node_def blank_cmd_def)
  have p: "msg_idx (demo_parameters i x) = i" "vel_filter_size (demo_parameters i x) = 0" for i x
    by (simp_all add: demo_parameters_def)
  have a: "aligned 0 (demo_node s q)" by (simp add: aligned_def demo_node_def)
  have "lengths_fit (demo_node s q)" "diagnostics_fit 0 (demo_node s q)"
    by (simp_all add: lengths_fit_def diagnostics_fit_def demo_node_def blank_diagnostics_def)
  moreover have "good_command (demo_node s q)"
    by (simp add: good_command_def command_sizes_ok_def v passive_command_def)
  moreover have "good_indices (demo_node s q)" by (simp add: good_indices_def v p)
  moreover have "good_driver 0 (demo_node s q)"
    by (simp add: good_driver_def v demo_driver_ok demo_driver_simps demo_pair_facts)
  moreover have "good_filters 0 (demo_node s q)"
    by (simp add: good_filters_def v p clean_def ma_safe_def MovingAverage_def MedianFilter_def)
  moreover have "joints_even (demo_node s q)" by (simp add: joints_even_def shape_def demo_node_def)
  ultimately show ?thesis using a by (simp add: live_def v)
qed

section \<open>Properties\<close>

text \<open>
  C14. A communication thread never runs into undefined behaviour and never stops by itself: from a
  node whose interfaces fit together, every number of cycles ends, whatever the bus delivers or
  refuses, whatever the clocks show and whatever the filters are fed with, and the interfaces still
  fit together after it.
\<close>

theorem communication_thread_never_stuck:
  assumes "documented (ev_lifecycle E)" and "live n" and "k < length (can_interfaces n)"
  shows "\<exists>n'. comm_loop E k cs n = Some n' \<and> live n'"
  using comm_loop_live [OF assms] by blast

theorem communication_thread_never_stuck_witness:
  "\<exists>n'. comm_loop demo_env 0 [\<lparr>ros_now_ns = 1, cycle_entry_ns = 1, cycle_end_ns = 2\<rparr>, \<lparr>ros_now_ns = 3, cycle_entry_ns = 3, cycle_end_ns = 4\<rparr>]
      (demo_node ACTIVE [Rx_Fail 11, reply_v2 1 0]) = Some n' \<and> live n'"
  by (rule communication_thread_never_stuck [OF demo_env_documented demo_node_live]) (simp add: demo_node_def)

text \<open>
  C8. An active node keeps its joints inside their limits: a cycle of a running interface that
  leaves the node active has reported, for every joint of the interface, a position that is neither
  below the lower limit nor above the upper one (a position or limit that is no number counts as
  inside). A cycle that reports a violation leaves the node inactive, with the default damping.
\<close>

theorem active_cycle_respects_limits:
  assumes "documented (ev_lifecycle E)" and "can_cycle_callback E c k n = Some n'"
    and "current_state n = ACTIVE" and "comm_threads n ! k" and "joint_cmd_ptr n \<noteq> None"
  shows "if \<exists>p\<in>set (joint_parameters_per_can_interface n' ! k).
      fp_lt (js_position (joint_state_msg n') ! unat (msg_idx p)) (pos_limit_min p) \<or>
      fp_lt (pos_limit_max p) (js_position (joint_state_msg n') ! unat (msg_idx p))
    then current_state n' = INACTIVE \<and>
      joint_cmd_ptr n' = Some (passive_command (joint_msg_length n) (default_damping_KD n))
    else current_state n' \<in> {ACTIVE, INACTIVE}"
proof -
  have f: "falls_back E n n'" by (rule cycle_falls_back [OF assms(1,2)])
  then have states: "current_state n' = ACTIVE \<or> current_state n' = INACTIVE \<and>
      joint_cmd_ptr n' = Some (passive_command (joint_msg_length n) (default_damping_KD n))"
    using assms(1,3) by (auto simp: falls_back_def control_def deactivate_eq)
  have "\<not> violates_limits k n'" if "current_state n' = ACTIVE"
    using assms(2)
  proof (cases rule: cycle_cases)
    case failed
    then show ?thesis using give_up_not_active [OF assms(1)] that by blast
  next
    case (answered cmd cmds drv states drv' frequency)
    let ?n = "with_states k states (exchanged c k cmds drv' n)"
    obtain errors n1 where n1: "check_status E (joint_states_per_can_interface ?n ! k) ?n = (errors, n1)" by force
    obtain go n2 where n2: "count_errors E k errors n1 = (go, n2)" by force
    have "wiring n1 = wiring ?n"
      using n1 check_status_spec [OF assms(1)] deactivate_wiring [OF assms(1)] by (auto split: if_splits)
    then have w: "wiring n2 = wiring n"
      using n2 count_errors_wiring [OF assms(1), of k errors n1] by (simp add: frame_facts)
    show ?thesis
    proof (cases go)
      case False
      then have "n' = n2" using answered(7) n1 n2 by (simp add: after_exchange_def)
      moreover have "n2 = give_up E n1" using n2 False by (auto simp: count_errors_def Let_def split: if_splits)
      ultimately show ?thesis using give_up_not_active [OF assms(1)] that by blast
    next
      case True
      then have "process_replies E c k frequency drv' n2 = Some n'" using answered(7) n1 n2 by (simp add: after_exchange_def)
      then show ?thesis using process_replies_limits [OF assms(1)] w assms(4) that by (simp add: wiring_def)
    qed
  qed (use assms in auto)
  then show ?thesis using states by (auto simp: violates_limits_def Let_def)
qed

theorem active_cycle_respects_limits_witness:
  "\<exists>c n'. can_cycle_callback demo_env c 0 (demo_node ACTIVE [reply_v2 1 0]) = Some n' \<and>
    (if \<exists>p\<in>set (joint_parameters_per_can_interface n' ! 0).
      fp_lt (js_position (joint_state_msg n') ! unat (msg_idx p)) (pos_limit_min p) \<or>
      fp_lt (pos_limit_max p) (js_position (joint_state_msg n') ! unat (msg_idx p))
    then current_state n' = INACTIVE \<and> joint_cmd_ptr n' = Some (passive_command 1 (Fin 1))
    else current_state n' \<in> {ACTIVE, INACTIVE})"
proof -
  let ?n = "demo_node ACTIVE [reply_v2 1 0]" and ?c = "\<lparr>ros_now_ns = 1, cycle_entry_ns = 1, cycle_end_ns = 2\<rparr>"
  have n: "current_state ?n = ACTIVE" "comm_threads ?n ! 0" "joint_cmd_ptr ?n \<noteq> None" "0 < length (can_interfaces ?n)"
    "joint_msg_length ?n = 1" "default_damping_KD ?n = Fin 1"
    by (simp_all add: demo_node_def)
  obtain n' where n': "can_cycle_callback demo_env ?c 0 ?n = Some n'"
    using cycle_live [OF demo_env_documented demo_node_live n(4)] by blast
  from active_cycle_respects_limits [OF demo_env_documented n' n(1-3)] n(5,6) n' show ?thesis by metis
qed

end
