(* ===== verification/NodeProgress.thy ===== *)
theory NodeProgress
  imports NodeLive
begin

text \<open>
  No sequence of events leads the node into undefined behaviour of a cycle: what every callback
  keeps of the invariant of the interfaces, from the first configuration on, failed configurations,
  changes of parameters and calibrations included.
\<close>

section \<open>The vectors of the joints\<close>

definition filters_good :: "node \<Rightarrow> bool" where
  "filters_good n \<longleftrightarrow> (\<forall>k<length (joint_parameters_per_can_interface n). good_filters k n)"

lemma map_length_eqD:
  "map length xs = map length ys \<Longrightarrow> length xs = length ys"
  "map length xs = map length ys \<Longrightarrow> k < length ys \<Longrightarrow> length (xs ! k) = length (ys ! k)"
  by (metis length_map) (metis length_map nth_map)

lemma joints_even_at:
  assumes "joints_even n" and k: "k < length (joint_parameters_per_can_interface n)"
  shows "list_all (\<lambda>m. m = length (joint_parameters_per_can_interface n ! k))
    [length (joint_commands_per_can_interface n ! k), length (joint_states_per_can_interface n ! k),
     length (joint_vel_filters_per_can_interface n ! k), length (joint_ab_filters_per_can_interface n ! k),
     length (joint_pos_median_filters_per_can_interface n ! k), length (last_joint_rx_ns_per_can_interface n ! k)]"
    "list_all (\<lambda>m. m = length (joint_parameters_per_can_interface n))
    [length (joint_commands_per_can_interface n), length (joint_states_per_can_interface n),
     length (joint_vel_filters_per_can_interface n), length (joint_ab_filters_per_can_interface n),
     length (joint_pos_median_filters_per_can_interface n), length (last_joint_rx_ns_per_can_interface n)]"
proof -
  have e: "map length (joint_commands_per_can_interface n) = map length (joint_parameters_per_can_interface n)"
    "map length (joint_states_per_can_interface n) = map length (joint_parameters_per_can_interface n)"
    "map length (joint_vel_filters_per_can_interface n) = map length (joint_parameters_per_can_interface n)"
    "map length (joint_ab_filters_per_can_interface n) = map length (joint_parameters_per_can_interface n)"
    "map length (joint_pos_median_filters_per_can_interface n) = map length (joint_parameters_per_can_interface n)"
    "map length (last_joint_rx_ns_per_can_interface n) = map length (joint_parameters_per_can_interface n)"
    using assms(1) by (simp_all add: joints_even_def shape_def)
  show "list_all (\<lambda>m. m = length (joint_parameters_per_can_interface n ! k))
    [length (joint_commands_per_can_interface n ! k), length (joint_states_per_can_interface n ! k),
     length (joint_vel_filters_per_can_interface n ! k), length (joint_ab_filters_per_can_interface n ! k),
     length (joint_pos_median_filters_per_can_interface n ! k), length (last_joint_rx_ns_per_can_interface n ! k)]"
    using e [THEN map_length_eqD(2), OF k] by simp
  show "list_all (\<lambda>m. m = length (joint_parameters_per_can_interface n))
    [length (joint_commands_per_can_interface n), length (joint_states_per_can_interface n),
     length (joint_vel_filters_per_can_interface n), length (joint_ab_filters_per_can_interface n),
     length (joint_pos_median_filters_per_can_interface n), length (last_joint_rx_ns_per_can_interface n)]"
    using e [THEN map_length_eqD(1)] by simp
qed

lemma map_length_push_at: "map length (push_at k x xss) = (map length xss)[k := Suc (map length xss ! k)]"
  by (cases "k < length xss") (simp_all add: push_at_def map_update list_update_beyond)

lemma add_joint_even: "joints_even (snd acc) \<Longrightarrow> joints_even (snd (add_joint su acc))"
  by (cases acc) (simp add: joints_even_def shape_def add_joint_def map_length_push_at Let_def)

lemma fresh_filters:
  "ma_safe (MovingAverage N m)" "ma_buffersize (MovingAverage N m) = m" "clean (MedianFilter double_num m)"
  by (simp_all add: ma_safe_def MovingAverage_def clean_def MedianFilter_def med_ok_def med_recent_def double_num_def list_all_iff)

lemma add_joint_filters:
  assumes "joints_even (snd acc)" and "filters_good (snd acc)"
  shows "filters_good (snd (add_joint su acc))"
proof -
  obtain cfgs n where acc: "acc = (cfgs, n)" by force
  have a: "joints_even n" "filters_good n" using assms acc by simp_all
  have "good_filters k (snd (add_joint su (cfgs, n)))"
    if "k < length (joint_parameters_per_can_interface (snd (add_joint su (cfgs, n))))" for k
  proof -
    have k: "k < length (joint_parameters_per_can_interface n)" using that by (simp add: add_joint_def Let_def)
    note e = joints_even_at [OF a(1) k]
    have "good_filters k n" using a(2) k by (simp add: filters_good_def)
    then show ?thesis
      using k e by (cases "k = su_interface su")
        (auto simp: good_filters_def add_joint_def nth_push_at nth_append fresh_filters less_Suc_eq Let_def)
  qed
  then show ?thesis by (simp add: filters_good_def acc)
qed

text \<open>What the loop over the joints keeps, also when it stops at a joint.\<close>

lemma add_joints_good:
  assumes "joints_even (snd acc)" and "filters_good (snd acc)"
  shows "add_joints P names ijs acc = Inl (c, n') \<Longrightarrow> joints_even n' \<and> filters_good n' \<and> comm_threads n' = comm_threads (snd acc)"
    "add_joints P names ijs acc = Inr acc' \<Longrightarrow> joints_even (snd acc') \<and> filters_good (snd acc')"
  using assms
proof (induction ijs arbitrary: acc)
  case (Cons ij ijs)
  { case 1
    show ?case
    proof (cases "read_joint P names ij")
      case (Inr su)
      have "comm_threads (snd (add_joint su acc)) = comm_threads (snd acc)"
        by (cases acc) (simp add: add_joint_def Let_def)
      then show ?thesis using 1 Cons.IH(1) [of "add_joint su acc"] Inr add_joint_even [OF 1(2)] add_joint_filters [OF 1(2,3)]
        by simp
    qed (use 1 in auto)
  next
    case 2
    then show ?case using Cons.IH(2) add_joint_even [OF 2(2)] add_joint_filters [OF 2(2,3)]
      by (auto split: sum.splits) }
qed auto

lemma map_length_resize: "map length (Node.resize k [] xss) = Node.resize k 0 (map length xss)"
  by (simp add: resize_def take_map)

lemma size_vectors_good:
  assumes "joints_even n" and "filters_good n"
  shows "joints_even (size_vectors now m k len n)" "filters_good (size_vectors now m k len n)"
proof -
  show "joints_even (size_vectors now m k len n)"
    using assms(1) by (simp add: joints_even_def shape_def size_vectors_def map_length_resize)
  show "filters_good (size_vectors now m k len n)" unfolding filters_good_def
  proof (intro allI impI)
    fix i assume i: "i < length (joint_parameters_per_can_interface (size_vectors now m k len n))"
    then have "i < k" by (simp add: size_vectors_def)
    then show "good_filters i (size_vectors now m k len n)"
    proof (cases "i < length (joint_parameters_per_can_interface n)")
      case True
      then have "good_filters i n" using assms(2) by (simp add: filters_good_def)
      then show ?thesis using \<open>i < k\<close> True joints_even_at(2) [OF assms(1) True]
        by (simp add: good_filters_def size_vectors_def resize_def nth_append)
    next
      case False
      then show ?thesis using \<open>i < k\<close> by (simp add: good_filters_def size_vectors_def resize_def nth_append)
    qed
  qed
qed

lemma good_data:
  "joint_data n' = joint_data n \<Longrightarrow> joints_even n' = joints_even n \<and> filters_good n' = filters_good n"
  by (simp add: joint_data_def joints_even_def shape_def filters_good_def good_filters_def)

lemma no_joints_good: "no_joints n \<Longrightarrow> joints_even n \<and> filters_good n"
  by (simp add: no_joints_def joint_data_def joints_even_def shape_def filters_good_def)

section \<open>The drivers\<close>

definition driver_fine :: "driver option \<Rightarrow> bool" where
  "driver_fine r \<longleftrightarrow> (\<forall>d. r = Some d \<longrightarrow> driver_ok d)"

lemma driver_fine_simps [simp]: "driver_fine None" "driver_fine (Some d) = driver_ok d"
  by (simp_all add: driver_fine_def)

lemma setup_driver_ok: "keeps_setup f \<Longrightarrow> driver_ok d \<Longrightarrow> driver_ok (snd (f d))"
  unfolding keeps_setup_def same_setup_def driver_ok_def by metis

lemma can_call_fine:
  assumes "keeps_setup f" and "list_all driver_fine (can_interfaces n)"
  shows "list_all driver_fine (can_interfaces (snd (can_call i f n)))"
proof (cases "can_interfaces n ! i")
  case None
  then show ?thesis using assms(2) by (simp add: can_call_def)
next
  case (Some d)
  show ?thesis
  proof (cases "i < length (can_interfaces n)")
    case True
    then have "driver_ok d" using assms(2) Some by (metis driver_fine_simps(2) list_all_length)
    then show ?thesis using assms Some True setup_driver_ok [OF assms(1)]
      by (auto simp: can_call_def split_beta list_all_length nth_list_update)
  qed (use assms(2) Some in \<open>simp add: can_call_def split_beta list_update_beyond\<close>)
qed

lemma each_caught_fine:
  assumes "\<And>ij. keeps_setup (f ij)"
  shows "list_all driver_fine (can_interfaces n) \<Longrightarrow> list_all driver_fine (can_interfaces (snd (each_caught f ijs n)))"
  by (induction ijs arbitrary: n) (simp_all add: split_beta can_call_fine assms)

lemma start_motors_fine:
  assumes "start_motors cfgs n = Some (LC_SUCCESS, n')" and "list_all driver_fine (can_interfaces n)"
  shows "list_all driver_fine (can_interfaces n')"
proof -
  let ?n = "n\<lparr>publish_timer := True, joint_cmd_sub := True\<rparr>"
  obtain failure m where e: "enable_motors ?n = (failure, m)" by force
  have f: "n' = start_threads (m\<lparr>on_set_parameters_handle := True, supervisor_timer := True\<rparr>)"
    using assms(1) e by (auto simp: start_motors_def roll_back_def Let_def split: if_splits)
  have "list_all driver_fine (can_interfaces (snd (enable_motors ?n)))"
    unfolding enable_motors_def by (rule each_caught_fine) (use assms(2) setup_start in \<open>auto simp: split_beta\<close>)
  then have "list_all driver_fine (can_interfaces m)" using e by simp
  moreover have "can_interfaces (fold start_comm_thread ks l) = can_interfaces l" for ks l
    using fold_start_threads [of ks l] by auto
  ultimately show ?thesis by (simp add: f start_threads_def)
qed

lemma constructed_driver_ok:
  "fst (CubemarsCan ret s name lb cfgs sec usec trials tx errf) = Ok d \<Longrightarrow> driver_ok d"
  by (auto simp: CubemarsCan_def initial_driver_def driver_ok_def ready_def split: if_splits prod.splits bool.splits)

lemma open_interfaces_fine:
  assumes "open_interfaces sys P cfgs ks n = Some (Inr n')" and "\<forall>i\<in>S. i < length (can_interfaces n) \<longrightarrow> driver_fine (can_interfaces n ! i)"
  shows "\<forall>i\<in>S \<union> fst ` set ks. i < length (can_interfaces n') \<longrightarrow> driver_fine (can_interfaces n' ! i)"
  using assms
proof (induction ks arbitrary: n S)
  case (Cons kn ks)
  obtain k name where kn: "kn = (k, name)" by force
  obtain loopback sec usec trials where st: "interface_settings P = Some (loopback, sec, usec, trials)"
    using Cons.prems(1) by (auto simp: kn split: option.splits)
  let ?c = "CubemarsCan (fst (sys name)) (snd (sys name)) name (of_bool loopback) (cfgs ! k) sec usec
        (to_unsigned trials) (node_tx_timestamping n) (node_error_frames n)"
  obtain drv where drv: "fst ?c = Ok drv"
    using Cons.prems(1) by (cases "fst ?c") (auto simp: kn st)
  let ?n = "n\<lparr>can_interfaces := (can_interfaces n)[k := Some drv]\<rparr>"
  have "open_interfaces sys P cfgs ks ?n = Some (Inr n')" using Cons.prems(1) drv by (simp add: kn st)
  moreover have "\<forall>i\<in>insert k S. i < length (can_interfaces ?n) \<longrightarrow> driver_fine (can_interfaces ?n ! i)"
    using Cons.prems(2) constructed_driver_ok [OF drv] by (auto simp: nth_list_update_if)
  ultimately have "\<forall>i\<in>insert k S \<union> fst ` set ks. i < length (can_interfaces n') \<longrightarrow> driver_fine (can_interfaces n' ! i)"
    by (rule Cons.IH)
  then show ?case by (simp add: kn)
qed auto

lemma read_joint_config_ok: "read_joint P names ij = Inr su \<Longrightarrow> config_ok (su_config su)"
proof -
  assume r: "read_joint P names ij = Inr su"
  then obtain nm cfg c i where "map_of joint_config_per_motor_type nm = Some cfg" "su_config su = cfg\<lparr>can_id := c, invert := i\<rparr>"
    unfolding read_joint_def Let_def by (auto simp: andThen_Inr need_Inr split: option.splits if_splits)
  then show ?thesis using motor_table_ok [OF map_of_SomeD] by (fastforce simp: config_ok_def)
qed

section \<open>A configured node is live\<close>

lemma sized_fit:
  "lengths_fit (size_vectors now m k len n)" "good_command (size_vectors now m k len n)"
  "i < k \<Longrightarrow> diagnostics_fit i (size_vectors now m k len n)"
  "length (can_interfaces (size_vectors now m k len n)) = k" "length (comm_threads (size_vectors now m k len n)) = k"
  "joint_msg_length (size_vectors now m k len n) = len" "length (num_can_errors_per_interfaces (size_vectors now m k len n)) = k"
  "length (last_can_cycle_times (size_vectors now m k len n)) = k"
  "length (joint_parameters_per_can_interface (size_vectors now m k len n)) = k"
  by (simp_all add: size_vectors_def lengths_fit_def good_command_def command_sizes_ok_def passive_command_def
    diagnostics_fit_def Let_def)

lemma sizes_fit:
  assumes "sizes n' = sizes n"
  shows "lengths_fit n' = lengths_fit n" "good_command n' = good_command n" "joint_msg_length n' = joint_msg_length n"
    "length (num_can_errors_per_interfaces n') = length (num_can_errors_per_interfaces n)"
    "length (last_can_cycle_times n') = length (last_can_cycle_times n)"
  using assms by (simp_all add: sizes_def lengths_fit_def good_command_def command_sizes_ok_def)

lemma validated_indices:
  assumes "validate_joints P ijs nothing_seen = Inr v" and "\<forall>ij\<in>set ijs. index_of P ij < 2 ^ 32 - 1"
    and "list_all2 (\<lambda>ij su. read_joint P names ij = Inr su) ijs sus" and "su \<in> set sus"
  shows "unat (msg_idx (su_parameters su)) < unat (max_msg_idx v + 1)"
proof -
  have small32: "\<forall>ij\<in>set ijs. index_of P ij < 2 ^ 32" using assms(2) by force
  have f: "\<forall>ij\<in>set ijs. 0 \<le> index_of P ij \<and> index_of P ij \<le> uint (max_msg_idx v)"
    "uint (max_msg_idx v) = 0 \<or> (\<exists>ij\<in>set ijs. uint (max_msg_idx v) = index_of P ij)"
    using validate_joints_facts [OF assms(1) _ _ small32] by (simp_all add: nothing_seen_def)
  have "uint (max_msg_idx v) < 2 ^ 32 - 1" using f(2) assms(2) by auto
  then have "int (unat (max_msg_idx v)) < 4294967295" by simp
  then have "unat (max_msg_idx v) < 4294967295" by linarith
  then have "unat (max_msg_idx v) + 1 < 2 ^ LENGTH(32)" by simp
  then have len: "unat (max_msg_idx v + 1) = unat (max_msg_idx v) + 1" by (simp add: unat_word_ariths(1))
  obtain ij where ij: "ij \<in> set ijs" "read_joint P names ij = Inr su"
    using list_all2_source [OF assms(3,4)] by blast
  have "uint (to_unsigned (index_of P ij)) = index_of P ij"
    using f(1) small32 ij(1) by (simp add: to_unsigned_def uint_word_of_int)
  then have "uint (msg_idx (su_parameters su)) \<le> uint (max_msg_idx v)"
    using f(1) ij read_joint_facts [OF ij(2)] by simp
  then have "unat (msg_idx (su_parameters su)) \<le> unat (max_msg_idx v)" by (metis nat_mono nat_uint_eq)
  then show ?thesis by (simp add: len)
qed

lemma configured_live:
  assumes "on_configure sys P now n = Some (LC_SUCCESS, n')" and "joints_even n" and "filters_good n" and "small_indices P"
  shows "live n'"
proof -
  from assms(1) obtain js m v cfgs m1 m2 where
    g: "read_globals P n = Inr (js, m)" and
    v: "validate_joints P (zip [0..<length js] js) nothing_seen = Inr v" and
    a: "add_joints P (interface_names v) (zip [0..<length js] js) (replicate (length (interface_names v)) [],
         size_vectors now (length js) (length (interface_names v)) (unat (max_msg_idx v + 1)) m) = Inr (cfgs, m1)" and
    i: "open_interfaces sys P cfgs (zip [0..<length (interface_names v)] (interface_names v)) m1 = Some (Inr m2)" and
    s: "start_motors cfgs m2 = Some (LC_SUCCESS, n')"
    by (cases rule: on_configure_cases) auto
  define ijs names K where "ijs = zip [0..<length js] js" and "names = interface_names v" and "K = length names"
  define n0 where "n0 = size_vectors now (length js) K (unat (max_msg_idx v + 1)) m"
  note a = a [folded ijs_def names_def, folded K_def, folded n0_def]
  have jm: "joint_data m = joint_data n" "P ''joints'' = Some (PStringArray js)" using read_globals_joints [OF g] by simp_all
  have n0: "joints_even n0" "filters_good n0"
    using size_vectors_good good_data [OF jm(1)] assms(2,3) by (simp_all add: n0_def)
  note sf = sized_fit [where now = now and m = "length js" and k = K and len = "unat (max_msg_idx v + 1)" and n = m, folded n0_def]
  have idx: "\<forall>ij\<in>set ijs. index_of P ij < 2 ^ 32 - 1"
    using assms(4) jm(2) by (auto simp: small_indices_def ijs_def set_zip)
  obtain sus where sus: "list_all2 (\<lambda>ij su. read_joint P names ij = Inr su) ijs sus"
    "(cfgs, m1) = fold add_joint sus (replicate K [], n0)"
    using add_joints_fold [OF a] by blast
  have m1: "joints_even m1" "filters_good m1" using add_joints_good(2) [OF _ _ a] n0 by simp_all
  have fill: "filled sus (replicate K [], n0) (cfgs, m1)" using fold_add_joint_filled sus(2) by metis
  have rest: "sizes m1 = sizes n0" "can_interfaces m1 = can_interfaces n0" "comm_threads m1 = comm_threads n0"
    using fold_add_joint_sizes [of sus "(replicate K [], n0)"] sus(2) by (metis snd_conv)+
  have at: "cfgs ! k = map su_config [su \<leftarrow> sus. su_interface su = k]"
    "joint_parameters_per_can_interface m1 ! k = joint_parameters_per_can_interface n0 ! k @ map su_parameters [su \<leftarrow> sus. su_interface su = k]"
    if "k < K" for k
    using fill that sf(9) by (simp_all add: filled_def Let_def fold_push_at)
  have len: "length (joint_parameters_per_can_interface m1) = K" using fill sf(9) by (simp add: filled_def Let_def)
  have keys: "distinct (map fst (zip [0..<K] names))" "fst ` set (zip [0..<K] names) = {..<K}"
    by (simp_all add: K_def flip: set_map) auto
  note i = i [folded names_def, folded K_def]
  obtain cs1 where m2: "m2 = m1\<lparr>can_interfaces := cs1\<rparr>" and cs1: "length cs1 = K"
    "\<And>k. k < K \<Longrightarrow> map_option joint_configs (cs1 ! k) = Some (cfgs ! k)"
    using open_interfaces_drivers [OF i keys(1)] rest(2) sf(4) keys(2) by auto
  have fine2: "list_all driver_fine (can_interfaces m2)"
    using open_interfaces_fine [OF i, of "{}"] keys(2) m2 cs1(1) by (simp add: list_all_length)
  have "length (comm_threads m2) = length (can_interfaces m2)" using m2 cs1 rest(3) sf(5) by simp
  from start_motors_node [OF s this] obtain cs ts where
    n': "n' = m2\<lparr>publish_timer := True, joint_cmd_sub := True, can_interfaces := cs,
      on_set_parameters_handle := True, supervisor_timer := True, comm_threads := ts\<rparr>" and
    cs: "map (map_option joint_configs) cs = map (map_option joint_configs) (can_interfaces m2)" and
    ts: "length ts = length (comm_threads m2)" .
  have csl: "length cs = K" using map_eq_imp_length_eq [OF cs] m2 cs1(1) by simp
  have csk: "map_option joint_configs (cs ! k) = Some (cfgs ! k)" if "k < K" for k
    using arg_cong [OF cs, of "\<lambda>xs. xs ! k"] that m2 cs1 csl by simp
  have jd: "joint_data n' = joint_data m1" "sizes n' = sizes n0" using n' m2 rest(1) by (simp_all add: joint_data_def sizes_def)
  have params: "joint_parameters_per_can_interface n' ! k = map su_parameters [su \<leftarrow> sus. su_interface su = k]" if k: "k < K" for k
  proof -
    have "joint_parameters_per_can_interface n0 ! k = []"
    proof (rule ccontr)
      assume "joint_parameters_per_can_interface n0 ! k \<noteq> []"
      then have "length (cfgs ! k) < length (joint_parameters_per_can_interface m2 ! k)" using at [OF k] m2 by simp
      from start_motors_needs_drivers [OF s _ this, of "cfgs ! k"] show False using k m2 len cs1 by simp
    qed
    then show ?thesis using at [OF k] n' m2 by simp
  qed
  have own: "length (can_interfaces n') = K" "length (comm_threads n') = K" using n' csl ts m2 rest(3) sf(5) by simp_all
  have lenp: "length (joint_parameters_per_can_interface n') = K" using n' m2 len by simp
  have even: "joints_even n'" "filters_good n'" using good_data [OF jd(1)] m1 by simp_all
  have all: "aligned k n' \<and> diagnostics_fit k n' \<and> good_driver k n' \<and> good_filters k n'" if k: "k < K" for k
  proof -
    note e = joints_even_at [OF even(1), of k, unfolded lenp, OF k]
    have al: "aligned k n'" using e k own sizes_fit(4,5) [OF jd(2)] sf(7,8) lenp by (simp add: aligned_def Let_def)
    obtain d where d: "can_interfaces n' ! k = Some d" "joint_configs d = cfgs ! k" using csk [OF k] n' by auto
    have "driver_ok d" using start_motors_fine [OF s fine2] d(1) own k by (metis driver_fine_simps(2) list_all_length)
    moreover have "list_all config_ok (joint_configs d)"
      using d(2) at(1) [OF k] list_all2_source [OF sus(1)] read_joint_config_ok by (fastforce simp: list_all_iff)
    moreover have "length (joint_configs d) = length (joint_commands_per_can_interface n' ! k)"
      using d(2) at(1) [OF k] params [OF k] e by simp
    ultimately have "good_driver k n'" using d(1) by (simp add: good_driver_def)
    moreover have "diagnostics_fit k n'" using diagnostics_fit_sizes [OF jd(2)] sf(3) [OF k] by simp
    ultimately show ?thesis using al even(2) lenp k by (simp add: filters_good_def)
  qed
  have "unat (msg_idx p) < joint_msg_length n'" if ps: "ps \<in> set (joint_parameters_per_can_interface n')" "p \<in> set ps" for p ps
  proof -
    obtain k where "k < K" "ps = joint_parameters_per_can_interface n' ! k"
      using ps(1) lenp by (metis in_set_conv_nth)
    then obtain su where "su \<in> set sus" "p = su_parameters su" using params ps(2) by auto
    then show ?thesis using validated_indices [OF v [folded ijs_def] idx sus(1)] sizes_fit(3) [OF jd(2)] sf(6) by simp
  qed
  then show ?thesis using all own even(1) sizes_fit(1,2) [OF jd(2)] sf(1,2) by (simp add: live_def good_indices_def)
qed

section \<open>Parameters at run time\<close>

text \<open>What a batch of parameters leaves alone.\<close>

definition outline ::
  "node \<Rightarrow> (nat list list \<times> nat list) \<times> nat list \<times> nat \<times> driver option list \<times> JointCommand option \<times> u32 list list" where
  "outline n = (shape n, room n, joint_msg_length n, can_interfaces n, joint_cmd_ptr n,
     map (map msg_idx) (joint_parameters_per_can_interface n))"

lemma map_modify:
  assumes "\<And>x. g (f x) = g x"
  shows "map (map g) (modify ix f xss) = map (map g) xss"
proof -
  have "map g (ys[j := f (ys ! j)]) = map g ys" for ys j
    by (cases "j < length ys") (simp_all add: map_update assms list_update_same_conv list_update_beyond)
  then show ?thesis
    by (cases "fst ix < length xss") (simp_all add: modify_def map_update list_update_same_conv list_update_beyond)
qed

lemma apply_update_outline: "outline (apply_update up n) = outline n"
proof -
  have "msg_idx (update_parameters u p) = msg_idx p" for u p by (simp add: update_parameters_def Let_def)
  then show ?thesis by (simp add: outline_def apply_update_def shape_def room_def map_modify Let_def)
qed

lemma update_joint_good:
  assumes "ma_safe ma" and "unat (vel_filter_size p) \<le> ma_buffersize ma" and "clean med"
  shows "ma_safe (update_ma u ma)" "unat (vel_filter_size (update_parameters u p)) \<le> ma_buffersize (update_ma u ma)"
    "clean (update_med u med)"
proof -
  have "clean (med_resize double_num m med)" for m
    by (simp add: clean_def med_resize_def med_ok_def double_num_def list_all_iff)
  then show "clean (update_med u med)" using assms(3) by (simp add: update_med_def split: option.split)
  show "ma_safe (update_ma u ma)" "unat (vel_filter_size (update_parameters u p)) \<le> ma_buffersize (update_ma u ma)"
    using assms(1,2) ma_resize_safe [OF assms(1), of double_num]
    by (auto simp: update_ma_def update_parameters_def or_old_def Let_def split: option.split)
qed

lemma apply_update_filters:
  assumes "good_filters k n" and "k < length (joint_parameters_per_can_interface n)" and "joints_even n"
  shows "good_filters k (apply_update up n)"
proof -
  note e = joints_even_at [OF assms(3,2)]
  have "length (joint_parameters_per_can_interface (apply_update up n) ! k) = length (joint_parameters_per_can_interface n ! k)"
    using assms(2) by (simp add: apply_update_def modify_def nth_list_update_if Let_def)
  moreover have "ma_safe (joint_vel_filters_per_can_interface (apply_update up n) ! k ! i) \<and>
      unat (vel_filter_size (joint_parameters_per_can_interface (apply_update up n) ! k ! i)) \<le>
        ma_buffersize (joint_vel_filters_per_can_interface (apply_update up n) ! k ! i) \<and>
      clean (joint_pos_median_filters_per_can_interface (apply_update up n) ! k ! i)"
    if i: "i < length (joint_parameters_per_can_interface n ! k)" for i
  proof -
    have g: "ma_safe (joint_vel_filters_per_can_interface n ! k ! i)"
      "unat (vel_filter_size (joint_parameters_per_can_interface n ! k ! i)) \<le> ma_buffersize (joint_vel_filters_per_can_interface n ! k ! i)"
      "clean (joint_pos_median_filters_per_can_interface n ! k ! i)"
      using assms(1) i by (simp_all add: good_filters_def)
    show ?thesis using assms(2) e i g update_joint_good [OF g, of "snd up"]
      by (simp add: apply_update_def nth_modify Let_def)
  qed
  ultimately show ?thesis by (simp add: good_filters_def)
qed

lemma even_outline: "outline n' = outline n \<Longrightarrow> joints_even n' = joints_even n"
proof -
  assume "outline n' = outline n"
  then have "shape n' = shape n" by (simp add: outline_def)
  moreover from this have "map length (joint_parameters_per_can_interface n') = map length (joint_parameters_per_can_interface n)"
    by (simp add: shape_def)
  ultimately show ?thesis by (simp add: joints_even_def)
qed

lemma fold_apply_update_good:
  assumes "joints_even n"
  shows "outline (fold apply_update us n) = outline n \<and>
    (\<forall>k<length (joint_parameters_per_can_interface n). good_filters k n \<longrightarrow> good_filters k (fold apply_update us n))"
  using assms
proof (induction us arbitrary: n)
  case (Cons u us)
  have o: "outline (apply_update u n) = outline n" by (rule apply_update_outline)
  then have "length (joint_parameters_per_can_interface (apply_update u n)) = length (joint_parameters_per_can_interface n)"
    by (simp add: apply_update_def modify_def Let_def)
  then show ?case using Cons.IH [of "apply_update u n"] even_outline [OF o] o Cons.prems apply_update_filters by simp
qed simp

lemma parameters_good:
  assumes "joints_even n" and "n' = snd (on_set_parameters_callback ps n)"
  shows "outline n' = outline n" "\<forall>k<length (joint_parameters_per_can_interface n). good_filters k n \<longrightarrow> good_filters k n'"
proof -
  have "outline n' = outline n \<and> (\<forall>k<length (joint_parameters_per_can_interface n). good_filters k n \<longrightarrow> good_filters k n')"
  proof (cases "\<exists>pend. n' = apply_pending pend n")
    case True
    then obtain pend where p: "n' = apply_pending pend n" by blast
    let ?n = "n\<lparr>default_damping_KD := or_old (new_default_damping_KD pend) (default_damping_KD n),
          damping_on_motor_error := or_old (new_damping_on_motor_error pend) (damping_on_motor_error n),
          max_can_errors_before_motor_shutdown :=
            or_old (map_option to_unsigned (new_max_can_errors pend)) (max_can_errors_before_motor_shutdown n)\<rparr>"
    have o: "outline ?n = outline n" by (simp add: outline_def shape_def room_def)
    have "good_filters k ?n = good_filters k n" for k by (simp add: good_filters_def)
    then show ?thesis
      using fold_apply_update_good [of ?n "joint_updates pend"] even_outline [OF o] assms(1) o p by (simp add: apply_pending_def)
  next
    case False
    then have "n' = n" using assms(2) by (auto simp: on_set_parameters_callback_def split: sum.splits option.splits)
    then show ?thesis by simp
  qed
  then show "outline n' = outline n"
    "\<forall>k<length (joint_parameters_per_can_interface n). good_filters k n \<longrightarrow> good_filters k n'" by blast+
qed

lemma parameters_threads: "comm_threads (snd (on_set_parameters_callback ps n)) = comm_threads n"
proof -
  have "comm_threads (fold apply_update us m) = comm_threads m" for us m
    by (induction us arbitrary: m) (simp_all add: apply_update_def Let_def)
  then show ?thesis by (simp add: on_set_parameters_callback_def apply_pending_def split: sum.split option.split)
qed

section \<open>The invariant of the node\<close>

text \<open>
  A configured node is live; one that is not configured runs no thread, and its vectors, however a
  configuration left them, have one shape and hold filters that are safe.
\<close>

definition torn :: "node \<Rightarrow> bool" where
  "torn n \<longleftrightarrow> True \<notin> set (comm_threads n) \<and> joints_even n \<and> filters_good n"

definition sound :: "node \<Rightarrow> bool" where
  "sound n \<longleftrightarrow>
     (case current_state n of
        INACTIVE \<Rightarrow> live n
      | ACTIVE \<Rightarrow> live n
      | UNCONFIGURED \<Rightarrow> torn n
      | FINALIZED \<Rightarrow> True \<notin> set (comm_threads n))"

lemma live_same:
  assumes "live n" and "stable n' = stable n" and "kept n' = kept n" and "joint_cmd_ptr n' = joint_cmd_ptr n"
  shows "live n'"
  by (rule live_kept [OF assms(1-3)])
    (use assms(1,4) stableD [OF assms(2)] in \<open>simp add: live_def good_command_def command_sizes_ok_def\<close>)

lemma live_flags:
  assumes "live n"
  shows "live (n\<lparr>current_state := s\<rparr>)" "live (n\<lparr>watchdog_timer := b\<rparr>)" "live (n\<lparr>msg_received := b\<rparr>)"
    "live (n\<lparr>cleanup_requested := b\<rparr>)" "length ts = length (comm_threads n) \<Longrightarrow> live (n\<lparr>comm_threads := ts\<rparr>)"
  by (rule live_same [OF assms]; simp add: stable_def shape_def room_def kept_def)+

lemma torn_flags:
  "torn (n\<lparr>current_state := s\<rparr>) = torn n" "torn (n\<lparr>watchdog_timer := b\<rparr>) = torn n"
  "torn (n\<lparr>msg_received := b\<rparr>) = torn n" "torn (n\<lparr>cleanup_requested := b\<rparr>) = torn n"
  by (simp_all add: torn_def joints_even_def shape_def filters_good_def good_filters_def)

lemma live_outline:
  assumes "live n" and "outline n' = outline n" and "\<forall>k<length (can_interfaces n). good_filters k n'"
  shows "live n'"
proof -
  have o: "shape n' = shape n" "room n' = room n" "joint_msg_length n' = joint_msg_length n"
    "can_interfaces n' = can_interfaces n" "joint_cmd_ptr n' = joint_cmd_ptr n"
    "map (map msg_idx) (joint_parameters_per_can_interface n') = map (map msg_idx) (joint_parameters_per_can_interface n)"
    using assms(2) by (simp_all add: outline_def)
  have idx: "good_indices m \<longleftrightarrow> (\<forall>ms\<in>set (map (map msg_idx) (joint_parameters_per_can_interface m)). \<forall>i\<in>set ms. unat i < joint_msg_length m)" for m
    by (simp add: good_indices_def)
  have "good_indices n'" using assms(1) o by (simp add: idx live_def)
  moreover have "good_driver k n'" if "k < length (can_interfaces n)" for k
    by (rule good_driver_cong [OF o(4,1)]) (use liveD [OF assms(1) that] in simp_all)
  moreover have "length (comm_threads n') = length (comm_threads n)" using o(1) by (simp add: shape_def)
  ultimately show ?thesis using assms(1,3) o
    by (simp add: live_def aligned_shape lengths_fit_room diagnostics_fit_room joints_even_shape good_command_def command_sizes_ok_def)
qed

lemma clear_joints_torn: "comm_threads n = [] \<Longrightarrow> torn (clear_joints n)"
  by (simp add: torn_def clear_joints_def joints_even_def shape_def filters_good_def)

lemma on_cleanup_torn: "torn (snd (on_cleanup n))"
proof -
  have c: "comm_threads (snd (can_call i f m)) = comm_threads m" for i f m
    by (simp add: can_call_def split_beta split: option.split)
  have "comm_threads (snd (each_caught f ijs m)) = comm_threads m" for f ijs m
    by (induction ijs arbitrary: m) (simp_all add: split_beta c)
  then show ?thesis by (auto simp: on_cleanup_def disable_motors_def Let_def intro: clear_joints_torn)
qed

lemma cleanup_sound: "documented (ev_lifecycle E) \<Longrightarrow> sound n \<Longrightarrow> sound (cleanup E n)"
  using on_cleanup_torn by (simp add: cleanup_eq sound_def torn_flags)

lemma deactivate_sound: "documented (ev_lifecycle E) \<Longrightarrow> sound n \<Longrightarrow> sound (deactivate E n)"
  using deactivate_live(1) [of E n] by (cases "current_state n = ACTIVE") (simp_all add: sound_def deactivate_eq)

lemma shutdown_sound:
  assumes "documented (ev_lifecycle E)" and "sound n"
  shows "sound (shutdown E n)"
proof -
  have "True \<notin> set (comm_threads (snd (on_cleanup m)))" for m using on_cleanup_torn by (simp add: torn_def)
  then show ?thesis using assms
    by (cases "current_state n") (simp_all add: shutdown_eq sound_def torn_def on_shutdown_def Let_def)
qed

section \<open>Steps\<close>

lemma configure_failed:
  assumes "on_configure sys P now n = Some (c, n')" and "torn n" and "c \<noteq> LC_SUCCESS"
  shows "c = LC_ERROR \<or> torn n'"
  using assms(1)
proof (cases rule: on_configure_cases)
  case (invalid js)
  have "comm_threads n' = comm_threads n"
    using invalid(1) by (auto simp: read_globals_def andThen_Inr split: option.splits dest!: member_cases(1))
  then show ?thesis using good_data [of n' n] read_globals_joints [OF invalid(1)] assms(2) by (simp add: torn_def)
next
  case (joints js m v)
  let ?n = "size_vectors now (length js) (length (interface_names v)) (unat (max_msg_idx v + 1)) m"
  have "joints_even ?n" "filters_good ?n"
    using size_vectors_good good_data [of m n] read_globals_joints [OF joints(1)] assms(2) by (simp_all add: torn_def)
  moreover have "True \<notin> set (comm_threads ?n)" by (simp add: size_vectors_def)
  ultimately show ?thesis using add_joints_good(1) [OF _ _ joints(3)] by (simp add: torn_def)
next
  case (motors js m v cfgs m' m'')
  then show ?thesis using assms(3) by (auto simp: start_motors_def roll_back_def Let_def split: if_splits prod.splits)
qed simp_all

lemma configure_sound:
  assumes "documented (ev_lifecycle E)" and "sound n" and "configure E sys P now n = Some n'" and "small_indices P"
  shows "sound n'"
proof (cases "current_state n = UNCONFIGURED")
  case True
  then have t: "torn n" using assms(2) by (simp add: sound_def)
  obtain c m where c: "on_configure sys P now n = Some (c, m)" and n': "n' = trigger E Configure (\<lambda>_. (c, m)) n"
    using assms(1,3) True by (auto simp: configure_def documented_def)
  show ?thesis
  proof (cases c)
    case LC_SUCCESS
    then have "live m" using configured_live [OF _ _ _ assms(4)] c t by (simp add: torn_def)
    then show ?thesis using n' True LC_SUCCESS assms(1) by (simp add: trigger_def documented_def sound_def live_flags)
  next
    case LC_FAILURE
    then have "torn m" using configure_failed [OF c t] by simp
    then show ?thesis using n' True LC_FAILURE assms(1) by (simp add: trigger_def documented_def sound_def torn_flags)
  next
    case LC_ERROR
    have "torn (snd (on_error UNCONFIGURED m))"
      by (simp add: on_error_def Let_def clear_joints_torn)
    moreover have "fst (on_error UNCONFIGURED m) = LC_SUCCESS" by (simp add: on_error_def Let_def)
    ultimately show ?thesis using n' True LC_ERROR assms(1)
      by (simp add: trigger_def documented_def sound_def torn_flags split_beta)
  qed
qed (use assms in \<open>auto simp: configure_def documented_def\<close>)

lemma parameters_sound:
  assumes "sound n"
  shows "sound (snd (on_set_parameters_callback ps n))"
proof -
  let ?n = "snd (on_set_parameters_callback ps n)"
  have live: "live ?n" if l: "live n"
  proof (rule live_outline [OF l])
    have e: "joints_even n" using l by (simp add: live_def)
    show "outline ?n = outline n" by (rule parameters_good(1) [OF e refl])
    show "\<forall>k<length (can_interfaces n). good_filters k ?n"
      using parameters_good(2) [OF e refl] l by (auto simp: live_def aligned_def)
  qed
  have torn: "torn ?n" if t: "torn n"
  proof -
    have e: "joints_even n" using t by (simp add: torn_def)
    note o = parameters_good(1) [OF e refl, of ps]
    have "length (joint_parameters_per_can_interface ?n) = length (joint_parameters_per_can_interface n)"
      using o by (simp add: outline_def) (metis length_map)
    then have "filters_good ?n" using parameters_good(2) [OF e refl, of ps] t by (simp add: torn_def filters_good_def)
    then show ?thesis using even_outline [OF o] t parameters_threads by (simp add: torn_def)
  qed
  show ?thesis using assms live torn parameters_frame(1) parameters_threads
    by (cases "current_state n") (simp_all add: sound_def)
qed

lemma sound_control:
  assumes "sound n" and "current_state n' = current_state n" and "live n \<Longrightarrow> live n'" and "torn n \<Longrightarrow> torn n'"
    and "comm_threads n' = comm_threads n"
  shows "sound n'"
  using assms by (cases "current_state n") (simp_all add: sound_def)

text \<open>The command that waits to be stored has the sizes of the configuration.\<close>

definition pending_fits :: "node \<Rightarrow> bool" where
  "pending_fits n \<longleftrightarrow> current_state n \<in> {INACTIVE, ACTIVE} \<longrightarrow>
     (\<forall>cmd. accepted n = Some cmd \<longrightarrow> command_sizes_ok n cmd)"

lemma begin_sound:
  assumes "sound n"
  shows "sound (begin_command cmd n)"
proof (rule sound_control [OF assms])
  show "live (begin_command cmd n)" if "live n"
    by (rule live_same [OF that])
      (simp_all add: begin_command_def accept_command_def stable_def shape_def room_def kept_def Let_def)
qed (simp_all add: begin_command_def accept_command_def torn_def joints_even_def shape_def filters_good_def
  good_filters_def Let_def)

lemma end_sound:
  assumes "sound n" and "pending_fits n" and "accepted n = Some cmd"
  shows "sound (end_command now cmd n)"
proof (cases "current_state n \<in> {INACTIVE, ACTIVE}")
  case True
  then have l: "live n" and fits: "command_sizes_ok n cmd" using assms by (auto simp: sound_def pending_fits_def)
  have "live (end_command now cmd n)"
    by (rule live_kept [OF l])
      (use fits in \<open>simp_all add: end_command_def store_command_def stable_def shape_def room_def kept_def
        good_command_def command_sizes_ok_def\<close>)
  then show ?thesis using True command_effect(6) [of now cmd n] by (auto simp: sound_def)
next
  case False
  have "torn (end_command now cmd n) = torn n" "comm_threads (end_command now cmd n) = comm_threads n"
    by (simp_all add: end_command_def store_command_def torn_def joints_even_def shape_def filters_good_def good_filters_def)
  then show ?thesis using assms(1) False
    by (cases "current_state n") (simp_all add: sound_def command_effect)
qed

lemma publish_sound:
  assumes "sound n" and "joint_state_publish_callback t t' n = Some (p, n')"
  shows "sound n'"
proof -
  obtain xs where n': "n' = n\<lparr>diag := diag n\<lparr>joint_state_age := xs\<rparr>\<rparr>" "length xs = length (joint_state_age (diag n))"
    using assms(2) by (auto simp: joint_state_publish_callback_def Let_def split: if_splits)
  have "live n'" if l: "live n"
    by (rule live_same [OF l]) (use n' in \<open>simp_all add: stable_def shape_def room_def kept_def Let_def\<close>)
  note live = this
  show ?thesis
    by (rule sound_control [OF assms(1) _ live])
      (simp_all add: n' torn_def joints_even_def shape_def filters_good_def good_filters_def)
qed

lemma can_call_live:
  assumes "live n" and "keeps_setup f"
  shows "live (snd (can_call i f n))"
proof (cases "can_interfaces n ! i")
  case None
  then show ?thesis using assms(1) by (simp add: can_call_def)
next
  case (Some d)
  let ?n = "snd (can_call i f n)"
  have n': "?n = n\<lparr>can_interfaces := (can_interfaces n)[i := Some (snd (f d))]\<rparr>"
    using Some by (simp add: can_call_def split_beta)
  have st: "stable ?n = stable n" by (simp add: n' stable_def shape_def room_def)
  show ?thesis
  proof (rule live_intro [OF assms(1) st])
    show "good_command ?n" using assms(1) by (simp add: n' live_def good_command_def command_sizes_ok_def)
  next
    fix k assume k: "k < length (can_interfaces n)"
    note l = liveD [OF assms(1) k]
    have "good_driver k ?n"
    proof (cases "k = i")
      case True
      then show ?thesis using l(3) Some k setup_driver_ok [OF assms(2), of d] setup_configs [OF assms(2), of d]
        by (simp add: good_driver_def n')
    next
      case False
      then show ?thesis using l(3) by (simp add: good_driver_def n')
    qed
    then show "good_driver k ?n \<and> good_filters k ?n" using l(4) by (simp add: good_filters_def n')
  qed
qed

lemma thread_live:
  assumes "live n"
  shows "live (start_comm_thread k n)" "live (stop_comm_thread k n)" "live (stop_all_comm_threads n)" "live (restart_threads n)"
proof -
  show "live (start_comm_thread k n)" "live (stop_comm_thread k n)" "live (stop_all_comm_threads n)"
    using assms live_flags(5) [OF assms]
    by (simp_all add: start_comm_thread_def stop_comm_thread_def stop_all_comm_threads_def)
  obtain ts where "restart_threads n = n\<lparr>comm_threads := ts\<rparr>" "length ts = length (comm_threads n)"
    using fold_start_threads [of "[0..<length (can_interfaces n)]" n] unfolding restart_threads_def by blast
  then show "live (restart_threads n)" using live_flags(5) [OF assms] by simp
qed

lemma calibrate_all_live:
  "calibrate_all E is (held, n) = Some (True, n') \<Longrightarrow> live n \<Longrightarrow> live n'"
proof (induction "is" arbitrary: held n)
  case (Cons i "is")
  show ?case
  proof (cases "length (can_interfaces n) \<le> i")
    case False
    obtain r m where c: "calibrate_interface i n = (r, m)" by force
    have "keeps_setup (for_each (\<lambda>j. seq (end_motor_control_mode j) (start_motor_control_mode j True)) js)" for js
      by (intro setup_for_each setup_seq setup_end setup_start)
    then have "live m" using can_call_live [OF Cons.prems(2)] c unfolding calibrate_interface_def by (metis snd_conv)
    then show ?thesis using Cons.prems Cons.IH False c calibrate_all_held
      by (cases r) (fastforce split: option.splits if_splits)+
  qed (use Cons.prems in auto)
qed simp

lemma origin_all_sound:
  assumes "sound n" and "set_all_motors_origin_here_callback E n = Some (r, n')"
  shows "sound n'"
proof (cases "current_state n = INACTIVE")
  case True
  let ?m = "stop_all_comm_threads n"
  have l: "live ?m" using assms(1) True thread_live(3) by (simp add: sound_def)
  obtain m where m: "calibrate_all E [0..<length (can_interfaces ?m)] (True, ?m) = Some (True, m)" "n' = restart_threads m"
    using assms(2) True by (auto simp: set_all_motors_origin_here_callback_def Let_def split: option.splits if_splits)
  have "control m = control ?m" using calibrate_all_held [OF m(1)] by simp
  then have "current_state n' = INACTIVE" using m(2) True thread_frames(3,4) by (simp add: control_def)
  then show ?thesis using thread_live(4) [OF calibrate_all_live [OF m(1) l]] m(2) by (simp add: sound_def)
qed (use assms in \<open>simp add: set_all_motors_origin_here_callback_def\<close>)

lemma origin_one_sound:
  assumes "documented (ev_lifecycle E)" and "sound n" and "set_motor_origin_here_callback E motor n = Some (r, n')"
  shows "sound n'"
proof (cases "current_state n = INACTIVE \<and> find_motor motor n \<noteq> None")
  case True
  then obtain i j where f: "find_motor motor n = Some (i, j)" by auto
  let ?m = "stop_comm_thread i n"
  let ?len = "length (joint_parameters_per_can_interface ?m ! i)"
  have l: "live ?m" using assms(2) True thread_live(2) by (simp add: sound_def)
  obtain q m where c: "can_call i (recalibrate ?len j) ?m = (q, m)" by force
  have "keeps_setup (recalibrate ?len j)" unfolding recalibrate_def
    by (intro setup_for_each setup_seq setup_end setup_start)
  then have lm: "live m" using can_call_live [OF l] c by (metis snd_conv)
  have cm: "control m = control n" using can_call_frame' [OF c] by (simp add: thread_frames)
  show ?thesis
  proof (cases q)
    case (Ok u)
    then have "n' = start_comm_thread i m" using assms(3) True f c
      by (auto simp: set_motor_origin_here_callback_def Let_def split: if_splits)
    moreover have "current_state (start_comm_thread i m) = INACTIVE"
      using thread_frames(2) [of i m] cm True by (simp add: control_def)
    ultimately show ?thesis using thread_live(1) [OF lm] by (simp add: sound_def)
  next
    case (Throw x)
    then obtain l where l: "emergency_stop [0..<length (can_interfaces m)] m = Some l" "n' = cleanup E l"
      using assms(3) True f c by (auto simp: set_motor_origin_here_callback_def Let_def split: if_splits)
    have "current_state l = INACTIVE" using emergency_stop_frame [OF l(1)] cm True by (simp add: control_def)
    then show ?thesis using l(2) assms(1) on_cleanup_torn by (simp add: cleanup_eq sound_def torn_flags)
  next
    case UB
    then show ?thesis using assms(3) True f c
      by (auto simp: set_motor_origin_here_callback_def Let_def split: if_splits)
  qed
next
  case False
  then show ?thesis using assms(2,3)
    by (cases "current_state n = INACTIVE"; cases "find_motor motor n")
      (simp_all add: set_motor_origin_here_callback_def)
qed

lemma running_live:
  assumes "sound n" and "k < length (comm_threads n)" and "comm_threads n ! k"
  shows "live n \<and> k < length (can_interfaces n)"
proof -
  have "True \<in> set (comm_threads n)" using assms(2,3) by (metis nth_mem)
  then have "live n" using assms(1) by (cases "current_state n") (simp_all add: sound_def torn_def)
  then show ?thesis using assms(2) by (simp add: live_def)
qed

lemma cycle_sound:
  assumes "documented (ev_lifecycle E)" and "sound n" and "k < length (comm_threads n)" and "comm_threads n ! k"
    and "can_cycle_callback E c k n = Some n'"
  shows "sound n'"
proof -
  have "live n'" using cycle_live [OF assms(1), of n k c] running_live [OF assms(2-4)] assms(5) by auto
  moreover have "True \<in> set (comm_threads n)" using assms(3,4) by (metis nth_mem)
  then have "current_state n \<in> {INACTIVE, ACTIVE}"
    using assms(2) by (cases "current_state n") (simp_all add: sound_def torn_def)
  then have "current_state n' \<in> {INACTIVE, ACTIVE}"
    using cycle_falls_back [OF assms(1,5)] assms(1) by (auto simp: falls_back_def control_def deactivate_eq)
  ultimately show ?thesis by (auto simp: sound_def)
qed

text \<open>The events of a run: configurations have message indices that fit in 32 bits.\<close>

fun small_event :: "event \<Rightarrow> bool" where
  "small_event (Ev_configure sys P now) = small_indices P"
| "small_event _ = True"

lemma step_pending_fits:
  assumes "documented (ev_lifecycle E)" and "node_step E n ev n'" and "pending_fits n"
  shows "pending_fits n'"
proof (cases "accepted n")
  case None
  have sizes: "command_sizes_ok (begin_command cmd n) c = command_sizes_ok n c" for cmd c
    by (simp add: command_sizes_ok_def command_effect)
  have "accepted n' = None \<or> (\<exists>cmd. ev = Ev_command cmd \<and> n' = begin_command cmd n)"
    using step_accepted [OF assms(1,2)] None assms(2) by (cases ev) (auto elim: node_step.cases)
  then show ?thesis using None by (auto simp: pending_fits_def sizes command_effect split: if_splits)
next
  case (Some cmd)
  have kept: ?thesis if "accepted n' = None \<or> accepted n' = accepted n" "joint_msg_length n' = joint_msg_length n"
    "current_state n \<in> {INACTIVE, ACTIVE} \<or> current_state n' = current_state n"
    using that assms(3) by (auto simp: pending_fits_def command_sizes_ok_def)
  have waits: "accepted n' = None \<or> accepted n' = accepted n"
  proof (cases "\<exists>c. ev = Ev_command c")
    case True
    then show ?thesis using assms(2) Some by (auto elim: node_step.cases)
  next
    case False
    then show ?thesis using step_accepted [OF assms(1,2)] by (cases ev) auto
  qed
  show ?thesis using assms(2)
  proof cases
    case activate_step
    then show ?thesis using kept [OF waits] assms(1) by (simp add: activate_eq)
  next
    case deactivate_step
    then show ?thesis using kept [OF waits] assms(1) by (simp add: deactivate_eq)
  next
    case (store_step cmd now)
    then show ?thesis using kept [OF waits] by (simp add: command_effect)
  next
    case (parameters_step ps)
    then show ?thesis using kept [OF waits] by (simp add: parameters_frame)
  next
    case watchdog_step
    then show ?thesis using kept [OF waits] assms(1) by (simp add: watchdog_timer_callback_def deactivate_eq Let_def)
  next
    case (cycle_step k c)
    have "joint_msg_length n' = joint_msg_length n \<and>
        (current_state n \<in> {INACTIVE, ACTIVE} \<or> current_state n' = current_state n)"
      using cycle_falls_back [OF assms(1) cycle_step(4)] assms(1) control_eqD [of n' n]
        control_eqD [of n' "deactivate E n"] by (auto simp: falls_back_def deactivate_eq)
    then show ?thesis using kept [OF waits] by blast
  next
    case (publish_step t t' p)
    from control_eqD [OF publish_frame [OF publish_step(3)]] show ?thesis using kept [OF waits] by simp
  qed (use Some in simp_all)
qed

lemma step_sound:
  assumes "documented (ev_lifecycle E)" and "node_step E n ev n'" and "small_event ev" and "sound n" and "pending_fits n"
  shows "sound n'"
  using assms(2)
proof cases
  case (configure_step sys P now)
  then show ?thesis using configure_sound [OF assms(1,4)] assms(3) by simp
next
  case activate_step
  then show ?thesis using assms(1,4) live_flags
    by (cases "current_state n") (simp_all add: activate_eq sound_def)
next
  case watchdog_step
  have "sound (m\<lparr>msg_received := False\<rparr>)" if "sound m" for m
    by (rule sound_control [OF that]) (simp_all add: live_flags torn_flags)
  then show ?thesis using watchdog_step deactivate_sound [OF assms(1,4)] assms(4)
    by (simp add: watchdog_timer_callback_def Let_def)
next
  case supervisor_step
  have "sound (n\<lparr>cleanup_requested := False\<rparr>)"
    by (rule sound_control [OF assms(4)]) (simp_all add: live_flags torn_flags)
  then show ?thesis using supervisor_step cleanup_sound [OF assms(1)] assms(4) by (simp add: supervisor_callback_def)
next
  case (cycle_step k c)
  then show ?thesis using cycle_sound [OF assms(1,4)] by blast
next
  case deactivate_step
  then show ?thesis using deactivate_sound [OF assms(1,4)] by simp
next
  case cleanup_step
  then show ?thesis using cleanup_sound [OF assms(1,4)] by simp
next
  case shutdown_step
  then show ?thesis using shutdown_sound [OF assms(1,4)] by simp
next
  case (command_step cmd)
  then show ?thesis using begin_sound [OF assms(4)] by simp
next
  case (store_step cmd now)
  then show ?thesis using end_sound [OF assms(4,5)] by simp
next
  case (parameters_step ps)
  then show ?thesis using parameters_sound [OF assms(4)] by simp
next
  case (publish_step t t' p)
  then show ?thesis using publish_sound [OF assms(4)] by blast
next
  case (origin_all_step r)
  then show ?thesis using origin_all_sound [OF assms(4)] by blast
next
  case (origin_step motor r)
  then show ?thesis using origin_one_sound [OF assms(1,4)] by blast
qed

lemma run_sound:
  "node_run E n evs n' \<Longrightarrow> documented (ev_lifecycle E) \<Longrightarrow> \<forall>ev\<in>set evs. small_event ev \<Longrightarrow> sound n \<Longrightarrow>
     pending_fits n \<Longrightarrow> sound n'"
  by (induction rule: node_run.induct) (auto intro: step_sound step_pending_fits)


section \<open>Properties\<close>

text \<open>
  C2. The node is type safe: from its start, whatever events reach it in any order, a
  communication thread that runs finds vectors, drivers, filters and a command that fit together,
  so that its next cycle is defined; and while the publishing timer of a configured node runs, a
  publication is defined. The message indices of every configuration fit in 32 bits.
\<close>

theorem node_never_stuck:
  assumes "documented (ev_lifecycle E)" and "current_state n = UNCONFIGURED" and "no_joints n" and "True \<notin> set (comm_threads n)"
    and "node_run E n evs n'" and "\<forall>ev\<in>set evs. small_event ev"
  shows "(\<forall>k<length (comm_threads n'). comm_threads n' ! k \<longrightarrow> can_cycle_callback E c k n' \<noteq> None) \<and>
    (current_state n' \<in> {INACTIVE, ACTIVE} \<longrightarrow> joint_state_publish_callback t t' n' \<noteq> None)"
proof -
  have "sound n" "pending_fits n" using assms(2-4) no_joints_good by (simp_all add: sound_def torn_def pending_fits_def)
  then have s: "sound n'" using run_sound [OF assms(5,1,6)] by simp
  have "can_cycle_callback E c k n' \<noteq> None" if "k < length (comm_threads n')" "comm_threads n' ! k" for k
    using cycle_live [OF assms(1), of n' k c] running_live [OF s that] by auto
  moreover have "joint_state_publish_callback t t' n' \<noteq> None" if "current_state n' \<in> {INACTIVE, ACTIVE}"
  proof -
    have "lengths_fit n'" using s that by (auto simp: sound_def live_def)
    then show ?thesis by (simp add: joint_state_publish_callback_def lengths_fit_def Let_def)
  qed
  ultimately show ?thesis by blast
qed

theorem node_never_stuck_witness:
  "\<exists>n'. node_run demo_env fresh_node demo_events n' \<and> joint_state_publish_callback 7 9 n' \<noteq> None"
proof -
  obtain n where n: "node_run demo_env fresh_node demo_events n" "current_state n = INACTIVE" by (rule demo_run)
  have f: "current_state fresh_node = UNCONFIGURED" "True \<notin> set (comm_threads fresh_node)"
    by (simp_all add: fresh_node_def clear_joints_def demo_node_def)
  have "\<forall>ev\<in>set demo_events. small_event ev" using demo_fresh(2) by (simp add: demo_events_def demo_start_def)
  from node_never_stuck [OF demo_env_documented f(1) demo_fresh(1) f(2) n(1) this, where t = 7 and t' = 9] n show ?thesis by auto
qed

end
