(* ===== verification/NodeSpec.thy ===== *)
theory NodeSpec
  imports NodeProgress
begin

text \<open>
  What the node promises about its lifecycle, as a machine of two components: the primary state and
  whether a command has arrived. The node refines it, and statements on traces follow from it.
\<close>

section \<open>Runs and simulations\<close>

inductive runs :: "('s \<Rightarrow> 'e \<Rightarrow> 's \<Rightarrow> bool) \<Rightarrow> 's \<Rightarrow> 'e list \<Rightarrow> 's \<Rightarrow> bool" for R where
  runs_nil: "runs R s [] s"
| runs_cons: "R s e t \<Longrightarrow> runs R t es u \<Longrightarrow> runs R s (e # es) u"

text \<open>The states that a machine given by its possible successors reaches on a trace.\<close>

fun follow :: "('e \<Rightarrow> 'a \<Rightarrow> 'a set) \<Rightarrow> 'e list \<Rightarrow> 'a \<Rightarrow> 'a set" where
  "follow next [] a = {a}"
| "follow next (e # es) a = (\<Union>b\<in>next e a. follow next es b)"

locale simulation =
  fixes cstep :: "'s \<Rightarrow> 'e \<Rightarrow> 's \<Rightarrow> bool" and next_of :: "'e \<Rightarrow> 'a \<Rightarrow> 'a set" and abs_of :: "'s \<Rightarrow> 'a"
  assumes step_sim: "cstep s e t \<Longrightarrow> abs_of t \<in> next_of e (abs_of s)"
begin

lemma run_sim: "runs cstep s es t \<Longrightarrow> abs_of t \<in> follow next_of es (abs_of s)"
  by (induction rule: runs.induct) (auto dest: step_sim)

text \<open>
  A predicate of the abstract state that holds at the end either held all the time, or there is a
  last event that establishes it.
\<close>

lemma established:
  "runs cstep s es u \<Longrightarrow> A (abs_of u) \<Longrightarrow>
     A (abs_of s) \<and> (\<forall>e\<in>set es. \<exists>a b. b \<in> next_of e a \<and> A a \<and> A b) \<or>
     (\<exists>xs e ys t t'. es = xs @ e # ys \<and> runs cstep s xs t \<and> \<not> A (abs_of t) \<and>
        cstep t e t' \<and> A (abs_of t') \<and> (\<forall>e\<in>set ys. \<exists>a b. b \<in> next_of e a \<and> A a \<and> A b))"
proof (induction rule: runs.induct)
  case (runs_cons s e t es u)
  note sim = step_sim [OF runs_cons.hyps(1)]
  from runs_cons.IH [OF runs_cons.prems] show ?case
  proof (elim disjE)
    assume l: "A (abs_of t) \<and> (\<forall>e\<in>set es. \<exists>a b. b \<in> next_of e a \<and> A a \<and> A b)"
    show ?thesis
    proof (cases "A (abs_of s)")
      case True
      then show ?thesis using l sim by auto
    next
      case False
      then have "e # es = [] @ e # es \<and> runs cstep s [] s \<and> \<not> A (abs_of s) \<and> cstep s e t \<and> A (abs_of t)"
        using l runs_cons.hyps(1) by (simp add: runs_nil)
      then show ?thesis using l by blast
    qed
  next
    assume "\<exists>xs d ys v w. es = xs @ d # ys \<and> runs cstep t xs v \<and> \<not> A (abs_of v) \<and> cstep v d w \<and> A (abs_of w) \<and>
      (\<forall>e\<in>set ys. \<exists>a b. b \<in> next_of e a \<and> A a \<and> A b)"
    then obtain xs d ys v w where d: "es = xs @ d # ys" "runs cstep t xs v" "\<not> A (abs_of v)" "cstep v d w" "A (abs_of w)"
      "\<forall>e\<in>set ys. \<exists>a b. b \<in> next_of e a \<and> A a \<and> A b" by blast
    have "e # es = (e # xs) @ d # ys" "runs cstep s (e # xs) v"
      using d(1,2) runs_cons.hyps(1) by (simp_all add: runs.runs_cons)
    then show ?thesis using d(3-6) by blast
  qed
qed simp

end

section \<open>The lifecycle\<close>

text \<open>The primary state, and whether a command has arrived since the last tick or deactivation.\<close>

definition duty :: "node \<Rightarrow> lc_state \<times> bool" where
  "duty n = (current_state n, msg_received n)"

text \<open>
  Where an event may lead. Only an activation makes the node active, and only with a command; an
  inactive node loses its configuration by a clean-up that was asked for or a calibration that
  failed; what the motors do can only lead from active to inactive.
\<close>

fun lifecycle_spec :: "event \<Rightarrow> lc_state \<times> bool \<Rightarrow> (lc_state \<times> bool) set" where
  "lifecycle_spec (Ev_configure _ _ _) (s, fed) =
     (if s = UNCONFIGURED then {(UNCONFIGURED, fed), (INACTIVE, fed)} else {(s, fed)})"
| "lifecycle_spec Ev_activate (s, fed) = {(if s = INACTIVE \<and> fed then ACTIVE else s, fed)}"
| "lifecycle_spec Ev_deactivate (s, fed) = {if s = ACTIVE then (INACTIVE, False) else (s, fed)}"
| "lifecycle_spec Ev_cleanup (s, fed) = {(if s = INACTIVE then UNCONFIGURED else s, fed)}"
| "lifecycle_spec Ev_shutdown (s, fed) = {(FINALIZED, s \<noteq> ACTIVE \<and> fed)}"
| "lifecycle_spec (Ev_command _) (s, fed) = {(s, fed), (s, True)}"
| "lifecycle_spec Ev_watchdog (s, fed) = {(if s = ACTIVE \<and> \<not> fed then INACTIVE else s, False)}"
| "lifecycle_spec Ev_supervisor (s, fed) = {(s, fed), (if s = INACTIVE then UNCONFIGURED else s, fed)}"
| "lifecycle_spec (Ev_cycle _ _) (s, fed) = (if s = ACTIVE then {(s, fed), (INACTIVE, False)} else {(s, fed)})"
| "lifecycle_spec (Ev_origin _) (s, fed) = (if s = INACTIVE then {(s, fed), (UNCONFIGURED, fed)} else {(s, fed)})"
| "lifecycle_spec _ (s, fed) = {(s, fed)}"

lemma control_duty: "control n' = control n \<Longrightarrow> duty n' = duty n"
  by (simp add: control_def duty_def)

lemma falls_back_duty:
  "documented (ev_lifecycle E) \<Longrightarrow> falls_back E n n' \<Longrightarrow>
     duty n' = duty n \<or> current_state n = ACTIVE \<and> duty n' = (INACTIVE, False)"
  by (auto simp: falls_back_def deactivate_eq control_def duty_def)

lemma step_duty:
  assumes "documented (ev_lifecycle E)" and "node_step E n ev n'"
  shows "duty n' \<in> lifecycle_spec ev (duty n)"
  using assms(2)
proof cases
  case (configure_step sys P now)
  from configure_effect [OF assms(1) this(3)] show ?thesis
    using configure_step(1) by (auto simp: duty_def split: if_splits)
next
  case (command_step cmd)
  then show ?thesis by (simp add: duty_def begin_command_def accept_command_def Let_def)
next
  case (store_step cmd now)
  then show ?thesis by (simp add: duty_def command_effect)
next
  case (parameters_step ps)
  then show ?thesis by (simp add: duty_def parameters_frame)
next
  case watchdog_step
  then show ?thesis using assms(1) by (simp add: duty_def watchdog_timer_callback_def deactivate_eq Let_def)
next
  case supervisor_step
  then show ?thesis using assms(1) on_cleanup_frame(1) by (simp add: duty_def supervisor_callback_def cleanup_eq)
next
  case (cycle_step k c)
  from falls_back_duty [OF assms(1) cycle_falls_back [OF assms(1) cycle_step(4)]] show ?thesis
    using cycle_step(1) by (auto simp: duty_def)
next
  case (publish_step t t' p)
  then show ?thesis using control_duty [OF publish_frame [OF publish_step(3)]] by (simp add: duty_def)
next
  case (origin_all_step r)
  then show ?thesis using set_all_effect [OF origin_all_step(4)] control_duty [of n' n] by (simp add: duty_def)
next
  case (origin_step motor r)
  then show ?thesis using set_one_effect [OF assms(1) origin_step(4)] control_duty [of n' n] by (auto simp: duty_def)
next
  case activate_step
  then show ?thesis using assms(1) by (simp add: duty_def activate_eq)
next
  case deactivate_step
  then show ?thesis using assms(1) by (simp add: duty_def deactivate_eq)
next
  case cleanup_step
  then show ?thesis using assms(1) on_cleanup_frame(1) by (simp add: duty_def cleanup_eq)
next
  case shutdown_step
  then show ?thesis using assms(1) on_cleanup_frame(1)
    by (cases "current_state n") (simp_all add: duty_def shutdown_eq on_shutdown_def on_deactivate_def Let_def)
qed

text \<open>The steps of the node on a client library as documented.\<close>

definition documented_step :: "env \<Rightarrow> node \<Rightarrow> event \<Rightarrow> node \<Rightarrow> bool" where
  "documented_step E n ev n' \<longleftrightarrow> documented (ev_lifecycle E) \<and> node_step E n ev n'"

interpretation lifecycle: simulation "documented_step E" lifecycle_spec duty for E
  by unfold_locales (metis documented_step_def step_duty)

lemma node_run_runs: "documented (ev_lifecycle E) \<Longrightarrow> node_run E n evs n' \<longleftrightarrow> runs (documented_step E) n evs n'"
proof
  show "node_run E n evs n' \<Longrightarrow> documented (ev_lifecycle E) \<Longrightarrow> runs (documented_step E) n evs n'"
    by (induction rule: node_run.induct) (auto simp: documented_step_def intro: runs.intros)
  show "runs (documented_step E) n evs n' \<Longrightarrow> node_run E n evs n'"
    by (induction rule: runs.induct) (auto simp: documented_step_def intro: run_nil run_cons)
qed

lemma becomes_active:
  "b \<in> lifecycle_spec e a \<Longrightarrow> fst b = ACTIVE \<Longrightarrow> fst a \<noteq> ACTIVE \<Longrightarrow> e = Ev_activate \<and> snd a"
  by (cases a; cases e) (auto split: if_splits)

lemma becomes_fed:
  "b \<in> lifecycle_spec e a \<Longrightarrow> snd b \<Longrightarrow> \<not> snd a \<Longrightarrow> \<exists>cmd. e = Ev_command cmd"
  by (cases a; cases e) (auto split: if_splits)

section \<open>Properties\<close>

text \<open>
  C5. The node refines the lifecycle it promises: on every sequence of events its primary state, and
  whether a command has arrived, move as the abstract machine allows. In particular nothing but an
  activation makes it active, and nothing that a communication thread, the watchdog or a calibration
  does leads anywhere but down.
\<close>

theorem node_refines_lifecycle:
  assumes "documented (ev_lifecycle E)" and "node_run E n evs n'"
  shows "duty n' \<in> follow lifecycle_spec evs (duty n)"
  by (rule lifecycle.run_sim) (use assms node_run_runs in blast)

theorem node_refines_lifecycle_witness:
  "\<exists>n'. node_run demo_env fresh_node demo_events n' \<and> duty n' \<in> {(INACTIVE, False), (UNCONFIGURED, False)}"
proof -
  obtain n where n: "node_run demo_env fresh_node demo_events n" by (rule demo_run)
  have "duty fresh_node = (UNCONFIGURED, False)" by (simp add: duty_def fresh_node_def clear_joints_def demo_node_def)
  then have "duty n \<in> {(INACTIVE, False), (UNCONFIGURED, False)}"
    using node_refines_lifecycle [OF demo_env_documented n] by (auto simp: demo_events_def demo_start_def split: if_splits)
  then show ?thesis using n by blast
qed

text \<open>
  C10. Motors are driven only on demand, but for the first time. A run that makes the node active
  contains an activation after which nobody deactivates or shuts down the node; and before it a
  command, with no tick of the watchdog between the two, or no tick of the watchdog at all on a node
  whose \<open>msg_received_\<close> was true from the start. The program gives that member no first value.
\<close>

theorem activation_needs_command:
  assumes "documented (ev_lifecycle E)" and "node_run E n evs n'"
    and "current_state n \<noteq> ACTIVE" and "current_state n' = ACTIVE"
  shows "\<exists>xs zs. evs = xs @ Ev_activate # zs \<and> Ev_deactivate \<notin> set zs \<and> Ev_shutdown \<notin> set zs \<and>
    ((\<exists>ws cmd ys. xs = ws @ Ev_command cmd # ys \<and> Ev_watchdog \<notin> set ys) \<or>
     msg_received n \<and> Ev_watchdog \<notin> set xs)"
proof -
  have r: "runs (documented_step E) n evs n'" using assms(1,2) node_run_runs by blast
  obtain xs e zs m m' where e: "evs = xs @ e # zs" "runs (documented_step E) n xs m" "fst (duty m) \<noteq> ACTIVE"
    "documented_step E m e m'" "fst (duty m') = ACTIVE"
    "\<forall>e\<in>set zs. \<exists>a b. b \<in> lifecycle_spec e a \<and> fst a = ACTIVE \<and> fst b = ACTIVE"
    using lifecycle.established [OF r, of "\<lambda>a. fst a = ACTIVE"] assms(3,4) by (auto simp: duty_def)
  have a: "e = Ev_activate" "snd (duty m)" using becomes_active [OF lifecycle.step_sim [OF e(4)] e(5,3)] by blast+
  have z: "Ev_deactivate \<notin> set zs" "Ev_shutdown \<notin> set zs" using e(6) by fastforce+
  have quiet: "Ev_watchdog \<notin> set ys" if "\<forall>e\<in>set ys. \<exists>a b. b \<in> lifecycle_spec e a \<and> snd a \<and> snd b" for ys
    using that by fastforce
  from lifecycle.established [OF e(2), of snd, OF a(2)]
  have "(\<exists>ws cmd ys. xs = ws @ Ev_command cmd # ys \<and> Ev_watchdog \<notin> set ys) \<or> msg_received n \<and> Ev_watchdog \<notin> set xs"
  proof (elim disjE)
    assume "snd (duty n) \<and> (\<forall>e\<in>set xs. \<exists>a b. b \<in> lifecycle_spec e a \<and> snd a \<and> snd b)"
    then show ?thesis using quiet by (auto simp: duty_def)
  next
    assume "\<exists>ws d ys l l'. xs = ws @ d # ys \<and> runs (documented_step E) n ws l \<and> \<not> snd (duty l) \<and>
      documented_step E l d l' \<and> snd (duty l') \<and> (\<forall>e\<in>set ys. \<exists>a b. b \<in> lifecycle_spec e a \<and> snd a \<and> snd b)"
    then obtain ws d ys l l' where d: "xs = ws @ d # ys" "\<not> snd (duty l)" "documented_step E l d l'" "snd (duty l')"
      "\<forall>e\<in>set ys. \<exists>a b. b \<in> lifecycle_spec e a \<and> snd a \<and> snd b" by blast
    obtain cmd where "d = Ev_command cmd" using becomes_fed [OF lifecycle.step_sim [OF d(3)] d(4,2)] by blast
    then show ?thesis using d(1) quiet [OF d(5)] by blast
  qed
  then show ?thesis using e(1) a(1) z by blast
qed

theorem activation_needs_command_witness:
  "\<exists>n. node_run demo_env fresh_node demo_start n \<and> current_state n = ACTIVE \<and>
     (\<exists>ws cmd ys zs. demo_start = (ws @ Ev_command cmd # ys) @ Ev_activate # zs)"
proof -
  obtain n where n: "node_run demo_env fresh_node demo_start n" "current_state n = ACTIVE" by (rule demo_activated)
  have f: "current_state fresh_node \<noteq> ACTIVE" "\<not> msg_received fresh_node"
    by (simp_all add: fresh_node_def clear_joints_def demo_node_def)
  from activation_needs_command [OF demo_env_documented n(1) f(1) n(2)] f(2) n show ?thesis by blast
qed

end
