(* ===== verification/NodePolicy.thy ===== *)
theory NodePolicy
  imports NodeSpec
begin

text \<open>
  What the hardware node and the driver of an interface guarantee together: the frames that the
  motors of an inactive node get, the end of the motion when a motor falls silent, and what the
  service that moves all origins reports.
\<close>

section \<open>A motor that does not answer\<close>

text \<open>Nothing that will be read from the bus is a reply of the joint.\<close>

definition mute :: "nat \<Rightarrow> driver \<Rightarrow> bool" where
  "mute j d \<longleftrightarrow> (\<forall>nb f cs. Rx_Msg nb f cs \<in> set (rx_queue (socket d)) \<longrightarrow> frame_id f AND CAN_ERR_FLAG = 0 \<longrightarrow>
     frame_joint (joint_configs d) f \<noteq> Some j)"

lemma mute_cycle:
  assumes "driver_ok d" and "list_all config_ok (joint_configs d)"
    and "length cmds = length (joint_configs d)" and "length states = length (joint_configs d)"
    and "send_and_receive cmds states d = (Ok states', d')" and "j < length (joint_configs d)" and "mute j d"
  shows "communication_status (states' ! j) \<noteq> SUCCESS" "mute j d'"
proof -
  show "communication_status (states' ! j) \<noteq> SUCCESS"
    using response_source [OF assms(1-6)] assms(7) slots_source unfolding cycle_slots_def mute_def by blast
  have "joint_configs d' = joint_configs d"
    using cycle_refines [OF assms(1-3), of states] assms(4,5) by (metis order_refl prod.inject)
  moreover have "length (joint_configs d) \<le> length (send_ok d)" using assms(1) by (simp add: driver_ok_def)
  ultimately show "mute j d'" using cycle_queue [OF assms(3) _ assms(5)] assms(7) unfolding mute_def by auto
qed

definition tally :: "node \<Rightarrow> u32 list \<times> u32 \<times> bool list \<times> driver option list" where
  "tally n = (num_can_errors_per_interfaces n, max_can_errors_before_motor_shutdown n, comm_threads n, can_interfaces n)"

interpretation tally_part: cycle_rest tally
  by unfold_locales (simp_all add: tally_def deactivate_eq)

lemma mute_joint_cycle:
  assumes E: "documented (ev_lifecycle E)" and live: "live n" and k: "k < length (can_interfaces n)"
    and state: "current_state n = ACTIVE" and run: "comm_threads n ! k" and cmd: "joint_cmd_ptr n \<noteq> None"
    and d: "can_interfaces n ! k = Some d" and j: "j < length (joint_configs d)" and m: "mute j d"
    and small: "unat (num_can_errors_per_interfaces n ! k) + length (joint_configs d) < 2 ^ 32"
    and r: "can_cycle_callback E c k n = Some n'" and active: "current_state n' = ACTIVE"
  shows "unat (num_can_errors_per_interfaces n ! k) < unat (num_can_errors_per_interfaces n' ! k)"
    "unat (num_can_errors_per_interfaces n' ! k) < unat (max_can_errors_before_motor_shutdown n)"
    "max_can_errors_before_motor_shutdown n' = max_can_errors_before_motor_shutdown n" "comm_threads n' ! k"
    "\<exists>d'. can_interfaces n' ! k = Some d' \<and> mute j d' \<and> joint_configs d' = joint_configs d"
proof -
  note l = liveD [OF live k]
  have ok: "driver_ok d" "list_all config_ok (joint_configs d)" "length (joint_configs d) = length (joint_commands_per_can_interface n ! k)"
    using l(3) d by (auto simp: good_driver_def)
  obtain cmds states d' x where e:
    "those (map (cycle_command E n k (the (joint_cmd_ptr n))) [0..<length (joint_commands_per_can_interface n ! k)]) = Some cmds"
    "send_and_receive cmds (joint_states_per_can_interface n ! k) d = (Ok states, d')"
    "after_exchange E c k x d' (with_states k states (exchanged c k cmds d' n)) = Some n'"
    using r
  proof (cases rule: cycle_cases)
    case failed
    then show thesis using give_up_not_active [OF E] active by blast
  next
    case (answered cmd cmds drv states drv' frequency)
    then show thesis using that [of cmds states drv' frequency] d by simp
  qed (use state run cmd in auto)
  have cl: "length cmds = length (joint_configs d)"
    using e(1) ok(3) by (metis cycle_commands_total [OF live k] cmd option.exhaust_sel option.inject)
  have sl: "length (joint_states_per_can_interface n ! k) = length (joint_configs d)" and
    ks: "k < length (joint_states_per_can_interface n)" "k < length (num_can_errors_per_interfaces n)"
    using l(1) ok(3) by (simp_all add: aligned_def Let_def)
  obtain s: "length states = length (joint_configs d)" "joint_configs d' = joint_configs d"
    using cycle_refines [OF ok(1,2) cl, of "joint_states_per_can_interface n ! k"] sl e(2) by (metis order_refl prod.inject outcome.inject(1))
  note silent = mute_cycle [OF ok(1,2) cl sl e(2) j m]
  define errs where "errs = length [st \<leftarrow> states. communication_status st \<noteq> SUCCESS]"
  have "states ! j \<in> set [st \<leftarrow> states. communication_status st \<noteq> SUCCESS]" using silent(1) s(1) j by simp
  then have errs: "0 < errs" "errs \<le> length (joint_configs d)"
    unfolding errs_def using s(1) length_filter_le [of _ states] by (metis length_pos_if_in_set, metis)
  let ?m = "with_states k states (exchanged c k cmds d' n)" and ?cnt = "num_can_errors_per_interfaces n ! k"
  have tm: "tally ?m = (num_can_errors_per_interfaces n, max_can_errors_before_motor_shutdown n, comm_threads n,
      (can_interfaces n)[k := Some d'])"
    by (simp add: tally_def with_states_def exchanged_def)
  obtain n1 where n1: "check_status E (joint_states_per_can_interface ?m ! k) ?m = (of_nat errs, n1)"
    using check_status_spec [OF E] ks(1) by (simp add: errs_def with_states_def exchanged_def)
  have t1: "tally n1 = tally ?m" by (rule tally_part.statuses [OF E n1])
  obtain go n2 where n2: "count_errors E k (of_nat errs) n1 = (go, n2)" by force
  have small': "unat (of_nat errs :: u32) = errs" using errs(2) small by (simp add: unat_of_nat)
  have nz: "(of_nat errs :: u32) \<noteq> 0" using small' errs(1) by fastforce
  have go: go
  proof (rule ccontr)
    assume "\<not> go"
    then have "n' = give_up E n1" using e(3) n1 n2 nz by (auto simp: after_exchange_def count_errors_def Let_def split: if_splits)
    then show False using give_up_not_active [OF E] active by blast
  qed
  then have p: "process_replies E c k x d' n2 = Some n'" using e(3) n1 n2 by (simp add: after_exchange_def)
  have n2': "\<not> max_can_errors_before_motor_shutdown n1 \<le> num_can_errors_per_interfaces n1 ! k + of_nat errs"
    "n2 = n1\<lparr>num_can_errors_per_interfaces := (num_can_errors_per_interfaces n1)[k := num_can_errors_per_interfaces n1 ! k + of_nat errs]\<rparr>"
    using n2 go nz by (auto simp: count_errors_def Let_def split: if_splits)
  have t: "tally n' = ((num_can_errors_per_interfaces n)[k := ?cnt + of_nat errs], max_can_errors_before_motor_shutdown n,
      comm_threads n, (can_interfaces n)[k := Some d'])"
    using tally_part.process_replies [OF E p] t1 tm n2'(2) by (simp add: tally_def)
  have sum: "unat (?cnt + of_nat errs) = unat ?cnt + errs"
    using small errs(2) small' by (simp add: unat_word_ariths)
  have "\<not> max_can_errors_before_motor_shutdown n \<le> ?cnt + of_nat errs" using n2'(1) t1 tm by (simp add: tally_def)
  then have "unat ?cnt + errs < unat (max_can_errors_before_motor_shutdown n)"
    using sum by (simp add: not_le word_less_nat_alt)
  then show "unat ?cnt < unat (num_can_errors_per_interfaces n' ! k)"
    "unat (num_can_errors_per_interfaces n' ! k) < unat (max_can_errors_before_motor_shutdown n)"
    "max_can_errors_before_motor_shutdown n' = max_can_errors_before_motor_shutdown n" "comm_threads n' ! k"
    "\<exists>d'. can_interfaces n' ! k = Some d' \<and> mute j d' \<and> joint_configs d' = joint_configs d"
    using t ks(2) k sum errs(1) run silent(2) s(2) by (simp_all add: tally_def)
qed

text \<open>A node that is not active is not made active by its threads.\<close>

lemma comm_loop_control:
  assumes "documented (ev_lifecycle E)"
  shows "comm_loop E k cs n = Some n' \<Longrightarrow> falls_back E n n'"
proof (induction cs arbitrary: n)
  case (Cons c cs)
  show ?case
  proof (cases "comm_threads n ! k")
    case True
    then obtain m where "can_cycle_callback E c k n = Some m" "comm_loop E k cs m = Some n'"
      using Cons.prems by (auto split: option.splits)
    then show ?thesis using falls_back_trans [OF assms cycle_falls_back [OF assms]] Cons.IH by blast
  qed (use Cons.prems in simp)
qed simp

lemma mute_joint_loop:
  assumes E: "documented (ev_lifecycle E)" and "live n" and "k < length (can_interfaces n)"
    and "current_state n = ACTIVE" and "comm_threads n ! k" and "joint_cmd_ptr n \<noteq> None"
    and "can_interfaces n ! k = Some d" and "j < length (joint_configs d)" and "mute j d"
    and "unat (num_can_errors_per_interfaces n ! k) + length (joint_configs d) < 2 ^ 32"
    and "unat (max_can_errors_before_motor_shutdown n) + length (joint_configs d) < 2 ^ 32"
    and "cs \<noteq> []"
    and "unat (max_can_errors_before_motor_shutdown n) \<le> unat (num_can_errors_per_interfaces n ! k) + length cs"
    and "comm_loop E k cs n = Some n'"
  shows "current_state n' \<noteq> ACTIVE"
  using assms(2-)
proof (induction cs arbitrary: n d)
  case (Cons c cs)
  obtain m where m: "can_cycle_callback E c k n = Some m" "comm_loop E k cs m = Some n'"
    using Cons.prems(4,13) by (auto split: option.splits)
  have f: "falls_back E n m" "falls_back E m n'"
    using cycle_falls_back [OF E m(1)] comm_loop_control [OF E m(2)] by blast+
  show ?case
  proof (cases "current_state m = ACTIVE")
    case False
    then show ?thesis using f(2) by (auto simp: falls_back_def control_def)
  next
    case True
    note step = mute_joint_cycle [OF E Cons.prems(1-9) m(1) True]
    obtain d' where d': "can_interfaces m ! k = Some d'" "mute j d'" "joint_configs d' = joint_configs d" using step(5) by blast
    have lm: "live m" "k < length (can_interfaces m)" using cycle_live [OF E Cons.prems(1,2), of c] m(1) Cons.prems(2) by auto
    have cm: "joint_cmd_ptr m \<noteq> None" using f(1) True Cons.prems(5) E by (auto simp: falls_back_def control_def deactivate_eq)
    have ne: "cs \<noteq> []" using step(1,2) Cons.prems(12) by auto
    show ?thesis
      by (rule Cons.IH [OF lm True step(4) cm d'(1) _ d'(2)])
        (use step(1-3) d'(3) Cons.prems(7,10,12) ne m(2) in simp_all)
  qed
qed simp

section \<open>Frames of an inactive node\<close>

text \<open>The command of a joint at rest: no velocity, torque or stiffness, and one damping gain.\<close>

definition damping_cmd :: "fp \<Rightarrow> JointParameters \<Rightarrow> joint_cmd" where
  "damping_cmd kd p =
     \<lparr>cmd_pos = fp_conv b32 (fp_sub b64 (Fin 0) (zero_position p)), cmd_vel = fp_conv b32 (Fin 0),
      cmd_torque = fp_conv b32 (Fin 0), cmd_kp = fp_conv b32 (Fin 0), cmd_kd = fp_conv b32 kd\<rparr>"

lemma those_nth: "those xs = Some ys \<Longrightarrow> length ys = length xs \<and> (\<forall>i<length xs. xs ! i = Some (ys ! i))"
proof (induction xs arbitrary: ys)
  case (Cons x xs)
  then obtain a as where "x = Some a" "those xs = Some as" "ys = a # as" by (auto split: option.splits)
  then show ?case using Cons.IH by (auto simp: nth_Cons split: nat.split)
qed simp

lemma damping_commands:
  assumes "live n" and "k < length (can_interfaces n)" and "current_state n = INACTIVE"
    and "those (map (cycle_command E n k (passive_command (joint_msg_length n) kd))
      [0..<length (joint_commands_per_can_interface n ! k)]) = Some cmds"
  shows "cmds = map (damping_cmd kd) (joint_parameters_per_can_interface n ! k)"
proof (rule nth_equalityI)
  note l = liveD(1) [OF assms(1,2)] and c = those_nth [OF assms(4)]
  have len: "length (joint_commands_per_can_interface n ! k) = length (joint_parameters_per_can_interface n ! k)"
    using l by (simp add: aligned_def Let_def)
  then show "length cmds = length (map (damping_cmd kd) (joint_parameters_per_can_interface n ! k))" using c by simp
  fix i assume "i < length cmds"
  then have i: "i < length (joint_parameters_per_can_interface n ! k)" using c len by simp
  then have "unat (msg_idx (joint_parameters_per_can_interface n ! k ! i)) < joint_msg_length n"
    using index_fits [OF assms(1,2)] by simp
  moreover have "cycle_command E n k (passive_command (joint_msg_length n) kd) i = Some (cmds ! i)"
    using c i len by simp
  ultimately show "cmds ! i = map (damping_cmd kd) (joint_parameters_per_can_interface n ! k) ! i"
    using i assms(3) by (auto simp: cycle_command_def message_command_def passive_command_def damping_cmd_def Let_def split: if_splits)
qed

lemma after_exchange_interfaces:
  assumes "documented (ev_lifecycle E)" and "after_exchange E c k x drv n = Some n'"
  shows "can_interfaces n' = can_interfaces n"
proof -
  obtain errors n1 where n1: "check_status E (joint_states_per_can_interface n ! k) n = (errors, n1)" by force
  obtain go n2 where n2: "count_errors E k errors n1 = (go, n2)" by force
  have "can_interfaces n2 = can_interfaces n1"
    using n2 assms(1) by (auto simp: count_errors_def give_up_def deactivate_eq Let_def split: if_splits)
  moreover have "tally n' = tally n2 \<or> n' = n2"
    using assms n1 n2 tally_part.process_replies [OF assms(1)] by (cases go) (auto simp: after_exchange_def)
  ultimately show ?thesis using tally_part.statuses [OF assms(1) n1] by (auto simp: tally_def)
qed

section \<open>The origin of all motors\<close>

text \<open>Every interface calibrates its joints without a failure.\<close>

fun all_calibrated :: "nat list \<Rightarrow> node \<Rightarrow> node option" where
  "all_calibrated [] n = Some n"
| "all_calibrated (i # is) n = (case calibrate_interface i n of (Ok _, m) \<Rightarrow> all_calibrated is m | _ \<Rightarrow> None)"

fun while_held :: "(bool \<times> node) option \<Rightarrow> node option" where
  "while_held (Some (True, n)) = Some n"
| "while_held _ = None"

lemma while_held_Some [simp]: "while_held (Some (held, n)) = (if held then Some n else None)"
  by simp

lemma released: "while_held (calibrate_all E is (False, n)) = None"
  using calibrate_all_held [of E "is" False n] by (cases "calibrate_all E is (False, n)") auto

lemma calibrate_all_outcome:
  assumes "\<forall>i\<in>set is. i < length (can_interfaces n)"
  shows "while_held (calibrate_all E is (True, n)) = all_calibrated is n"
  using assms
proof (induction "is" arbitrary: n)
  case (Cons i "is")
  obtain r m where c: "calibrate_interface i n = (r, m)" by force
  have "length (can_interfaces m) = length (can_interfaces n)"
    using c by (auto simp: calibrate_interface_def can_call_def split: option.splits prod.splits)
  then have IH: "while_held (calibrate_all E is (True, m)) = all_calibrated is m" using Cons by simp
  show ?case
  proof (cases r)
    case (Throw e)
    then show ?thesis using Cons.prems c released
      by (cases "emergency_stop [0..<length (can_interfaces m) + 1] m") simp_all
  qed (use Cons.prems c IH in simp_all)
qed simp

section \<open>Properties\<close>

text \<open>
  C6. A motor that falls silent ends the motion: when no reply of a joint is left on the bus of an
  active node, whatever else is there (replies of the other joints, error frames, foreign frames,
  failing reads), its communication thread deactivates the node within as many cycles as errors are
  tolerated, and the motors are told to damp.
\<close>

theorem mute_motor_ends_motion:
  assumes "documented (ev_lifecycle E)" and "live n" and "k < length (can_interfaces n)"
    and "current_state n = ACTIVE" and "comm_threads n ! k" and "joint_cmd_ptr n \<noteq> None"
    and "can_interfaces n ! k = Some d" and "j < length (joint_configs d)" and "mute j d"
    and "unat (num_can_errors_per_interfaces n ! k) + length (joint_configs d) < 2 ^ 32"
    and "unat (max_can_errors_before_motor_shutdown n) + length (joint_configs d) < 2 ^ 32"
    and "cs \<noteq> []"
    and "unat (max_can_errors_before_motor_shutdown n) \<le> unat (num_can_errors_per_interfaces n ! k) + length cs"
  shows "\<exists>n'. comm_loop E k cs n = Some n' \<and> current_state n' = INACTIVE \<and>
    joint_cmd_ptr n' = Some (passive_command (joint_msg_length n) (default_damping_KD n))"
proof -
  obtain n' where n': "comm_loop E k cs n = Some n'" using comm_loop_live [OF assms(1-3)] by blast
  have "current_state n' \<noteq> ACTIVE" by (rule mute_joint_loop [OF assms n'])
  moreover have "falls_back E n n'" by (rule comm_loop_control [OF assms(1) n'])
  ultimately show ?thesis using assms(1,4) n' by (auto simp: falls_back_def control_def deactivate_eq)
qed

theorem mute_motor_ends_motion_witness:
  "\<exists>n'. comm_loop demo_env 0 [\<lparr>ros_now_ns = 1, cycle_entry_ns = 1, cycle_end_ns = 2\<rparr>]
      (demo_node ACTIVE [Rx_Fail 11, reply_v3 9 0]) = Some n' \<and> current_state n' = INACTIVE"
proof -
  let ?n = "demo_node ACTIVE [Rx_Fail 11, reply_v3 9 0]" and ?c = "\<lparr>ros_now_ns = 1, cycle_entry_ns = 1, cycle_end_ns = 2\<rparr>"
  let ?d = "demo_driver [demo_motor 1 V2] [Rx_Fail 11, reply_v3 9 0]"
  have n: "0 < length (can_interfaces ?n)" "current_state ?n = ACTIVE" "comm_threads ?n ! 0" "joint_cmd_ptr ?n \<noteq> None"
    "can_interfaces ?n ! 0 = Some ?d" "num_can_errors_per_interfaces ?n ! 0 = 0" "max_can_errors_before_motor_shutdown ?n = 1"
    by (simp_all add: demo_node_def)
  have d: "length (joint_configs ?d) = 1" by (simp add: demo_driver_simps)
  have m: "mute 0 ?d"
    by (simp add: mute_def demo_driver_simps reply_v3_def frame_joint_def demo_pair_facts)
  show ?thesis
    using mute_motor_ends_motion [OF demo_env_documented demo_node_live n(1-5) _ m, of "[?c]"] n(6,7) d by auto
qed

text \<open>
  C3. The motors of an inactive node are only damped. After any sequence of events, a cycle of a
  running communication thread of an inactive node puts frames on the bus for joints of its
  interface only, one for each write that succeeds in the order of the joints, and each asks for no
  velocity, no torque and no stiffness, with one damping gain for all joints of the node. The one
  exception is a node that holds a command which its callback has stored after the node had become
  inactive: the frames then carry that command.
\<close>

theorem inactive_node_sends_damping:
  assumes "documented (ev_lifecycle E)" and "initial n0" and "no_joints n0" and "True \<notin> set (comm_threads n0)"
    and "node_run E n0 evs n" and "\<forall>ev\<in>set evs. small_event ev"
    and "current_state n = INACTIVE" and "node_step E n (Ev_cycle c k) n'"
  shows "\<exists>d d' cmd cmds. can_interfaces n ! k = Some d \<and> can_interfaces n' ! k = Some d' \<and>
    length (joint_configs d) = length (joint_parameters_per_can_interface n ! k) \<and>
    joint_cmd_ptr n = Some cmd \<and>
    those (map (cycle_command E n k cmd) [0..<length (joint_configs d)]) = Some cmds \<and>
    sent (socket d') = sent (socket d) @
      map (\<lambda>j. command_frame (joint_configs d ! j) (cmds ! j)) (filter ((!) (written d)) [0..<length (joint_configs d)]) \<and>
    ((\<exists>kd. cmds = map (damping_cmd kd) (joint_parameters_per_can_interface n ! k)) \<or> cmd \<in> late_commands E n0 evs)"
proof -
  have "sound n0" "pending_fits n0"
    using assms(2-4) no_joints_good by (simp_all add: sound_def torn_def initial_def pending_fits_def)
  then have s: "sound n" using run_sound [OF assms(5,1,6)] by simp
  from assms(8) have st: "k < length (comm_threads n)" "comm_threads n ! k" "can_cycle_callback E c k n = Some n'"
    by (cases; simp)+
  have live: "live n" and k: "k < length (can_interfaces n)" using running_live [OF s st(1,2)] by simp_all
  note l = liveD [OF live k]
  obtain d where d: "can_interfaces n ! k = Some d" "driver_ok d" "list_all config_ok (joint_configs d)"
    "length (joint_configs d) = length (joint_commands_per_can_interface n ! k)"
    using l(3) by (auto simp: good_driver_def)
  have len: "length (joint_configs d) = length (joint_parameters_per_can_interface n ! k)"
    "length (joint_configs d) = length (joint_states_per_can_interface n ! k)"
    using l(1) d(4) by (simp_all add: aligned_def Let_def)
  obtain cmd where cmd: "joint_cmd_ptr n = Some cmd" "restful n \<or> cmd \<in> late_commands E n0 evs"
    using run_settled [OF assms(5,1) initial_settled [OF assms(2)] order_refl] assms(7)
    by (auto simp: settled_def restful_def)
  obtain cmds r d' where e: "those (map (cycle_command E n k cmd) [0..<length (joint_configs d)]) = Some cmds"
    "send_and_receive cmds (joint_states_per_can_interface n ! k) d = (r, d')" "can_interfaces n' ! k = Some d'"
    using st(3)
  proof (cases rule: cycle_cases)
    case (failed cmd' cmds drv e drv')
    then have "can_interfaces n' ! k = Some drv'" using assms(1,7) k by (simp add: give_up_def exchanged_def)
    then show thesis using that [of cmds "Throw e" drv'] failed(3-6) cmd d(1,4) by simp
  next
    case (answered cmd' cmds drv states drv' frequency)
    have "can_interfaces n' ! k = Some drv'"
      using after_exchange_interfaces [OF assms(1) answered(7)] k by (simp add: with_states_def exchanged_def)
    then show thesis using that [of cmds "Ok states" drv'] answered(3-6) cmd d(1,4) by simp
  qed (use assms(7) st cmd in auto)
  have "length cmds = length (joint_configs d)" using those_nth [OF e(1)] by simp
  then have frames: "sent (socket d') = sent (socket d) @ map (\<lambda>j. command_frame (joint_configs d ! j) (cmds ! j))
      (filter ((!) (written d)) [0..<length (joint_configs d)])"
    using cycle_sends_frames [OF d(2,3) _ len(2) [symmetric], of cmds] unfolding e(2) by simp
  have "\<exists>kd. cmds = map (damping_cmd kd) (joint_parameters_per_can_interface n ! k)" if "restful n"
    using that damping_commands [OF live k assms(7)] e(1) cmd d(4) by (auto simp: restful_def)
  then show ?thesis using d(1) e(1,3) len(1) cmd frames by blast
qed

theorem inactive_node_sends_damping_witness:
  "\<exists>n n' d d' kd. node_run demo_env fresh_node [Ev_configure (demo_os [reply_v2 1 0]) demo_params 5] n \<and>
    can_interfaces n ! 0 = Some d \<and> can_interfaces n' ! 0 = Some d' \<and>
    node_step demo_env n (Ev_cycle \<lparr>ros_now_ns = 1, cycle_entry_ns = 1, cycle_end_ns = 2\<rparr> 0) n' \<and>
    sent (socket d') = sent (socket d) @
      map (\<lambda>j. command_frame (joint_configs d ! j) (map (damping_cmd kd) (joint_parameters_per_can_interface n ! 0) ! j))
        (filter ((!) (written d)) [0..<length (joint_configs d)])"
proof -
  let ?c = "\<lparr>ros_now_ns = 1, cycle_entry_ns = 1, cycle_end_ns = 2\<rparr>" and ?ev = "Ev_configure (demo_os [reply_v2 1 0]) demo_params 5"
  obtain n where n: "configure demo_env (demo_os [reply_v2 1 0]) demo_params 5 fresh_node = Some n"
    "current_state n = INACTIVE" "well_formed n" "length (can_interfaces n) = 1"
    by (rule demo_configure)
  have "accepted fresh_node = None" using fresh_initial by (simp add: initial_def)
  then have r: "node_run demo_env fresh_node [?ev] n" using n(1) by (blast intro: run_cons run_nil configure_step)
  have f: "True \<notin> set (comm_threads fresh_node)" by (simp add: fresh_node_def clear_joints_def demo_node_def)
  have small: "\<forall>ev\<in>set [?ev]. small_event ev" using demo_fresh(2) by simp
  have "comm_threads n ! 0" "0 < length (comm_threads n)"
    using n(3,4) by (simp_all add: well_formed_def interface_fits_def aligned_def)
  moreover have "sound fresh_node" "pending_fits fresh_node"
    using fresh_initial f demo_fresh(1) no_joints_good by (simp_all add: sound_def torn_def initial_def pending_fits_def)
  then have "sound n" by (rule run_sound [OF r demo_env_documented small])
  then obtain n' where "can_cycle_callback demo_env ?c 0 n = Some n'"
    using running_live calculation cycle_live [OF demo_env_documented] by blast
  ultimately have "node_step demo_env n (Ev_cycle ?c 0) n'" by (intro cycle_step)
  moreover have "late_commands demo_env fresh_node [?ev] = {}" by (auto simp: late_commands_def Cons_eq_append_conv)
  ultimately show ?thesis
    using inactive_node_sends_damping [OF demo_env_documented fresh_initial demo_fresh(1) f r small n(2)] r by fastforce
qed

text \<open>
  C23. The service that moves the origin of all motors never reports a failure. On an inactive node
  it answers exactly when every motor confirms, and then with success and all threads running;
  when a motor fails, the callback has undefined behaviour, by an index past the end of the
  interfaces or by releasing its mutex twice.
\<close>

theorem origin_service_never_reports_failure:
  assumes "current_state n = INACTIVE"
  shows "set_all_motors_origin_here_callback E n =
    map_option (\<lambda>m. (\<lparr>success = True, message = All_set\<rparr>, restart_threads m))
      (all_calibrated [0..<length (can_interfaces n)] (stop_all_comm_threads n))"
proof -
  let ?m = "stop_all_comm_threads n" and ?is = "[0..<length (can_interfaces n)]"
  have "all_calibrated ?is ?m = while_held (calibrate_all E ?is (True, ?m))"
    by (rule calibrate_all_outcome [symmetric]) (simp add: stop_all_comm_threads_def)
  moreover have "length (can_interfaces ?m) = length (can_interfaces n)" by (simp add: stop_all_comm_threads_def)
  moreover obtain x where "calibrate_all E ?is (True, ?m) = x" by blast
  ultimately show ?thesis using assms
    by (cases x rule: while_held.cases) (simp_all add: set_all_motors_origin_here_callback_def Let_def)
qed

theorem origin_service_never_reports_failure_witness:
  "set_all_motors_origin_here_callback demo_env (demo_node INACTIVE []) = None"
proof -
  let ?n = "demo_node INACTIVE []"
  have n: "current_state ?n = INACTIVE" "length (can_interfaces ?n) = 1" "length (joint_parameters_per_can_interface ?n ! 0) = 1"
    "can_interfaces ?n ! 0 = Some (demo_driver [demo_motor 1 V2] [])"
    by (simp_all add: demo_node_def)
  obtain d where d: "end_motor_control_mode 0 (demo_driver [demo_motor 1 V2] []) = (Throw can_device_error, d)"
    by (cases "end_motor_control_mode 0 (demo_driver [demo_motor 1 V2] [])")
      (auto simp: end_motor_control_mode_def demo_driver_simps disable_def demo_pair_facts send_control_frameV2_def
        sys_write_sent sys_write_frame await_reply_def read_frame_def sys_recv_def split_beta Let_def)
  have "fst (calibrate_interface 0 (stop_all_comm_threads ?n)) = Throw can_device_error"
    using n(2-4) by (simp add: calibrate_interface_def can_call_def stop_all_comm_threads_def seq_def d)
  then show ?thesis
    using origin_service_never_reports_failure [OF n(1), of demo_env] n(2)
    by (cases "calibrate_interface 0 (stop_all_comm_threads ?n)") simp
qed

end
