(* ===== verification/NodeCleanup.thy ===== *)
theory NodeCleanup
  imports NodeProgress
begin

text \<open>
  The end of the motion on purpose: what a clean-up puts on the bus.
\<close>

section \<open>Calls that fail on their own\<close>

lemma each_caught_driver:
  "i < length (can_interfaces n) \<Longrightarrow>
   can_interfaces (snd (each_caught f ijs n)) ! i =
     map_option (fold (\<lambda>ij d. snd (f ij d)) [ij \<leftarrow> ijs. fst ij = i]) (can_interfaces n ! i)"
proof (induction ijs arbitrary: n)
  case Nil
  then show ?case by (simp add: option.map_id0 [unfolded id_def] id_def)
next
  case (Cons ij ijs)
  obtain r m where c: "can_call (fst ij) (f ij) n = (r, m)" by force
  have "length (can_interfaces m) = length (can_interfaces n)"
    using c by (auto simp: can_call_def split: option.splits prod.splits)
  moreover have "can_interfaces m ! i =
      (if fst ij = i then map_option (\<lambda>d. snd (f ij d)) (can_interfaces n ! i) else can_interfaces n ! i)"
    using c Cons.prems by (auto simp: can_call_def nth_list_update_if split: option.splits prod.splits)
  ultimately show ?case using Cons.IH [of m] Cons.prems c
    by (simp add: split_beta option.map_comp comp_def)
qed

lemma filter_pairs:
  "i < k \<Longrightarrow> [ij \<leftarrow> concat (map (\<lambda>i. map (Pair i) [0..<m i]) [0..<k]). fst ij = i] = map (Pair i) [0..<m i]"
proof (induction k)
  case (Suc k)
  have none: "[ij \<leftarrow> map (Pair j) xs. fst ij = i] = (if j = i then map (Pair i) xs else [])" for j and xs :: "nat list"
    by (induction xs) auto
  have "[ij \<leftarrow> concat (map (\<lambda>i. map (Pair i) [0..<m i]) [0..<l]). fst ij = i] = []" if "l \<le> i" for l
    using that by (induction l) (simp_all add: none)
  then show ?case using Suc by (cases "i = k") (simp_all add: none)
qed simp

lemma fold_end_modes:
  assumes "m \<le> length (joint_configs d)"
  shows "fold (\<lambda>j d. snd (end_motor_control_mode j d)) [0..<m] d = fold (\<lambda>c d. snd (disable c d)) (take m (joint_configs d)) d"
  using assms
proof (induction m)
  case (Suc m)
  let ?d = "fold (\<lambda>c d. snd (disable c d)) (take m (joint_configs d)) d"
  have "same_setup e (snd (disable c e))" for c e
    by (rule control_channel.send_setup [OF disabling.channel])
  then have "same_setup e (fold (\<lambda>c d. snd (disable c d)) cs e)" for cs e
    by (induction cs arbitrary: e) (auto intro: same_setup_trans)
  then have "joint_configs ?d = joint_configs d" by (simp add: same_setup_def)
  then have "snd (end_motor_control_mode m ?d) = snd (disable (joint_configs d ! m) ?d)"
    using Suc.prems by (simp add: end_motor_control_mode_def)
  then show ?case using Suc by (simp add: take_Suc_conv_app_nth)
qed simp

lemma disable_motors_driver:
  assumes "i < length (can_interfaces n)" and "can_interfaces n ! i = Some d"
    and "length (joint_commands_per_can_interface n ! i) = length (joint_configs d)"
  shows "can_interfaces (snd (disable_motors n)) ! i = Some (fold (\<lambda>c d. snd (disable c d)) (joint_configs d) d)"
proof -
  have "fold (\<lambda>ij d. snd (end_motor_control_mode (snd ij) d)) (map (Pair i) [0..<length (joint_configs d)]) d =
      fold (\<lambda>j d. snd (end_motor_control_mode j d)) [0..<length (joint_configs d)] d"
    by (simp add: fold_map comp_def)
  then show ?thesis
    using assms by (simp add: disable_motors_def each_caught_driver split_beta filter_pairs fold_end_modes)
qed

section \<open>Properties\<close>

text \<open>
  C22. A clean-up asks every motor to leave its control mode: on an interface whose writes succeed,
  each joint gets its own request, in the order of the joints, whatever the motors before it or on
  other interfaces answer and whether they answer at all.
\<close>

theorem cleanup_disables_every_motor:
  assumes "live n" and "i < length (can_interfaces n)" and "can_interfaces n ! i = Some d" and "link_up d"
  shows "\<exists>m d' fs. m = snd (disable_motors (stop_all_comm_threads
        (n\<lparr>on_set_parameters_handle := False, publish_timer := False\<rparr>)\<lparr>comm_threads := []\<rparr>)) \<and>
    on_cleanup n = (LC_SUCCESS, clear_joints (m\<lparr>can_interfaces := [], last_can_cycle_times := []\<rparr>)) \<and>
    can_interfaces m ! i = Some d' \<and> sent (socket d') = sent (socket d) @ fs \<and>
    list_all2 disable_request (joint_configs d) fs"
proof -
  let ?n = "stop_all_comm_threads (n\<lparr>on_set_parameters_handle := False, publish_timer := False\<rparr>)\<lparr>comm_threads := []\<rparr>"
  have d: "driver_ok d" "length (joint_configs d) = length (joint_commands_per_can_interface n ! i)"
    using liveD(3) [OF assms(1,2)] assms(3) by (auto simp: good_driver_def)
  have n: "i < length (can_interfaces ?n)" "can_interfaces ?n ! i = Some d"
    "length (joint_commands_per_can_interface ?n ! i) = length (joint_configs d)"
    using assms(2,3) d(2) by (simp_all add: stop_all_comm_threads_def)
  have "ready d" using d(1) by (simp add: driver_ok_def)
  then obtain fs where "sent (socket (fold (\<lambda>c d. snd (disable c d)) (joint_configs d) d)) = sent (socket d) @ fs"
    "list_all2 disable_request (joint_configs d) fs"
    using disabling.all_asked [OF _ assms(4)] by blast
  then show ?thesis using disable_motors_driver [OF n] by (simp add: on_cleanup_def Let_def)
qed

theorem cleanup_disables_every_motor_witness:
  "\<exists>d' fs. can_interfaces (snd (disable_motors (stop_all_comm_threads
        (demo_node INACTIVE []\<lparr>on_set_parameters_handle := False, publish_timer := False\<rparr>)\<lparr>comm_threads := []\<rparr>))) ! 0 =
      Some d' \<and> sent (socket d') = fs \<and> list_all2 disable_request [demo_motor 1 V2] fs"
proof -
  let ?n = "demo_node INACTIVE []" and ?d = "demo_driver [demo_motor 1 V2] []"
  have n: "0 < length (can_interfaces ?n)" "can_interfaces ?n ! 0 = Some ?d" by (simp_all add: demo_node_def)
  have d: "link_up ?d" "joint_configs ?d = [demo_motor 1 V2]" "sent (socket ?d) = []" by (simp_all add: demo_driver_simps)
  from cleanup_disables_every_motor [OF demo_node_live n d(1)] show ?thesis unfolding d by auto
qed

end
