(* ===== verification/Spec2Isabelle.thy ===== *)
theory Spec2Isabelle
  imports Plugin NodePolicy NodeCleanup
begin

text \<open>
  Verification of the CubeMars motor driver: a ROS 2 lifecycle node and a \<open>ros2_control\<close> plugin,
  which command brushless motors of the series V2 and V3 over SocketCAN.

  \<^bold>\<open>The program.\<close> \<open>CubemarsCan\<close> (\<open>cubemars_can.hpp\<close>, \<open>cubemars_can.cpp\<close>) owns one CAN socket and the
  motors on it: it starts and ends their control mode and runs one control cycle, which writes a
  command to every motor and reads their replies. \<open>CubeMarsHardwareNode\<close>
  (\<open>cubemars_hardware_node.hpp\<close>, \<open>cubemars_hardware_node.cpp\<close>) owns several of these drivers, one
  communication thread for each, the filters of \<open>filters.hpp\<close>, and the lifecycle: it is configured from
  parameters, activated once a controller sends commands, falls back to damping on silence, faults
  and violated limits, and is cleaned up when the bus is lost. \<open>CubemarsHardwareInterface\<close>
  (\<open>cubemars_hardware_interface.hpp\<close>, \<open>cubemars_hardware_interface.cpp\<close>) is an alternative to the
  node with a socket and an encoding of its own. \<open>cubemars_com.hpp\<close> holds what they share.

  \<^bold>\<open>Theories of the driver.\<close>
  \<^item> \<open>Prelude\<close>: results of C++ calls (a value, an exception, undefined behaviour), promotions of
    integers, the named collections of facts, lemmas on lists.
  \<^item> \<open>Ieee\<close>: binary32 and binary64 with rounding to nearest even, overflow, NaN and signed zero;
    \<open>Com\<close>: \<open>cubemars_com.hpp\<close>; \<open>Socket\<close>: the socket as an oracle for every system call, and the members
    of \<open>CubemarsCan\<close>.
  \<^item> \<open>CanSetup\<close>: \<open>recv_frame_with_timestamp\<close>, the receive filters and the constructor.
  \<^item> \<open>Codec\<close>: \<open>float_to_uint\<close>, \<open>uint_to_float\<close>, the layouts of command and reply frames.
  \<^item> \<open>CanControl\<close>: \<open>send_control_frameV2\<close>, \<open>send_control_frameV3\<close>, \<open>start_motor_control_mode\<close>,
    \<open>end_motor_control_mode\<close>, for one joint and for all.
  \<^item> \<open>CanCycle\<close>: \<open>send_and_receive\<close> and \<open>collect_tx_timestamps\<close>, and an abstract receive phase, a fold over
    the frames of the read slots, that they refine.
  \<^item> \<open>Filters\<close>: \<open>AlphaBetaFilter\<close>, \<open>MedianFilter\<close>, \<open>MovingAverage\<close> over a record with the operations of the
    template argument, which is \<open>double\<close> wherever the node uses them.
  \<^item> \<open>Plugin\<close>: all callbacks of \<open>CubemarsHardwareInterface\<close>, with the exceptions of \<open>stod\<close> and of a
    difference of two times.

  \<^bold>\<open>Theories of the node.\<close> \<open>None\<close> as the result of a callback is undefined behaviour.
  \<^item> \<open>Node\<close>: the members of the class as one record, vectors of vectors as lists of lists, and the
    record \<open>env\<close> of what the client library and the mathematical library provide.
  \<^item> \<open>NodeParams\<close>: \<open>on_set_parameters_callback\<close>. \<open>NodeLifecycle\<close>: \<open>on_activate\<close>, \<open>on_deactivate\<close>,
    \<open>on_cleanup\<close>, \<open>on_shutdown\<close>, \<open>on_error\<close>, watchdog, supervisor, \<open>joint_cmd_msg_callback\<close>, starting and
    stopping of the threads. \<open>NodeCycle\<close>: \<open>can_cycle_callback\<close> and the loop around it,
    \<open>joint_state_publish_callback\<close>. \<open>NodeConfigure\<close>: \<open>on_configure\<close>. \<open>NodeOrigin\<close>: the two services that
    move origins.
  \<^item> \<open>NodeSystem\<close>: the events that reach the node, one step of \<open>node_step\<close> for each callback, runs, and
    what each callback leaves of the control state. The locales \<open>cycle_part\<close> and \<open>cycle_rest\<close> say once what
    the stages of a cycle leave alone; every part of the node that a proof follows interprets them.
  \<^item> \<open>NodeSetup\<close>: what a configuration establishes. \<open>NodeSafety\<close>: command, watchdog and limits.
    \<open>NodeLive\<close>: the invariant \<open>live\<close> of the interfaces and one cycle under it. \<open>NodeProgress\<close>: every event
    keeps the invariant \<open>sound\<close>, which contains it. \<open>NodeSpec\<close>: the lifecycle as an abstract machine, and
    the simulation. \<open>NodePolicy\<close>: node and driver together. \<open>NodeCleanup\<close>: the requests of a clean-up.
\<close>

text \<open>
  \<^bold>\<open>What is shown.\<close>
  \<^item> Codec: a command read back by its layout holds the clamped and scaled values, a value in range
    survives encoding and decoding to within 5/4 of a step; the plugin decodes replies alike, and
    sends a command at the upper limit as the lower limit when the limits round unfavourably.
  \<^item> Driver: every cycle returns and keeps the driver usable; what it writes, and what it reports of a
    joint that answers, answers late, or does not answer; that a reported response is a reply of this
    joint read in this cycle; independence of the order of replies; skipping of error frames; time
    stamps; start and end of the control mode with retries and failures; closing of the socket.
  \<^item> Filters: the median as a majority; how far the moving average of doubles can drift from the mean
    of its window.
  \<^item> Node, each callback: a successful configuration fits together; one rejected half-way leaves joints
    behind, and no configuration succeeds on their interface until an error clears them; parameters
    keep their invariant, and a batch takes effect as a whole or not at all.
  \<^item> Node, all events: no cycle and no publication meets undefined behaviour; the lifecycle refines its
    abstract machine; activation needs a command, unless the member that records it, which nothing
    initialises, was true from the start; an inactive node holds a command without motion, and
    the frames on the bus ask for none, unless a command was accepted before the deactivation and
    stored after it, which can happen; a silent controller, a mute motor and a violated limit each end
    the motion, within two ticks, within the tolerated number of errors and in the same cycle.
  \<^item> Shutdown and services: a clean-up asks every motor to leave its mode; the calibration of all motors
    cannot report a failure.

  \<^bold>\<open>Bounds.\<close> A read slot makes at most sixteen reads, as the code does (\<open>max_reads\<close>); retries end after
  the configured number of trials. All other loops run over lists. The loop of a communication thread
  is over a list of readings of the clocks, of any length, one for each iteration. Message indices are
  assumed to fit in 32 bits where the code narrows them (\<open>small_indices\<close>, \<open>small_event\<close>), and the error
  counter not to wrap where its growth matters.

  \<^bold>\<open>Parameters of the model.\<close> The outcome of every system call, the queues of received and echoed
  frames and the clock belong to the socket record. The parameter server is a partial function, the
  opening of sockets a function of the interface. The state machine of the client library is a record
  of type \<open>lifecycle\<close>; theorems that depend on it assume \<open>documented\<close>, the machine that the documentation of
  managed nodes describes. \<open>tanh\<close>, \<open>exp\<close> and \<open>pow\<close>, and the conversion to the element type of a message, are
  functions without assumptions. In the plugin, \<open>stoi\<close> and \<open>stod\<close> are arguments, and every call of
  \<open>write\<close> is given its time with the clock it comes from. Members that the constructor leaves
  uninitialised have any value at the start (\<open>initial\<close>).

  \<^bold>\<open>Atomicity.\<close> The command callback is two steps, \<open>Ev_command\<close> up to the check of the state and \<open>Ev_store\<close>
  for the store, because other threads can deactivate the node in between; the command in flight is
  the component \<open>accepted\<close> of the node. The callbacks of the executor share the default callback
  group, which runs one at a time beside the communication threads; the model uses this only for
  those that build or take down the vectors of the node, which wait for the store, and lets all
  others fall between the two steps. Every other callback is one step, and so is a cycle of a
  communication thread. Mutexes are therefore not modelled, but for the mutex of the calibration,
  which one path releases twice. A thread is its running flag:
  stopping it joins it.

  \<^bold>\<open>Not modelled.\<close> The process entry point with thread priority and executor; the creation of publishers,
  timers and services beyond their presence; quality of service; logging and its throttling; the names
  of the joints in the optional ROS 2 message; destructors, which only close the socket or deactivate.
  Null interface pointers do not occur before the handlers that tolerate a failing motor, and an index
  of the log past the configured joints is undefined behaviour of the roll-back.
\<close>

end
